(* ===== verification/Prelude.thy ===== *)
theory Prelude
  imports Main "HOL-Library.Sublist"
begin

section \<open>Shared vocabulary and generic facts\<close>

text \<open>
  The types every component uses (bytes, file descriptors, C strings) and the facts on lists,
  arrays and counts that several components share. A C \<open>char\<close> is a HOL \<^typ>\<open>char\<close>: both
  have exactly 256 values, and the literals of the code stay readable. A NUL-terminated
  string held in an array is the array's contents up to the first NUL (\<open>cstr\<close>).
\<close>

named_theorems sys_simps \<open>how one system call acts on the modelled kernel\<close>
named_theorems prog_defs \<open>definitions of modelled functions, for evaluation\<close>

type_synonym byte = char
type_synonym fd = int

abbreviation NUL :: byte where
  "NUL \<equiv> CHR 0x00"

definition cstr :: "byte list \<Rightarrow> byte list" where
  "cstr s = takeWhile (\<lambda>c. c \<noteq> NUL) s"

lemma cstr_simps [simp]:
  "cstr [] = []"
  "cstr (c # s) = (if c = NUL then [] else c # cstr s)"
  by (simp_all add: cstr_def)

lemma cstr_id: "NUL \<notin> set s \<Longrightarrow> cstr s = s"
  by (induction s) auto

lemma cstr_append_NUL: "NUL \<notin> set s \<Longrightarrow> cstr (s @ NUL # t) = s"
  by (induction s) auto

lemma NUL_notin_cstr [simp]: "NUL \<notin> set (cstr s)"
  unfolding cstr_def using set_takeWhileD by fastforce

lemma length_cstr: "length (cstr s) \<le> length s"
  by (simp add: cstr_def length_takeWhile_le)

subsection \<open>Decimal numerals\<close>

text \<open>What \<^verbatim>\<open>%d\<close> prints for a number that is not negative, and the value of a string of digits.\<close>

definition digit :: "nat \<Rightarrow> byte" where
  "digit n = char_of (48 + n)"

definition digit_val :: "byte \<Rightarrow> nat" where
  "digit_val c = of_char c - 48"

definition is_digit :: "byte \<Rightarrow> bool" where
  "is_digit c \<longleftrightarrow> 48 \<le> (of_char c :: nat) \<and> (of_char c :: nat) \<le> 57"

fun dec :: "nat \<Rightarrow> byte list" where
  "dec n = (if n < 10 then [digit n] else dec (n div 10) @ [digit (n mod 10)])"

declare dec.simps [simp del]

definition undec :: "byte list \<Rightarrow> nat" where
  "undec = foldl (\<lambda>v c. 10 * v + digit_val c) 0"

lemma digit_0 [simp]: "digit 0 = CHR ''0''"
  by code_simp

lemma of_char_digit: "n < 10 \<Longrightarrow> (of_char (digit n) :: nat) = 48 + n"
  by (simp add: digit_def)

lemma digit_props [simp]:
  "n < 10 \<Longrightarrow> digit_val (digit n) = n" "n < 10 \<Longrightarrow> is_digit (digit n)"
  by (simp_all add: digit_val_def is_digit_def of_char_digit)

lemma undec_snoc: "undec (s @ [c]) = 10 * undec s + digit_val c"
  by (simp add: undec_def)

lemma undec_dec [simp]: "undec (dec n) = n"
proof (induction n rule: dec.induct)
  case (1 n)
  show ?case
  proof (cases "n < 10")
    case True
    then show ?thesis by (simp add: dec.simps [of n] undec_def)
  next
    case False
    with 1 show ?thesis by (simp add: dec.simps [of n] undec_snoc)
  qed
qed

lemma dec_digits: "c \<in> set (dec n) \<Longrightarrow> is_digit c"
proof (induction n rule: dec.induct)
  case (1 n)
  then show ?case by (subst (asm) dec.simps) (auto split: if_splits)
qed

lemma dec_nonempty [simp]: "dec n \<noteq> []"
  by (subst dec.simps) simp

lemma length_dec: "0 < d \<Longrightarrow> n < 10 ^ d \<Longrightarrow> length (dec n) \<le> d"
proof (induction n arbitrary: d rule: dec.induct)
  case (1 n)
  show ?case
  proof (cases "n < 10")
    case True
    with 1 show ?thesis by (simp add: dec.simps [of n])
  next
    case False
    with "1.prems" obtain e where d: "d = Suc e" "0 < e" by (cases d; cases "d - 1") auto
    with "1.prems" have "n div 10 < 10 ^ e" by (simp add: less_mult_imp_div_less mult.commute)
    with 1 False d have "length (dec (n div 10)) \<le> e" by simp
    with False d show ?thesis by (simp add: dec.simps [of n])
  qed
qed

lemma hd_dec: "10 \<le> n \<Longrightarrow> hd (dec n) \<noteq> CHR ''0''"
proof (induction n rule: dec.induct)
  case (1 n)
  show ?case
  proof (cases "n div 10 < 10")
    case True
    with 1 have "0 < n div 10" "dec n = [digit (n div 10), digit (n mod 10)]"
      by (simp_all add: dec.simps [of n] dec.simps [of "n div 10"] div_greater_zero_iff)
    moreover have "digit (n div 10) \<noteq> CHR ''0''"
      using True calculation(1) digit_props(1) [of "n div 10"] digit_props(1) [of 0] digit_0 by fastforce
    ultimately show ?thesis by simp
  next
    case False
    with 1 show ?thesis by (simp add: dec.simps [of n])
  qed
qed

text \<open>What \<^verbatim>\<open>%d\<close> writes.\<close>

definition show_int :: "int \<Rightarrow> byte list" where
  "show_int i = (if i < 0 then CHR ''-'' # dec (nat (- i)) else dec (nat i))"

lemma length_show_int:
  assumes "\<bar>x\<bar> < 10 ^ k" "0 < k"
  shows "length (show_int x) \<le> k + 1" "0 \<le> x \<Longrightarrow> length (show_int x) \<le> k"
proof -
  have "nat \<bar>x\<bar> < 10 ^ k" using assms(1) by (simp add: nat_less_iff)
  from length_dec [OF assms(2) this] show "length (show_int x) \<le> k + 1" "0 \<le> x \<Longrightarrow> length (show_int x) \<le> k"
    by (auto simp: show_int_def abs_if split: if_splits)
qed

lemma newline_notin_show_int [simp]: "CHR 0x0A \<notin> set (show_int i)"
  by (auto simp: show_int_def is_digit_def split: if_splits dest!: dec_digits)

subsection \<open>Counting the threads in a given place\<close>

text \<open>
  The program counters of a group of threads are a list; how many of them satisfy a predicate
  changes by at most one when one thread moves.
\<close>

definition count_if :: "('a \<Rightarrow> bool) \<Rightarrow> 'a list \<Rightarrow> int" where
  "count_if P xs = int (length (filter P xs))"

lemma count_if_simps [simp]:
  "count_if P [] = 0"
  "count_if P (x # xs) = (if P x then 1 else 0) + count_if P xs"
  "count_if P (xs @ ys) = count_if P xs + count_if P ys"
  by (simp_all add: count_if_def)

lemma count_if_nonneg [simp]: "0 \<le> count_if P xs"
  by (simp add: count_if_def)

lemma count_if_le_length: "count_if P xs \<le> int (length xs)"
  by (simp add: count_if_def)

lemma count_if_update:
  "i < length xs \<Longrightarrow>
     count_if P (xs[i := y]) =
       count_if P xs - (if P (xs ! i) then 1 else 0) + (if P y then 1 else 0)"
  by (induction xs arbitrary: i) (auto split: nat.split)

lemma count_if_pos: "i < length xs \<Longrightarrow> P (xs ! i) \<Longrightarrow> 0 < count_if P xs"
  by (induction xs arbitrary: i)
     (auto simp: nth_Cons add_pos_nonneg add_nonneg_pos split: nat.splits)

lemma count_if_zero_iff: "count_if P xs = 0 \<longleftrightarrow> (\<forall>x \<in> set xs. \<not> P x)"
  by (simp add: count_if_def filter_empty_conv)

lemma count_if_replicate [simp]: "count_if P (replicate n x) = (if P x then int n else 0)"
  by (induction n) auto

subsection \<open>Searching an array from the left\<close>

text \<open>
  The loop \<open>for (i = 0; i < n; i++) if (P(a[i])) break;\<close> of the C programs: the first index
  whose element satisfies the test, and the length when there is none.
\<close>

fun first_index :: "('a \<Rightarrow> bool) \<Rightarrow> 'a list \<Rightarrow> nat" where
  "first_index P [] = 0"
| "first_index P (x # xs) = (if P x then 0 else Suc (first_index P xs))"

lemma first_index_le: "first_index P xs \<le> length xs"
  by (induction xs) auto

lemma first_index_hit: "first_index P xs < length xs \<Longrightarrow> P (xs ! first_index P xs)"
  by (induction xs) auto

lemma first_index_min: "i < first_index P xs \<Longrightarrow> \<not> P (xs ! i)"
proof (induction xs arbitrary: i)
  case (Cons x xs)
  then show ?case by (cases i) (auto split: if_splits)
qed simp

lemma first_index_none: "first_index P xs = length xs \<longleftrightarrow> (\<forall>x \<in> set xs. \<not> P x)"
  by (induction xs) auto

lemma first_index_less: "x \<in> set xs \<Longrightarrow> P x \<Longrightarrow> first_index P xs < length xs"
  by (metis first_index_le first_index_none le_neq_implies_less)

lemma first_index_eqI:
  "i < length xs \<Longrightarrow> P (xs ! i) \<Longrightarrow> (\<And>j. j < i \<Longrightarrow> \<not> P (xs ! j)) \<Longrightarrow> first_index P xs = i"
proof (induction xs arbitrary: i)
  case (Cons x xs)
  show ?case
  proof (cases i)
    case 0
    with Cons.prems show ?thesis by simp
  next
    case (Suc k)
    have "first_index P xs = k"
    proof (rule Cons.IH)
      show "k < length xs" "P (xs ! k)" using Cons.prems(1,2) Suc by simp_all
      show "\<not> P (xs ! j)" if "j < k" for j
        using Cons.prems(3) [of "Suc j"] Suc that by simp
    qed
    moreover have "\<not> P x" using Cons.prems(3) [of 0] Suc by simp
    ultimately show ?thesis using Suc by simp
  qed
qed simp

text \<open>Replacing one summand.\<close>

lemma sum_list_map_update:
  fixes h :: "'a \<Rightarrow> 'b :: comm_monoid_add"
  shows "i < length xs \<Longrightarrow> sum_list (map h (xs[i := x])) + h (xs ! i) = sum_list (map h xs) + h x"
proof (induction xs arbitrary: i)
  case (Cons y ys)
  show ?case
  proof (cases i)
    case (Suc k)
    with Cons have "sum_list (map h (ys[k := x])) + h (ys ! k) = sum_list (map h ys) + h x" by simp
    with Suc show ?thesis by (simp add: add.assoc)
  qed (simp add: ac_simps)
qed simp

end
