(* ===== verification/Inet.thy ===== *)
theory Inet
  imports Prelude "HOL-Library.Word"
begin

unbundle bit_operations_syntax

section \<open>Internet addresses and byte order\<close>

text \<open>
  The part of \<^verbatim>\<open>arpa/inet.h\<close> the programs use: byte order conversion on a little-endian host,
  dotted-quad parsing and printing, and \<^verbatim>\<open>struct sockaddr_in\<close>. The demonstration programs
  \<^verbatim>\<open>8_socket/1_hton.c\<close>, \<^verbatim>\<open>2_ntoh.c\<close> and \<^verbatim>\<open>3_ip_transfer.c\<close> are modelled here over their inputs.
\<close>

subsection \<open>Memory and byte order\<close>

text \<open>Memory of a little-endian host: \<^verbatim>\<open>*(uint32_t *)p\<close>, and the bytes of an object.\<close>

definition load32 :: "8 word \<Rightarrow> 8 word \<Rightarrow> 8 word \<Rightarrow> 8 word \<Rightarrow> 32 word" where
  "load32 b0 b1 b2 b3 =
     ucast b0 OR push_bit 8 (ucast b1) OR push_bit 16 (ucast b2) OR push_bit 24 (ucast b3)"

definition bytes32 :: "32 word \<Rightarrow> 8 word list" where
  "bytes32 x = [ucast x, ucast (drop_bit 8 x), ucast (drop_bit 16 x), ucast (drop_bit 24 x)]"

definition bytes16 :: "16 word \<Rightarrow> 8 word list" where
  "bytes16 x = [ucast x, ucast (drop_bit 8 x)]"

definition htons :: "16 word \<Rightarrow> 16 word" where
  "htons x = push_bit 8 x OR drop_bit 8 x"

definition htonl :: "32 word \<Rightarrow> 32 word" where
  "htonl x = load32 (ucast (drop_bit 24 x)) (ucast (drop_bit 16 x))
                    (ucast (drop_bit 8 x)) (ucast x)"

definition ntohs :: "16 word \<Rightarrow> 16 word" where
  "ntohs = htons"

definition ntohl :: "32 word \<Rightarrow> 32 word" where
  "ntohl = htonl"

lemma no_bit_byte: "8 \<le> n \<Longrightarrow> \<not> bit (b :: 8 word) n"
  by (auto dest: bit_imp_le_length)

lemma bytes32_load32 [simp]: "bytes32 (load32 b0 b1 b2 b3) = [b0, b1, b2, b3]"
  unfolding bytes32_def load32_def
  by (auto intro!: bit_word_eqI simp: bit_simps no_bit_byte)

lemma load32_bytes32 [simp]:
  "load32 (ucast x) (ucast (drop_bit 8 x)) (ucast (drop_bit 16 x)) (ucast (drop_bit 24 x)) = x"
proof (rule bit_word_eqI)
  fix n
  assume n: "n < LENGTH(32)"
  then consider "n < 8" | "8 \<le> n" "n < 16" | "16 \<le> n" "n < 24" | "24 \<le> n" "n < 32"
    by fastforce
  then show "bit (load32 (ucast x) (ucast (drop_bit 8 x)) (ucast (drop_bit 16 x))
      (ucast (drop_bit 24 x))) n = bit x n"
    by cases (auto simp: load32_def bit_simps)
qed

lemma bytes32_htonl: "bytes32 (htonl x) = rev (bytes32 x)"
  by (simp add: htonl_def) (simp add: bytes32_def)

definition word_of_bytes :: "8 word list \<Rightarrow> 32 word" where
  "word_of_bytes bs = load32 (bs ! 0) (bs ! 1) (bs ! 2) (bs ! 3)"

lemma word_of_bytes32: "word_of_bytes (bytes32 x) = x"
  by (simp add: word_of_bytes_def bytes32_def)

lemma bytes32_inject: "bytes32 x = bytes32 y \<longleftrightarrow> x = y"
  using word_of_bytes32 [of x] word_of_bytes32 [of y] by metis

lemma htonl_htonl [simp]: "htonl (htonl x) = x"
  by (simp add: bytes32_inject [symmetric] bytes32_htonl)

lemma htons_htons [simp]: "htons (htons x) = x"
  by (rule bit_word_eqI) (auto simp: htons_def bit_simps)

lemma bytes16_htons: "bytes16 (htons x) = rev (bytes16 x)"
  unfolding bytes16_def htons_def
  by (auto intro!: bit_word_eqI simp: bit_simps dest: bit_imp_le_length)

subsection \<open>The demonstration programs\<close>

text \<open>\<^verbatim>\<open>1_hton.c\<close>: the numbers its two \<^verbatim>\<open>printf\<close> calls print, for the array \<open>buf\<close> and the \<open>s\<close> given.\<close>

definition hton_main :: "8 word \<times> 8 word \<times> 8 word \<times> 8 word \<Rightarrow> 16 word \<Rightarrow> 8 word list \<times> 8 word list" where
  "hton_main buf s =
     (let num = load32 (fst buf) (fst (snd buf)) (fst (snd (snd buf))) (snd (snd (snd buf)));
          sum = htonl num;
          res = htons s
      in (bytes32 sum, bytes16 res))"

text \<open>\<^verbatim>\<open>2_ntoh.c\<close>: the numbers it prints for the array \<open>arg\<close>.\<close>

definition ntoh_main :: "8 word \<times> 8 word \<times> 8 word \<times> 8 word \<Rightarrow> 8 word list" where
  "ntoh_main arg =
     bytes32 (ntohl (load32 (fst arg) (fst (snd arg)) (fst (snd (snd arg))) (snd (snd (snd arg)))))"

subsection \<open>Dotted quads\<close>

fun split_dots :: "byte list \<Rightarrow> byte list list" where
  "split_dots [] = [[]]"
| "split_dots (c # s) =
     (if c = CHR ''.'' then [] # split_dots s
      else (c # hd (split_dots s)) # tl (split_dots s))"

definition octet :: "byte list \<Rightarrow> 8 word option" where
  "octet p =
     (if p \<noteq> [] \<and> list_all is_digit p \<and> (length p > 1 \<longrightarrow> hd p \<noteq> CHR ''0'') \<and> undec p \<le> 255
      then Some (of_nat (undec p)) else None)"

text \<open>The four bytes stored are in network order; as a word of the host they are read by \<open>load32\<close>.\<close>

definition inet_pton :: "byte list \<Rightarrow> 32 word option" where
  "inet_pton s =
     (case map octet (split_dots s) of
        [Some a, Some b, Some c, Some d] \<Rightarrow> Some (load32 a b c d)
      | _ \<Rightarrow> None)"

definition inet_ntop :: "32 word \<Rightarrow> byte list" where
  "inet_ntop a =
     (let p = map (\<lambda>b. dec (unat b)) (bytes32 a)
      in p ! 0 @ ''.'' @ p ! 1 @ ''.'' @ p ! 2 @ ''.'' @ p ! 3)"

text \<open>\<^verbatim>\<open>inet_addr\<close>: all ones when the string is not an address.\<close>

definition inet_addr :: "byte list \<Rightarrow> 32 word" where
  "inet_addr s = (case inet_pton s of Some a \<Rightarrow> a | None \<Rightarrow> -1)"

lemma split_dots_nodot: "CHR ''.'' \<notin> set p \<Longrightarrow> split_dots p = [p]"
  by (induction p) auto

lemma split_dots_append: "CHR ''.'' \<notin> set p \<Longrightarrow> split_dots (p @ CHR ''.'' # s) = p # split_dots s"
  by (induction p) auto

lemma dec_no_dot: "CHR ''.'' \<notin> set (dec n)"
  using dec_digits [of "CHR ''.''" n] by (auto simp: is_digit_def)

lemma octet_dec: "octet (dec (unat b)) = Some b"
proof -
  have le: "unat b \<le> 255" using unsigned_less [of b, where ?'a = nat] by simp
  have "hd (dec (unat b)) \<noteq> CHR ''0''" if "length (dec (unat b)) > 1"
  proof -
    from that have "10 \<le> unat b"
      by (rule contrapos_pp) (simp add: dec.simps [of "unat b"])
    then show ?thesis using hd_dec [of "unat b"] by simp
  qed
  with le show ?thesis by (simp add: octet_def list_all_iff dec_digits)
qed

lemma inet_pton_ntop: "inet_pton (inet_ntop a) = Some a"
proof -
  have "split_dots (inet_ntop a) = map (\<lambda>b. dec (unat b)) (bytes32 a)"
    by (simp add: inet_ntop_def bytes32_def split_dots_append split_dots_nodot dec_no_dot)
  then show ?thesis
    by (simp add: inet_pton_def octet_dec bytes32_def)
qed

text \<open>
  \<^verbatim>\<open>3_ip_transfer.c\<close>: the text address is converted and converted back; \<open>None\<close> is the exit
  with \<^verbatim>\<open>EXIT_FAILURE\<close>.
\<close>

definition ip_transfer_main :: "byte list \<Rightarrow> byte list option" where
  "ip_transfer_main ip = map_option inet_ntop (inet_pton ip)"

subsection \<open>Socket addresses\<close>

definition AF_INET :: nat where "AF_INET = 2"
definition SOCK_STREAM :: nat where "SOCK_STREAM = 1"
definition SOCK_DGRAM :: nat where "SOCK_DGRAM = 2"
definition INADDR_ANY :: "32 word" where "INADDR_ANY = 0"

record sockaddr_in =
  sin_family :: nat
  sin_port :: "16 word"
  sin_addr :: "32 word"

end
