(* ===== verification/Io.thy ===== *)
theory Io
  imports Inet
begin

section \<open>Running C functions against a modelled kernel\<close>

text \<open>
  What a run of a C function can come to (\<open>outcome\<close>), the state it runs in, and the system
  calls the programs use.

  The kernel is a record. What the environment will do is part of that state, as a script per
  file descriptor: the results successive \<^verbatim>\<open>read\<close>/\<^verbatim>\<open>recv\<close> calls on a connection will have, how
  much of each \<^verbatim>\<open>write\<close> the kernel takes, which connections \<^verbatim>\<open>accept\<close> returns, what
  \<^verbatim>\<open>epoll_wait\<close> reports. A theorem for every record holds for every environment. A call whose script has
  run out does not return when the descriptor is blocking (\<open>Blocked\<close>) and fails with
  \<^verbatim>\<open>EAGAIN\<close> when it is not. A \<^verbatim>\<open>write\<close> whose script has run out is taken whole.

  Diagnostic output (\<^verbatim>\<open>printf\<close>, \<^verbatim>\<open>perror\<close>, \<^verbatim>\<open>puts\<close>) is not part of the state. Regular files are
  read from an open file's remaining contents. \<open>trace\<close> is the history of what left the process:
  bytes taken by the kernel and descriptors closed, in order.
\<close>

subsection \<open>Outcomes and sequencing\<close>

datatype 'a outcome =
    Ret 'a          \<comment> \<open>the call returned\<close>
  | Exit int        \<comment> \<open>the process called \<^verbatim>\<open>exit\<close> with this status\<close>
  | Blocked         \<comment> \<open>a blocking system call has not returned\<close>
  | Undef           \<comment> \<open>undefined behaviour of C: nothing can be said of what follows\<close>

type_synonym ('s, 'a) io = "'s \<Rightarrow> 'a outcome \<times> 's"

definition ret :: "'a \<Rightarrow> ('s, 'a) io" where
  "ret x s = (Ret x, s)"

definition exit_with :: "int \<Rightarrow> ('s, 'a) io" where
  "exit_with c s = (Exit c, s)"

definition undef :: "('s, 'a) io" where
  "undef s = (Undef, s)"

definition andthen :: "('s, 'a) io \<Rightarrow> ('a \<Rightarrow> ('s, 'b) io) \<Rightarrow> ('s, 'b) io" where
  "andthen m f s =
     (case m s of
        (Ret x, s') \<Rightarrow> f x s'
      | (Exit c, s') \<Rightarrow> (Exit c, s')
      | (Blocked, s') \<Rightarrow> (Blocked, s')
      | (Undef, s') \<Rightarrow> (Undef, s'))"

definition gets :: "('s \<Rightarrow> 'a) \<Rightarrow> ('s, 'a) io" where
  "gets f s = (Ret (f s), s)"

definition modify :: "('s \<Rightarrow> 's) \<Rightarrow> ('s, unit) io" where
  "modify f s = (Ret (), f s)"

lemma io_basic [simp]:
  "ret x s = (Ret x, s)"
  "exit_with c s = (Exit c, s)"
  "undef s = (Undef, s)"
  "gets g s = (Ret (g s), s)"
  "modify h s = (Ret (), h s)"
  by (simp_all add: ret_def exit_with_def undef_def gets_def modify_def)

lemma andthen_simps [simp]:
  "m s = (Ret x, s') \<Longrightarrow> andthen m f s = f x s'"
  "m s = (Exit c, s') \<Longrightarrow> andthen m f s = (Exit c, s')"
  "m s = (Blocked, s') \<Longrightarrow> andthen m f s = (Blocked, s')"
  "m s = (Undef, s') \<Longrightarrow> andthen m f s = (Undef, s')"
  by (simp_all add: andthen_def)

lemma andthen_assoc: "andthen (andthen m f) g = andthen m (\<lambda>x. andthen (f x) g)"
  by (rule ext) (simp add: andthen_def split: prod.split outcome.split)

lemma andthen_ret_left [simp]: "andthen (ret x) f = f x"
  by (rule ext) (simp add: andthen_def)

lemma andthen_ret_right [simp]: "andthen m ret = m"
  by (rule ext) (simp add: andthen_def split: prod.split outcome.split)

lemma andthen_Ret:
  "andthen m k s = (Ret y, t) \<longleftrightarrow> (\<exists>x u. m s = (Ret x, u) \<and> k x u = (Ret y, t))"
  by (auto simp: andthen_def split: prod.splits outcome.splits)

lemma andthen_Undef: "fst (m s) = Undef \<Longrightarrow> fst (andthen m k s) = Undef"
  by (cases "m s") (simp add: andthen_def)

text \<open>Recursive calls after a call see what the call returned, in termination proofs too.\<close>

lemma andthen_cong [fundef_cong]:
  assumes "m s = m' s'"
    and "\<And>x t. m' s' = (Ret x, t) \<Longrightarrow> f x t = g x t"
  shows "andthen m f s = andthen m' g s'"
  using assms by (auto simp: andthen_def split: prod.split outcome.split)

lemma andthen_RetD:
  "andthen m f s = (Ret y, t) \<Longrightarrow> \<exists>x s'. m s = (Ret x, s') \<and> f x s' = (Ret y, t)"
  by (auto simp: andthen_def split: prod.splits outcome.splits)

subsection \<open>Loops\<close>

text \<open>
  \<^verbatim>\<open>for\<close> over the elements of an array, and a server's \<^verbatim>\<open>while (1)\<close>: its state after \<open>n\<close> rounds.
  A server's loop has no other end than \<open>Exit\<close>, \<open>Blocked\<close> (the script of events has run out) or \<open>Undef\<close>.
\<close>

fun foreach :: "('a \<Rightarrow> ('s, unit) io) \<Rightarrow> 'a list \<Rightarrow> ('s, unit) io" where
  "foreach f [] = ret ()"
| "foreach f (x # xs) = andthen (f x) (\<lambda>_. foreach f xs)"

fun rounds :: "nat \<Rightarrow> ('s, unit) io \<Rightarrow> ('s, unit) io" where
  "rounds 0 m = ret ()"
| "rounds (Suc n) m = andthen m (\<lambda>_. rounds n m)"

text \<open>A property of the state that every call keeps, whatever the outcome.\<close>

definition keeps :: "('s \<Rightarrow> bool) \<Rightarrow> ('s, 'a) io \<Rightarrow> bool" where
  "keeps P m \<longleftrightarrow> (\<forall>s. P s \<longrightarrow> P (snd (m s)))"

lemma keeps_basic [intro!]:
  "keeps P (ret x)" "keeps P (exit_with c)" "keeps P undef" "keeps P (gets g)"
  by (simp_all add: keeps_def)

lemma keepsD: "keeps P m \<Longrightarrow> P s \<Longrightarrow> m s = (r, t) \<Longrightarrow> P t"
  by (metis keeps_def snd_conv)

lemma keeps_modify [intro]: "(\<And>s. P s \<Longrightarrow> P (h s)) \<Longrightarrow> keeps P (modify h)"
  by (simp add: keeps_def)

lemma keeps_andthen [intro]: "keeps P m \<Longrightarrow> (\<And>x. keeps P (f x)) \<Longrightarrow> keeps P (andthen m f)"
  unfolding keeps_def andthen_def
  by (auto split: prod.split outcome.split)

lemma keeps_if [intro]: "(b \<Longrightarrow> keeps P m) \<Longrightarrow> (\<not> b \<Longrightarrow> keeps P n) \<Longrightarrow> keeps P (if b then m else n)"
  by simp

lemma keeps_foreach: "(\<And>x. x \<in> set xs \<Longrightarrow> keeps P (f x)) \<Longrightarrow> keeps P (foreach f xs)"
  by (induction xs) auto

lemma keeps_rounds: "keeps P m \<Longrightarrow> keeps P (rounds n m)"
  by (induction n) auto

subsection \<open>The kernel\<close>

datatype errno =
    EINTR | EAGAIN | EBADF | EEXIST | ENOENT | EISDIR | ECONNABORTED | ECONNRESET
  | ESRCH | EOTHER nat

datatype rd_res = RData "byte list" | RFail errno   \<comment> \<open>\<open>RData []\<close> is end of file\<close>
datatype wr_res = WTake nat | WFail errno           \<comment> \<open>at most that many bytes are taken\<close>
datatype acc_res = AConn fd | AFail errno

datatype epflag = EPOLLIN | EPOLLOUT | EPOLLERR | EPOLLHUP | EPOLLET
type_synonym epmask = "epflag set"

datatype ep_res = EpReady "(fd \<times> epmask) list" | EpFail errno

datatype dtype = DT_DIR | DT_REG | DT_OTHER
datatype dirent = Dirent (d_name: "byte list") (d_type: dtype)

datatype inode = RegFile "byte list" | DirNode "dirent list" | SpecialNode

datatype sysev = Sent fd "byte list" | Closed fd

record world =
  rdq :: "fd \<Rightarrow> rd_res list"
  wrq :: "fd \<Rightarrow> wr_res list"
  accq :: "fd \<Rightarrow> acc_res list"
  epq :: "ep_res list"
  nonblk :: "fd \<Rightarrow> bool"
  opened :: "fd list"
  ofile :: "fd \<Rightarrow> byte list option"
  epoll :: "fd \<Rightarrow> fd \<Rightarrow> (epmask \<times> int) option"
  fsys :: "byte list \<Rightarrow> inode option"
  netq :: "errno option list"
  bound :: "fd \<Rightarrow> sockaddr_in option"
  peer :: "fd \<Rightarrow> sockaddr_in option"
  reuse :: "fd \<Rightarrow> bool"
  listening :: "fd \<Rightarrow> bool"
  cerrno :: errno
  trace :: "sysev list"

definition fail_with :: "errno \<Rightarrow> 'r \<Rightarrow> ('z world_scheme, 'r) io" where
  "fail_with e r w = (Ret r, w\<lparr>cerrno := e\<rparr>)"

lemma fail_with_simp [simp]: "fail_with e r w = (Ret r, w\<lparr>cerrno := e\<rparr>)"
  by (simp add: fail_with_def)

text \<open>\<^verbatim>\<open>read\<close> (and \<^verbatim>\<open>recv\<close>): the return value and the bytes stored in the buffer.\<close>

definition sys_read :: "fd \<Rightarrow> nat \<Rightarrow> ('z world_scheme, int \<times> byte list) io" where
  "sys_read fd n w =
     (if fd \<notin> set (opened w) then fail_with EBADF (-1, []) w
      else case ofile w fd of
        Some rest \<Rightarrow>
          (Ret (int (length (take n rest)), take n rest),
           w\<lparr>ofile := (ofile w)(fd := Some (drop n rest))\<rparr>)
      | None \<Rightarrow>
          (case rdq w fd of
             [] \<Rightarrow> (if nonblk w fd then fail_with EAGAIN (-1, []) w else (Blocked, w))
           | RData bs # rs \<Rightarrow>
               (Ret (int (length (take n bs)), take n bs),
                w\<lparr>rdq := (rdq w)(fd := (if length bs \<le> n then rs else RData (drop n bs) # rs))\<rparr>)
           | RFail e # rs \<Rightarrow>
               fail_with e (-1, []) (w\<lparr>rdq := (rdq w)(fd := rs)\<rparr>)))"

text \<open>\<^verbatim>\<open>recv\<close> with \<^verbatim>\<open>MSG_PEEK\<close>: the same result, nothing consumed (a failure is).\<close>

definition sys_peek :: "fd \<Rightarrow> nat \<Rightarrow> ('z world_scheme, int \<times> byte list) io" where
  "sys_peek fd n w =
     (if fd \<notin> set (opened w) then fail_with EBADF (-1, []) w
      else case rdq w fd of
             [] \<Rightarrow> (if nonblk w fd then fail_with EAGAIN (-1, []) w else (Blocked, w))
           | RData bs # rs \<Rightarrow> (Ret (int (length (take n bs)), take n bs), w)
           | RFail e # rs \<Rightarrow>
               fail_with e (-1, []) (w\<lparr>rdq := (rdq w)(fd := rs)\<rparr>))"

definition sys_write :: "fd \<Rightarrow> byte list \<Rightarrow> ('z world_scheme, int) io" where
  "sys_write fd bs w =
     (if fd \<notin> set (opened w) then fail_with EBADF (-1) w
      else case wrq w fd of
        [] \<Rightarrow> (Ret (int (length bs)), w\<lparr>trace := trace w @ [Sent fd bs]\<rparr>)
      | WTake k # ws \<Rightarrow>
          (Ret (int (length (take k bs))),
           w\<lparr>wrq := (wrq w)(fd := ws), trace := trace w @ [Sent fd (take k bs)]\<rparr>)
      | WFail e # ws \<Rightarrow> fail_with e (-1) (w\<lparr>wrq := (wrq w)(fd := ws)\<rparr>))"

text \<open>The lowest unused descriptor.\<close>

definition fresh_fd :: "fd list \<Rightarrow> fd" where
  "fresh_fd fds = int (first_index (\<lambda>k. int k \<notin> set fds) [0..<Suc (length fds)])"

lemma fresh_fd_notin: "fresh_fd fds \<notin> set fds"
proof -
  let ?P = "\<lambda>k. int k \<notin> set fds"
  let ?xs = "[0..<Suc (length fds)]"
  have "\<exists>k \<in> set ?xs. ?P k"
  proof (rule ccontr)
    assume "\<not> (\<exists>k \<in> set ?xs. ?P k)"
    then have "int ` set ?xs \<subseteq> set fds" by auto
    then have "card (int ` set ?xs) \<le> card (set fds)" by (intro card_mono) auto
    also have "\<dots> \<le> length fds" by (rule card_length)
    finally have "card (int ` set ?xs) \<le> length fds" .
    moreover have "card (int ` set ?xs) = Suc (length fds)"
      by (subst card_image) (auto simp del: upt_Suc)
    ultimately show False by linarith
  qed
  then obtain k where "k \<in> set ?xs" "?P k" by blast
  then have less: "first_index ?P ?xs < length ?xs" by (rule first_index_less)
  then have "?P (?xs ! first_index ?P ?xs)" by (rule first_index_hit)
  with less show ?thesis by (simp add: fresh_fd_def nth_upt del: upt_Suc)
qed

text \<open>
  \<^verbatim>\<open>accept\<close>: the script names the descriptor of the new connection; a number that is in use or
  negative is none the kernel would return, and stands for the lowest unused one.
\<close>

definition new_fd :: "fd \<Rightarrow> fd list \<Rightarrow> fd" where
  "new_fd c fds = (if 0 \<le> c \<and> c \<notin> set fds then c else fresh_fd fds)"

lemma new_fd_props [simp]: "new_fd c fds \<notin> set fds" "0 \<le> new_fd c fds" "\<not> new_fd c fds < 0"
  by (simp_all add: new_fd_def fresh_fd_notin) (simp_all add: fresh_fd_def)

definition sys_accept :: "fd \<Rightarrow> ('z world_scheme, int) io" where
  "sys_accept lfd w =
     (if lfd \<notin> set (opened w) then fail_with EBADF (-1) w
      else case accq w lfd of
        [] \<Rightarrow> (if nonblk w lfd then fail_with EAGAIN (-1) w else (Blocked, w))
      | AConn c # r \<Rightarrow>
          (let c' = new_fd c (opened w)
           in (Ret c', w\<lparr>accq := (accq w)(lfd := r), opened := c' # opened w,
                 nonblk := (nonblk w)(c' := False), ofile := (ofile w)(c' := None)\<rparr>))
      | AFail e # r \<Rightarrow> fail_with e (-1) (w\<lparr>accq := (accq w)(lfd := r)\<rparr>))"

text \<open>Closing a descriptor also takes it out of every epoll set it is registered in.\<close>

definition sys_close :: "fd \<Rightarrow> ('z world_scheme, int) io" where
  "sys_close fd w =
     (if fd \<notin> set (opened w) then fail_with EBADF (-1) w
      else (Ret 0, w\<lparr>opened := removeAll fd (opened w), ofile := (ofile w)(fd := None),
                     epoll := (\<lambda>ep. (epoll w ep)(fd := None)),
                     trace := trace w @ [Closed fd]\<rparr>))"

definition set_nonblock :: "fd \<Rightarrow> ('z world_scheme, unit) io" where
  "set_nonblock fd = modify (\<lambda>w. w\<lparr>nonblk := (nonblk w)(fd := True)\<rparr>)"

datatype epop = EPOLL_CTL_ADD | EPOLL_CTL_MOD | EPOLL_CTL_DEL

definition sys_epoll_ctl :: "fd \<Rightarrow> epop \<Rightarrow> fd \<Rightarrow> epmask \<Rightarrow> int \<Rightarrow> ('z world_scheme, int) io" where
  "sys_epoll_ctl ep op fd events data w =
     (if fd \<notin> set (opened w) \<or> ep \<notin> set (opened w) then fail_with EBADF (-1) w
      else case op of
        EPOLL_CTL_ADD \<Rightarrow>
          (if epoll w ep fd \<noteq> None then fail_with EEXIST (-1) w
           else (Ret 0, w\<lparr>epoll := (epoll w)(ep := (epoll w ep)(fd := Some (events, data)))\<rparr>))
      | EPOLL_CTL_MOD \<Rightarrow>
          (if epoll w ep fd = None then fail_with ENOENT (-1) w
           else (Ret 0, w\<lparr>epoll := (epoll w)(ep := (epoll w ep)(fd := Some (events, data)))\<rparr>))
      | EPOLL_CTL_DEL \<Rightarrow>
          (if epoll w ep fd = None then fail_with ENOENT (-1) w
           else (Ret 0, w\<lparr>epoll := (epoll w)(ep := (epoll w ep)(fd := None))\<rparr>)))"

text \<open>
  \<^verbatim>\<open>epoll_wait\<close> with no timeout: what the kernel reports for a ready descriptor is limited to
  the events it is registered for (errors and hang-ups are always reported), carries the
  registered data, and at most \<open>maxev\<close> entries are returned.
\<close>

definition ep_report :: "('z world_scheme) \<Rightarrow> fd \<Rightarrow> (fd \<times> epmask) list \<Rightarrow> (epmask \<times> int) list" where
  "ep_report w ep rs =
     List.map_filter (\<lambda>(fd, m). case epoll w ep fd of
         None \<Rightarrow> None
       | Some (ev, data) \<Rightarrow>
           (if m \<inter> (ev \<union> {EPOLLERR, EPOLLHUP}) = {} then None
            else Some (m \<inter> (ev \<union> {EPOLLERR, EPOLLHUP}), data))) rs"

definition sys_epoll_wait :: "fd \<Rightarrow> nat \<Rightarrow> ('z world_scheme, int \<times> (epmask \<times> int) list) io" where
  "sys_epoll_wait ep maxev w =
     (case epq w of
        [] \<Rightarrow> (Blocked, w)
      | EpReady rs # q \<Rightarrow>
          (let evs = take maxev (ep_report w ep rs)
           in (Ret (int (length evs), evs), w\<lparr>epq := q\<rparr>))
      | EpFail e # q \<Rightarrow> fail_with e (-1, []) (w\<lparr>epq := q\<rparr>))"

text \<open>\<^verbatim>\<open>open(path, O_RDONLY)\<close>\<close>

definition sys_open :: "byte list \<Rightarrow> ('z world_scheme, int) io" where
  "sys_open path w =
     (case fsys w path of
        None \<Rightarrow> fail_with ENOENT (-1) w
      | Some node \<Rightarrow>
          (let fd = fresh_fd (opened w)
           in (Ret fd, w\<lparr>opened := fd # opened w, nonblk := (nonblk w)(fd := False),
                 rdq := (rdq w)(fd := (case node of DirNode _ \<Rightarrow> [RFail EISDIR] | _ \<Rightarrow> rdq w fd)),
                 ofile := (ofile w)(fd := (case node of RegFile c \<Rightarrow> Some c | _ \<Rightarrow> None))\<rparr>)))"

text \<open>
  The calls that set a socket up. Each consumes an entry of \<open>netq\<close> (the kernel's verdict:
  an errno, or \<open>None\<close> for success) and succeeds when there is none left.
\<close>

definition net_verdict :: "('z world_scheme, bool) io" where
  "net_verdict w =
     (case netq w of
        [] \<Rightarrow> (Ret True, w)
      | None # q \<Rightarrow> (Ret True, w\<lparr>netq := q\<rparr>)
      | Some e # q \<Rightarrow> (Ret False, w\<lparr>netq := q, cerrno := e\<rparr>))"

definition sys_socket :: "('z world_scheme, int) io" where
  "sys_socket = andthen net_verdict (\<lambda>ok.
     if ok then (\<lambda>w. let fd = fresh_fd (opened w)
                     in (Ret fd, w\<lparr>opened := fd # opened w, nonblk := (nonblk w)(fd := False),
                                   ofile := (ofile w)(fd := None), bound := (bound w)(fd := None),
                                   reuse := (reuse w)(fd := False),
                                   listening := (listening w)(fd := False)\<rparr>))
     else ret (-1))"

text \<open>\<^verbatim>\<open>epoll_create\<close>\<close>

definition sys_epoll_create :: "('z world_scheme, int) io" where
  "sys_epoll_create = andthen net_verdict (\<lambda>ok.
     if ok then (\<lambda>w. let fd = fresh_fd (opened w)
                     in (Ret fd, w\<lparr>opened := fd # opened w, nonblk := (nonblk w)(fd := False),
                                   ofile := (ofile w)(fd := None), epoll := (epoll w)(fd := (\<lambda>_. None))\<rparr>))
     else ret (-1))"

definition sys_bind :: "fd \<Rightarrow> sockaddr_in \<Rightarrow> ('z world_scheme, int) io" where
  "sys_bind fd a w =
     (if fd \<notin> set (opened w) then fail_with EBADF (-1) w
      else andthen net_verdict (\<lambda>ok.
        if ok then andthen (modify (\<lambda>w. w\<lparr>bound := (bound w)(fd := Some a)\<rparr>)) (\<lambda>_. ret 0)
        else ret (-1)) w)"

definition sys_connect :: "fd \<Rightarrow> sockaddr_in \<Rightarrow> ('z world_scheme, int) io" where
  "sys_connect fd a = andthen net_verdict (\<lambda>ok.
     if ok then andthen (modify (\<lambda>w. w\<lparr>peer := (peer w)(fd := Some a)\<rparr>)) (\<lambda>_. ret 0)
     else ret (-1))"

definition sys_listen :: "fd \<Rightarrow> nat \<Rightarrow> ('z world_scheme, int) io" where
  "sys_listen fd backlog = andthen net_verdict (\<lambda>ok.
     if ok then andthen (modify (\<lambda>w. w\<lparr>listening := (listening w)(fd := True)\<rparr>)) (\<lambda>_. ret 0)
     else ret (-1))"

text \<open>\<^verbatim>\<open>setsockopt(fd, SOL_SOCKET, SO_REUSEADDR, &one, ...)\<close>\<close>

definition sys_set_reuseaddr :: "fd \<Rightarrow> ('z world_scheme, int) io" where
  "sys_set_reuseaddr fd = andthen (modify (\<lambda>w. w\<lparr>reuse := (reuse w)(fd := True)\<rparr>)) (\<lambda>_. ret 0)"

subsection \<open>What was sent\<close>

fun sent_on :: "fd \<Rightarrow> sysev list \<Rightarrow> byte list" where
  "sent_on fd [] = []"
| "sent_on fd (Sent f bs # t) = (if f = fd then bs @ sent_on fd t else sent_on fd t)"
| "sent_on fd (Closed f # t) = sent_on fd t"

lemma sent_on_append [simp]: "sent_on fd (t @ u) = sent_on fd t @ sent_on fd u"
  by (induction fd t rule: sent_on.induct) auto

definition close_count :: "fd \<Rightarrow> sysev list \<Rightarrow> nat" where
  "close_count fd t = length (filter (\<lambda>e. e = Closed fd) t)"

lemma close_count_simps [simp]:
  "close_count fd [] = 0"
  "close_count fd (e # t) = (if e = Closed fd then 1 else 0) + close_count fd t"
  "close_count fd (t @ u) = close_count fd t + close_count fd u"
  by (simp_all add: close_count_def)

subsection \<open>How reads use up a script\<close>

text \<open>
  A call to \<open>sys_read\<close> never lengthens the script; one that fails on a connection consumes an entry of it
  unless the descriptor is not open or would block.
\<close>

lemma sys_read_script_le:
  "sys_read fd n w = (r, w') \<Longrightarrow> length (rdq w' fd) \<le> length (rdq w fd)"
  by (auto simp: sys_read_def split: if_splits option.splits list.splits rd_res.splits)

lemma sys_read_fail_consumes:
  assumes "sys_read fd n w = (Ret (r, bs), w')" "r < 0"
    "cerrno w' \<noteq> EBADF" "cerrno w' \<noteq> EAGAIN"
  shows "length (rdq w' fd) < length (rdq w fd)"
  using assms
  by (auto simp: sys_read_def split: if_splits option.splits list.splits rd_res.splits)

lemma sys_read_len:
  assumes "sys_read fd n w = (Ret (r, bs), w')"
  shows "r \<ge> 0 \<Longrightarrow> r = int (length bs)" "r \<le> int n" "r < 0 \<Longrightarrow> r = -1 \<and> bs = []"
    "length bs \<le> n"
  using assms
  by (auto simp: sys_read_def split: if_splits option.splits list.splits rd_res.splits)

lemma sys_read_never_exits:
  "sys_read fd n w \<noteq> (Exit c, w')" "sys_read fd n w \<noteq> (Undef, w')"
  by (auto simp: sys_read_def split: if_splits option.splits list.splits rd_res.splits)

lemma sys_read_frame:
  assumes "sys_read fd n w = (r, w')"
  shows "opened w' = opened w" "trace w' = trace w" "epoll w' = epoll w" "wrq w' = wrq w"
    "fsys w' = fsys w" "nonblk w' = nonblk w" "accq w' = accq w" "epq w' = epq w"
    "world.more w' = world.more w"
  using assms
  by (auto simp: sys_read_def split: if_splits option.splits list.splits rd_res.splits)

lemma sys_write_len:
  assumes "sys_write fd bs w = (Ret r, w')"
  shows "r \<ge> 0 \<Longrightarrow> nat r \<le> length bs" "r < 0 \<Longrightarrow> r = -1"
  using assms by (auto simp: sys_write_def split: if_splits list.splits wr_res.splits)

lemma sys_write_script_le:
  "sys_write fd bs w = (r, w') \<Longrightarrow> length (wrq w' fd) \<le> length (wrq w fd)"
  by (auto simp: sys_write_def split: if_splits list.splits wr_res.splits)

lemma sys_write_fail_consumes:
  assumes "sys_write fd bs w = (Ret r, w')" "r < 0" "cerrno w' \<noteq> EBADF"
  shows "length (wrq w' fd) < length (wrq w fd)"
  using assms by (auto simp: sys_write_def split: if_splits list.splits wr_res.splits)

lemma sys_write_frame:
  assumes "sys_write fd bs w = (r, w')"
  shows "opened w' = opened w" "epoll w' = epoll w" "rdq w' = rdq w" "ofile w' = ofile w"
    "fsys w' = fsys w" "nonblk w' = nonblk w" "accq w' = accq w" "epq w' = epq w"
    "world.more w' = world.more w"
  using assms by (auto simp: sys_write_def split: if_splits list.splits wr_res.splits)

text \<open>A \<^verbatim>\<open>write\<close> always returns, and concerns no other descriptor.\<close>

lemma sys_write_other:
  obtains n w' where "sys_write g bs w = (Ret n, w')" "opened w' = opened w" "rdq w' = rdq w" "ofile w' = ofile w"
    "\<And>f. f \<noteq> g \<Longrightarrow> wrq w' f = wrq w f" "\<And>f. f \<noteq> g \<Longrightarrow> sent_on f (trace w') = sent_on f (trace w)"
proof (cases "g \<in> set (opened w)")
  case True
  show ?thesis
  proof (cases "wrq w g")
    case Nil
    then show ?thesis using True that by (simp add: sys_write_def)
  next
    case (Cons r ws)
    then show ?thesis using True that by (cases r) (simp_all add: sys_write_def)
  qed
next
  case False
  then show ?thesis using that by (simp add: sys_write_def)
qed

lemma sys_write_all [sys_simps]:
  "fd \<in> set (opened w) \<Longrightarrow> wrq w fd = [] \<Longrightarrow>
     sys_write fd bs w = (Ret (int (length bs)), w\<lparr>trace := trace w @ [Sent fd bs]\<rparr>)"
  by (simp add: sys_write_def)

lemma sys_close_open [sys_simps]:
  "fd \<in> set (opened w) \<Longrightarrow>
     sys_close fd w =
       (Ret 0, w\<lparr>opened := removeAll fd (opened w), ofile := (ofile w)(fd := None),
                 epoll := (\<lambda>ep. (epoll w ep)(fd := None)), trace := trace w @ [Closed fd]\<rparr>)"
  by (simp add: sys_close_def)

lemma sys_epoll_ctl_closed [sys_simps]:
  "fd \<notin> set (opened w) \<Longrightarrow> sys_epoll_ctl ep op fd ev d w = (Ret (-1), w\<lparr>cerrno := EBADF\<rparr>)"
  by (simp add: sys_epoll_ctl_def)

text \<open>How much a descriptor can still deliver: every read that delivers something uses up some of it.\<close>

fun script_size :: "rd_res list \<Rightarrow> nat" where
  "script_size [] = 0"
| "script_size (RData bs # rs) = Suc (length bs) + script_size rs"
| "script_size (RFail e # rs) = Suc (script_size rs)"

definition pending_size :: "fd \<Rightarrow> 'z world_scheme \<Rightarrow> nat" where
  "pending_size f w = (case ofile w f of Some rest \<Rightarrow> length rest | None \<Rightarrow> script_size (rdq w f))"

lemma sys_read_pending:
  assumes "sys_read f n w = (Ret r, w')" "0 < fst r" "0 < n"
  shows "pending_size f w' < pending_size f w"
  using assms
  by (auto simp: sys_read_def pending_size_def split: if_splits option.splits list.splits rd_res.splits)

lemma sys_write_pending: "sys_write g bs w = (r, w') \<Longrightarrow> pending_size f w' = pending_size f w"
  using sys_write_frame(3,4) [of g bs w r w'] by (simp add: pending_size_def split: option.split)

subsection \<open>A connection as a stream of bytes\<close>

text \<open>
  A script is a clean stream when it delivers data in any segmentation, interrupted by any number
  of \<^verbatim>\<open>EINTR\<close>, up to an end of file. \<open>stream\<close> forgets the segmentation.
\<close>

fun stream_ok :: "rd_res list \<Rightarrow> bool" where
  "stream_ok [] = False"
| "stream_ok (RData bs # rs) = (bs = [] \<or> stream_ok rs)"
| "stream_ok (RFail e # rs) = (e = EINTR \<and> stream_ok rs)"

fun stream :: "rd_res list \<Rightarrow> byte list" where
  "stream [] = []"
| "stream (RData bs # rs) = (if bs = [] then [] else bs @ stream rs)"
| "stream (RFail e # rs) = stream rs"

definition clean :: "fd \<Rightarrow> 'z world_scheme \<Rightarrow> bool" where
  "clean fd w \<longleftrightarrow> fd \<in> set (opened w) \<and> ofile w fd = None \<and> stream_ok (rdq w fd)"

definition arriving :: "fd \<Rightarrow> 'z world_scheme \<Rightarrow> byte list" where
  "arriving fd w = stream (rdq w fd)"

text \<open>
  What one read of a clean stream does: it is interrupted and nothing is lost, or it returns a
  non-empty piece of the front of the stream, or the stream is at its end.
\<close>

lemma sys_read_clean:
  assumes "clean fd w" "0 < n"
  obtains
    (eintr) w' where "sys_read fd n w = (Ret (-1, []), w')" "cerrno w' = EINTR"
      "clean fd w'" "arriving fd w' = arriving fd w"
  | (data) bs w' where "sys_read fd n w = (Ret (int (length bs), bs), w')" "bs \<noteq> []"
      "length bs \<le> n" "clean fd w'" "arriving fd w = bs @ arriving fd w'"
  | (eof) w' where "sys_read fd n w = (Ret (0, []), w')" "arriving fd w = []"
proof -
  have op: "fd \<in> set (opened w)" and nf: "ofile w fd = None" and ok: "stream_ok (rdq w fd)"
    using assms(1) by (auto simp: clean_def)
  show ?thesis
  proof (cases "rdq w fd")
    case Nil
    with ok show ?thesis by simp
  next
    case (Cons r rs)
    show ?thesis
    proof (cases r)
      case (RFail e)
      show ?thesis
        by (rule eintr [of "w\<lparr>rdq := (rdq w)(fd := rs), cerrno := EINTR\<rparr>"])
           (use op nf ok Cons RFail in \<open>auto simp: sys_read_def clean_def arriving_def\<close>)
    next
      case (RData bs)
      show ?thesis
      proof (cases "bs = []")
        case True
        show ?thesis
          by (rule eof [of "w\<lparr>rdq := (rdq w)(fd := rs)\<rparr>"])
             (use op nf Cons RData True in \<open>auto simp: sys_read_def arriving_def\<close>)
      next
        case False
        show ?thesis
          by (rule data [of "take n bs"
                "w\<lparr>rdq := (rdq w)(fd := (if length bs \<le> n then rs else RData (drop n bs) # rs))\<rparr>"])
             (use op nf ok assms(2) Cons RData False in
               \<open>auto simp: sys_read_def clean_def arriving_def\<close>)
      qed
    qed
  qed
qed

text \<open>A peer that takes bytes in any portions, with any number of \<^verbatim>\<open>EINTR\<close>, but always takes some.\<close>

fun writable :: "wr_res list \<Rightarrow> bool" where
  "writable [] = True"
| "writable (WTake k # ws) = (0 < k \<and> writable ws)"
| "writable (WFail e # ws) = (e = EINTR \<and> writable ws)"

lemma sys_write_writable:
  assumes "fd \<in> set (opened w)" "writable (wrq w fd)" "bs \<noteq> []"
  obtains
    (eintr) w' where "sys_write fd bs w = (Ret (-1), w')" "cerrno w' = EINTR"
      "fd \<in> set (opened w')" "writable (wrq w' fd)" "trace w' = trace w"
  | (some) k w' where "sys_write fd bs w = (Ret (int k), w')" "0 < k" "k \<le> length bs"
      "fd \<in> set (opened w')" "writable (wrq w' fd)" "trace w' = trace w @ [Sent fd (take k bs)]"
proof (cases "wrq w fd")
  case Nil
  show ?thesis
    by (rule some [of "length bs" "w\<lparr>trace := trace w @ [Sent fd bs]\<rparr>"])
       (use assms Nil in \<open>auto simp: sys_write_def\<close>)
next
  case (Cons r ws)
  show ?thesis
  proof (cases r)
    case (WFail e)
    show ?thesis
      by (rule eintr [of "w\<lparr>wrq := (wrq w)(fd := ws), cerrno := EINTR\<rparr>"])
         (use assms Cons WFail in \<open>auto simp: sys_write_def\<close>)
  next
    case (WTake k)
    show ?thesis
      by (rule some [of "min (length bs) k" "w\<lparr>wrq := (wrq w)(fd := ws),
            trace := trace w @ [Sent fd (take k bs)]\<rparr>"])
         (use assms Cons WTake in \<open>auto simp: sys_write_def min_def\<close>)
  qed
qed

subsection \<open>A concrete kernel\<close>

text \<open>A process with the three standard descriptors open, no connection and no file, for the instances.\<close>

definition world0 :: world where
  "world0 = \<lparr>rdq = (\<lambda>_. []), wrq = (\<lambda>_. []), accq = (\<lambda>_. []), epq = [], nonblk = (\<lambda>_. False),
     opened = [0, 1, 2], ofile = (\<lambda>_. None), epoll = (\<lambda>_ _. None), fsys = (\<lambda>_. None), netq = [],
     bound = (\<lambda>_. None), peer = (\<lambda>_. None), reuse = (\<lambda>_. False), listening = (\<lambda>_. False),
     cerrno = EOTHER 0, trace = []\<rparr>"

text \<open>The same with an open connection \<open>fd\<close> and the script of what arrives on it.\<close>

definition conn_world :: "fd \<Rightarrow> rd_res list \<Rightarrow> world" where
  "conn_world fd rs = world0\<lparr>opened := [fd, 0, 1, 2], rdq := (\<lambda>_. [])(fd := rs)\<rparr>"

lemma conn_world_sel [simp]:
  "fd \<in> set (opened (conn_world fd rs))" "rdq (conn_world fd rs) fd = rs"
  "ofile (conn_world fd rs) f = None" "wrq (conn_world fd rs) f = []" "trace (conn_world fd rs) = []"
  "netq (conn_world fd rs) = []" "nonblk (conn_world fd rs) f = False"
  by (simp_all add: conn_world_def world0_def)

end
