(* ===== verification/Transition.thy ===== *)
theory Transition
  imports Prelude
begin

section \<open>Concurrent programs as transition systems\<close>

text \<open>
  The threaded programs are modelled by a state and a function \<open>f\<close> that performs one atomic action
  of one agent, \<open>None\<close> where the action is not enabled (the thread is blocked). The interleavings are
  the relation \<open>lstep f\<close>, the states of all executions are \<open>reach\<close>, and a schedule is
  run by \<open>run_actions\<close>. The locale \<open>invariant_system\<close> is the contract every such program is proved by.
\<close>

inductive lstep :: "('a \<Rightarrow> 's \<Rightarrow> 's option) \<Rightarrow> 's \<Rightarrow> 's \<Rightarrow> bool" for f where
  act: "f a s = Some t \<Longrightarrow> lstep f s t"

inductive reach :: "('s \<Rightarrow> bool) \<Rightarrow> ('s \<Rightarrow> 's \<Rightarrow> bool) \<Rightarrow> 's \<Rightarrow> bool" for init step where
  start: "init s \<Longrightarrow> reach init step s"
| move: "reach init step s \<Longrightarrow> step s t \<Longrightarrow> reach init step t"

inductive_cases lstepE: "lstep f s t"
inductive_simps lstep_iff: "lstep f s t"

fun run_actions :: "('a \<Rightarrow> 's \<Rightarrow> 's option) \<Rightarrow> 'a list \<Rightarrow> 's \<Rightarrow> 's option" where
  "run_actions f [] s = Some s"
| "run_actions f (a # as) s = (case f a s of None \<Rightarrow> None | Some t \<Rightarrow> run_actions f as t)"

lemma run_actions_append:
  "run_actions f (as @ bs) s = Option.bind (run_actions f as s) (run_actions f bs)"
  by (induction as arbitrary: s) (auto split: option.split)

lemma reach_run:
  assumes "reach init (lstep f) s" "run_actions f as s = Some t"
  shows "reach init (lstep f) t"
  using assms
proof (induction as arbitrary: s)
  case (Cons a as)
  then obtain u where u: "f a s = Some u" "run_actions f as u = Some t"
    by (auto split: option.splits)
  have "reach init (lstep f) u" using Cons.prems(1) u(1) by (blast intro: reach.move lstep.act)
  then show ?case using u(2) by (rule Cons.IH)
qed simp

lemma reach_from_init:
  "init s \<Longrightarrow> run_actions f as s = Some t \<Longrightarrow> reach init (lstep f) t"
  by (rule reach_run [OF reach.start])

text \<open>An inductive invariant, and what it gives for every reachable state.\<close>

locale invariant_system =
  fixes init :: "'s \<Rightarrow> bool"
    and exec :: "'a \<Rightarrow> 's \<Rightarrow> 's option"
    and inv :: "'s \<Rightarrow> bool"
  assumes inv_init: "init s \<Longrightarrow> inv s"
    and inv_exec: "inv s \<Longrightarrow> exec a s = Some t \<Longrightarrow> inv t"
begin

lemma inv_reach: "reach init (lstep exec) s \<Longrightarrow> inv s"
  by (induction rule: reach.induct) (auto intro: inv_init inv_exec elim: lstepE)

lemma inv_run: "inv s \<Longrightarrow> run_actions exec as s = Some t \<Longrightarrow> inv t"
  by (induction as arbitrary: s) (auto split: option.splits dest: inv_exec)

end

text \<open>A system whose invariant rules out global deadlock.\<close>

locale live_system = invariant_system +
  assumes enabled: "inv s \<Longrightarrow> \<exists>a t. exec a s = Some t"
begin

lemma no_deadlock: "reach init (lstep exec) s \<Longrightarrow> \<exists>t. lstep exec s t"
  using inv_reach enabled by (blast intro: lstep.act)

lemma runs_forever: "reach init (lstep exec) s \<Longrightarrow> \<exists>as t. length as = n \<and> run_actions exec as s = Some t"
proof (induction n arbitrary: s)
  case (Suc n)
  from enabled [OF inv_reach [OF Suc.prems]] obtain a t where t: "exec a s = Some t" by blast
  with Suc.prems have "reach init (lstep exec) t" by (blast intro: reach.move lstep.act)
  with Suc.IH obtain as u where "length as = n" "run_actions exec as t = Some u" by blast
  with t have "length (a # as) = Suc n \<and> run_actions exec (a # as) s = Some u" by simp
  then show ?case by blast
qed (auto intro: exI [of _ "[]"])

end

end
