(* ===== verification/RingQueue.thy ===== *)
theory RingQueue
  imports Prelude
begin

section \<open>Bounded first-in first-out queues\<close>

text \<open>
  The contract both thread pools' task queues implement, and the facts about a circular array they
  implement it with.
\<close>

subsection \<open>The contract\<close>

datatype 'a qop = Put 'a | Take

text \<open>
  A sequence of operations; one that would block (put on a full queue, take from an empty one) has
  no effect. The result is what was put, what was taken, and the final queue.
\<close>

fun qrun :: "('q \<Rightarrow> bool) \<Rightarrow> ('q \<Rightarrow> bool) \<Rightarrow> ('a \<Rightarrow> 'q \<Rightarrow> 'q) \<Rightarrow> ('q \<Rightarrow> 'a) \<Rightarrow> ('q \<Rightarrow> 'q)
    \<Rightarrow> 'a qop list \<Rightarrow> 'q \<Rightarrow> 'a list \<times> 'a list \<times> 'q" where
  "qrun full isempty put first pop [] q = ([], [], q)"
| "qrun full isempty put first pop (Put x # ops) q =
     (if full q then qrun full isempty put first pop ops q
      else let (i, out, q') = qrun full isempty put first pop ops (put x q) in (x # i, out, q'))"
| "qrun full isempty put first pop (Take # ops) q =
     (if isempty q then qrun full isempty put first pop ops q
      else let (i, out, q') = qrun full isempty put first pop ops (pop q) in (i, first q # out, q'))"

locale bounded_queue =
  fixes ok :: "'q \<Rightarrow> bool"
    and contents :: "'q \<Rightarrow> 'a list"
    and full :: "'q \<Rightarrow> bool"
    and isempty :: "'q \<Rightarrow> bool"
    and put :: "'a \<Rightarrow> 'q \<Rightarrow> 'q"
    and first :: "'q \<Rightarrow> 'a"
    and pop :: "'q \<Rightarrow> 'q"
  assumes empty_iff: "ok q \<Longrightarrow> isempty q \<longleftrightarrow> contents q = []"
    and put_ok: "ok q \<Longrightarrow> \<not> full q \<Longrightarrow> ok (put x q)"
    and put_contents: "ok q \<Longrightarrow> \<not> full q \<Longrightarrow> contents (put x q) = contents q @ [x]"
    and first_hd: "ok q \<Longrightarrow> \<not> isempty q \<Longrightarrow> first q = hd (contents q)"
    and pop_ok: "ok q \<Longrightarrow> \<not> isempty q \<Longrightarrow> ok (pop q)"
    and pop_tl: "ok q \<Longrightarrow> \<not> isempty q \<Longrightarrow> contents (pop q) = tl (contents q)"
begin

lemma split_first: "ok q \<Longrightarrow> \<not> isempty q \<Longrightarrow> contents q = first q # contents (pop q)"
  using empty_iff first_hd pop_tl by (simp add: empty_iff)

text \<open>First in, first out: nothing is lost, invented, repeated or reordered.\<close>

lemma qrun_fifo:
  "ok q \<Longrightarrow> qrun full isempty put first pop ops q = (i, out, q') \<Longrightarrow>
     ok q' \<and> contents q @ i = out @ contents q'"
proof (induction ops arbitrary: q i out)
  case (Cons op ops)
  show ?case
  proof (cases op)
    case (Put x)
    show ?thesis
    proof (cases "full q")
      case True
      with Cons Put show ?thesis by simp
    next
      case False
      with Cons.prems Put obtain i' where
        "qrun full isempty put first pop ops (put x q) = (i', out, q')" "i = x # i'"
        by (auto split: prod.splits)
      with Cons.IH [of "put x q" i' out] Cons.prems(1) False show ?thesis
        by (simp add: put_ok put_contents)
    qed
  next
    case Take
    show ?thesis
    proof (cases "isempty q")
      case True
      with Cons Take show ?thesis by simp
    next
      case False
      with Cons.prems Take obtain out' where
        "qrun full isempty put first pop ops (pop q) = (i, out', q')" "out = first q # out'"
        by (auto split: prod.splits)
      with Cons.IH [of "pop q" i out'] Cons.prems(1) False show ?thesis
        by (simp add: pop_ok split_first)
    qed
  qed
qed simp

end

subsection \<open>Circular arrays\<close>

text \<open>The \<open>n\<close> elements from position \<open>front\<close> on, wrapping around at the end of the array.\<close>

definition ring_list :: "'a list \<Rightarrow> nat \<Rightarrow> nat \<Rightarrow> 'a list" where
  "ring_list buf front n = map (\<lambda>i. buf ! ((front + i) mod length buf)) [0..<n]"

lemma length_ring_list [simp]: "length (ring_list buf front n) = n"
  by (simp add: ring_list_def)

lemma ring_list_0 [simp]: "ring_list buf front 0 = []"
  by (simp add: ring_list_def)

lemma ring_list_mod: "ring_list buf (front mod length buf) n = ring_list buf front n"
  by (simp add: ring_list_def mod_add_left_eq)

lemma ring_list_Cons:
  "ring_list buf front (Suc n) = buf ! (front mod length buf) # ring_list buf (Suc front) n"
  by (simp add: ring_list_def upt_conv_Cons map_Suc_upt [symmetric] del: upt_Suc)

lemma mod_offsets_differ:
  "i < n \<Longrightarrow> n < (m::nat) \<Longrightarrow> (f + n) mod m \<noteq> (f + i) mod m"
proof
  assume "i < n" "n < m" "(f + n) mod m = (f + i) mod m"
  then have "m dvd (f + n) - (f + i)" using mod_eq_dvd_iff_nat [of "f + i" "f + n" m] by simp
  then have "m dvd n - i" by simp
  moreover have "0 < n - i" "n - i < m" using \<open>i < n\<close> \<open>n < m\<close> by auto
  ultimately show False by (simp add: nat_dvd_not_less)
qed

lemma ring_list_put:
  assumes "n < length buf"
  shows "ring_list (buf[(front + n) mod length buf := x]) front (Suc n) = ring_list buf front n @ [x]"
proof -
  have "(front + n) mod length buf < length buf" using assms by (intro mod_less_divisor) linarith
  moreover have "map (\<lambda>i. buf[(front + n) mod length buf := x] ! ((front + i) mod length buf)) [0..<n]
      = map (\<lambda>i. buf ! ((front + i) mod length buf)) [0..<n]"
    using assms mod_offsets_differ [of _ n "length buf" front] by (intro map_cong) (auto simp: nth_list_update_neq)
  ultimately show ?thesis by (simp add: ring_list_def)
qed

end
