(* ===== verification/ThreadPool.thy ===== *)
theory ThreadPool
  imports Io Transition RingQueue "HOL-Library.Multiset"
begin

section \<open>The adaptive thread pool (threadpool.c)\<close>

text \<open>
  \<^verbatim>\<open>concurrence_linux/14_thrpoll/threadpool.c\<close> (the copy under \<^verbatim>\<open>9_epoll_select\<close> is identical).

  The pool structure is the record \<open>pool\<close> with the source's fields; a task is a callback and its
  argument. The threads are four groups of agents: the workers running \<^verbatim>\<open>threadpool_thread\<close>, any number
  of clients calling \<^verbatim>\<open>threadpool_add\<close>, the manager running \<^verbatim>\<open>adjust_thread\<close> and one thread calling
  \<^verbatim>\<open>threadpool_destroy\<close>. Each has a program counter; one action of one agent is one function
  below, \<open>None\<close> where the thread is blocked. Everything between two accesses to
  shared data not protected by a mutex the thread holds is one action, so the unlocked writes of
  \<^verbatim>\<open>threadpool_destroy\<close> interleave with the critical sections of the others. A critical section that only
  reads or changes a counter (\<^verbatim>\<open>busy_thr_num\<close> under \<^verbatim>\<open>thread_counter\<close>, the manager's) is one action.

  A wait on a condition variable releases the mutex and puts the thread in the variable's
  wait set; a signal removes one waiting thread of the scheduler's choice, a broadcast all, a spurious
  wakeup any. \<open>added\<close>, \<open>taken\<close> and \<open>ran\<close> are history: the tasks accepted, dequeued and executed.
\<close>

subsection \<open>The pool and its task queue\<close>

datatype task = Task (fn: nat) (arg: nat)

record pool =
  min_thr_num :: int
  max_thr_num :: int
  live_thr_num :: int
  busy_thr_num :: int
  wait_exit_thr_num :: int
  queue_front :: int
  queue_rear :: int
  queue_size :: int
  queue_max_size :: int
  shutdown :: bool
  threads :: "nat list"        \<comment> \<open>thread ids, 0 where no thread was ever started\<close>
  task_queue :: "task list"

definition DEFAULT_THREAD_VARY :: nat where "DEFAULT_THREAD_VARY = 10"
definition MIN_WAIT_TASK_NUM :: int where "MIN_WAIT_TASK_NUM = 10"

text \<open>The queue operations inside \<^verbatim>\<open>threadpool_add\<close> and \<^verbatim>\<open>threadpool_thread\<close>.\<close>

definition queue_full :: "'z pool_scheme \<Rightarrow> bool" where
  "queue_full p \<longleftrightarrow> queue_size p = queue_max_size p"

definition queue_empty :: "'z pool_scheme \<Rightarrow> bool" where
  "queue_empty p \<longleftrightarrow> queue_size p = 0"

definition enqueue :: "task \<Rightarrow> 'z pool_scheme \<Rightarrow> 'z pool_scheme" where
  "enqueue t p = p\<lparr>task_queue := (task_queue p)[nat (queue_rear p) := t],
                   queue_rear := (queue_rear p + 1) mod queue_max_size p,
                   queue_size := queue_size p + 1\<rparr>"

definition front_task :: "'z pool_scheme \<Rightarrow> task" where
  "front_task p = task_queue p ! nat (queue_front p)"

definition dequeue :: "'z pool_scheme \<Rightarrow> 'z pool_scheme" where
  "dequeue p = p\<lparr>queue_front := (queue_front p + 1) mod queue_max_size p,
                 queue_size := queue_size p - 1\<rparr>"

definition queue_list :: "'z pool_scheme \<Rightarrow> task list" where
  "queue_list p = ring_list (task_queue p) (nat (queue_front p)) (nat (queue_size p))"

definition queue_ok :: "'z pool_scheme \<Rightarrow> bool" where
  "queue_ok p \<longleftrightarrow> int (length (task_queue p)) = queue_max_size p
     \<and> 0 \<le> queue_size p \<and> queue_size p \<le> queue_max_size p
     \<and> 0 \<le> queue_front p \<and> 0 \<le> queue_rear p
     \<and> (0 < queue_max_size p \<longrightarrow> queue_front p < queue_max_size p
          \<and> queue_rear p = (queue_front p + queue_size p) mod queue_max_size p)"

lemma queue_ok_nat:
  assumes "queue_ok p" "0 < queue_max_size p"
  obtains m f n where "queue_max_size p = int m" "queue_front p = int f" "queue_size p = int n"
    "length (task_queue p) = m" "f < m" "n \<le> m" "queue_rear p = int ((f + n) mod m)" "0 < m"
proof
  show "queue_max_size p = int (nat (queue_max_size p))" "queue_front p = int (nat (queue_front p))"
    "queue_size p = int (nat (queue_size p))"
    using assms by (auto simp: queue_ok_def)
  show "length (task_queue p) = nat (queue_max_size p)"
    using assms(1) by (metis nat_int queue_ok_def)
  show "nat (queue_front p) < nat (queue_max_size p)" "nat (queue_size p) \<le> nat (queue_max_size p)"
    "0 < nat (queue_max_size p)"
    using assms by (auto simp: queue_ok_def)
  show "queue_rear p = int ((nat (queue_front p) + nat (queue_size p)) mod nat (queue_max_size p))"
    using assms by (simp add: queue_ok_def zmod_int)
qed

lemma queue_ok_enqueue:
  assumes "queue_ok p" "\<not> queue_full p"
  shows "queue_ok (enqueue t p)" "queue_list (enqueue t p) = queue_list p @ [t]"
proof -
  have "0 < queue_max_size p" using assms by (auto simp: queue_ok_def queue_full_def)
  from assms(1) this obtain m f n where q: "queue_max_size p = int m" "queue_front p = int f"
    "queue_size p = int n" "length (task_queue p) = m" "f < m" "n \<le> m"
    "queue_rear p = int ((f + n) mod m)" "0 < m" by (rule queue_ok_nat)
  have "n < m" using assms(2) q by (simp add: queue_full_def)
  have "(int ((f + n) mod m) + 1) mod int m = (int f + (int n + 1)) mod int m"
    by (simp add: zmod_int mod_add_left_eq add.assoc)
  with q \<open>n < m\<close> show "queue_ok (enqueue t p)"
    by (simp add: queue_ok_def enqueue_def)
  have "ring_list ((task_queue p)[(f + n) mod length (task_queue p) := t]) f (Suc n) =
      ring_list (task_queue p) f n @ [t]"
    using \<open>n < m\<close> q(4) by (intro ring_list_put) simp
  with q show "queue_list (enqueue t p) = queue_list p @ [t]"
    by (simp add: queue_list_def enqueue_def nat_add_distrib)
qed

lemma queue_ok_dequeue:
  assumes "queue_ok p" "\<not> queue_empty p"
  shows "queue_ok (dequeue p)" "queue_list p = front_task p # queue_list (dequeue p)"
proof -
  have pos: "0 < queue_size p" using assms by (auto simp: queue_ok_def queue_empty_def)
  then have "0 < queue_max_size p" using assms(1) by (auto simp: queue_ok_def)
  from assms(1) this obtain m f n where q: "queue_max_size p = int m" "queue_front p = int f"
    "queue_size p = int n" "length (task_queue p) = m" "f < m" "n \<le> m"
    "queue_rear p = int ((f + n) mod m)" "0 < m" by (rule queue_ok_nat)
  obtain k where k: "n = Suc k" using pos q by (cases n) auto
  have front: "(int f + 1) mod int m = int (Suc f mod m)" by (simp add: zmod_int add.commute)
  have "int ((f + n) mod m) = (int (Suc f mod m) + (int n - 1)) mod int m"
    by (simp add: k zmod_int mod_simps ac_simps)
  with q k front show "queue_ok (dequeue p)"
    by (simp add: queue_ok_def dequeue_def)
  show "queue_list p = front_task p # queue_list (dequeue p)"
    using q k front ring_list_Cons [of "task_queue p" f k]
      ring_list_mod [of "task_queue p" "Suc f" k]
    by (simp add: queue_list_def front_task_def dequeue_def nat_diff_distrib nat_add_distrib)
qed

lemma queue_empty_iff: "queue_ok p \<Longrightarrow> queue_empty p \<longleftrightarrow> queue_list p = []"
  by (auto simp: queue_empty_def queue_list_def queue_ok_def simp flip: length_0_conv)

interpretation pool_queue: bounded_queue queue_ok queue_list queue_full queue_empty
  enqueue front_task dequeue
proof unfold_locales
  fix q :: "'z pool_scheme" and x
  assume ok: "queue_ok q"
  then show "queue_empty q \<longleftrightarrow> queue_list q = []" by (rule queue_empty_iff)
  show "queue_ok (enqueue x q)" "queue_list (enqueue x q) = queue_list q @ [x]" if "\<not> queue_full q"
    using ok that by (rule queue_ok_enqueue)+
  show "queue_ok (dequeue q)" "front_task q = hd (queue_list q)"
    "queue_list (dequeue q) = tl (queue_list q)" if "\<not> queue_empty q"
    using queue_ok_dequeue [OF ok that] by simp_all
qed

subsection \<open>The running pool\<close>

datatype wpc =                  \<comment> \<open>where a worker is in \<^verbatim>\<open>threadpool_thread\<close>\<close>
    WStart                      \<comment> \<open>about to lock the pool\<close>
  | WTest                       \<comment> \<open>at the condition of the inner \<^verbatim>\<open>while\<close>, pool locked\<close>
  | WBlock                      \<comment> \<open>about to call \<^verbatim>\<open>pthread_cond_wait\<close>, pool locked\<close>
  | WWait                       \<comment> \<open>in \<^verbatim>\<open>pthread_cond_wait\<close> on \<^verbatim>\<open>queue_not_empty\<close>\<close>
  | WWoken                      \<comment> \<open>returned from it, pool locked\<close>
  | WCheck                      \<comment> \<open>at \<^verbatim>\<open>if (pool->shutdown)\<close>, pool locked\<close>
  | WTake                       \<comment> \<open>about to dequeue, pool locked\<close>
  | WGot task                   \<comment> \<open>has a task, pool unlocked\<close>
  | WRun task                   \<comment> \<open>counted busy, about to call the task\<close>
  | WDone                       \<comment> \<open>task finished, still counted busy\<close>
  | WExit                       \<comment> \<open>\<^verbatim>\<open>pthread_exit\<close>\<close>

datatype cpc =                  \<comment> \<open>where a client is in \<^verbatim>\<open>threadpool_add\<close>\<close>
    CIdle | CCall task | CTest task | CBlock task | CWait task | CCheck task | CStore task | CRet int

datatype mpc =                  \<comment> \<open>where the manager is in \<^verbatim>\<open>adjust_thread\<close>; local variables as arguments\<close>
    MTop | MRead | MBusy int int | MGrow int int int | MShrink int int | MSignal nat | MEnd

datatype dpc =                  \<comment> \<open>where the caller of \<^verbatim>\<open>threadpool_destroy\<close> is\<close>
    DIdle | DFlag | DBroadcast int | DFree | DLock | DRet int

datatype agent = Worker nat | Client nat | Destroyer

record tp = pool +
  lock :: "agent option"
  not_empty :: "nat set"        \<comment> \<open>workers waiting on \<^verbatim>\<open>queue_not_empty\<close>\<close>
  not_full :: "nat set"         \<comment> \<open>clients waiting on \<^verbatim>\<open>queue_not_full\<close>\<close>
  workers :: "wpc list"         \<comment> \<open>worker \<open>k\<close> has thread id \<open>k + 1\<close>\<close>
  clients :: "cpc list"
  manager :: mpc
  destroyer :: dpc
  arrays_freed :: bool          \<comment> \<open>\<^verbatim>\<open>task_queue\<close> and \<^verbatim>\<open>threads\<close>\<close>
  pool_freed :: bool
  uaf :: bool                   \<comment> \<open>freed memory was accessed: the run stops\<close>
  added :: "task list"
  taken :: "task list"
  ran :: "task list"

definition set_w :: "nat \<Rightarrow> wpc \<Rightarrow> tp \<Rightarrow> tp" where
  "set_w i pc s = s\<lparr>workers := (workers s)[i := pc]\<rparr>"

definition set_c :: "nat \<Rightarrow> cpc \<Rightarrow> tp \<Rightarrow> tp" where
  "set_c j pc s = s\<lparr>clients := (clients s)[j := pc]\<rparr>"

text \<open>\<^verbatim>\<open>pthread_cond_signal(&pool->queue_not_empty)\<close>: wakes one waiting worker, if there is one.\<close>

definition may_signal :: "nat option \<Rightarrow> tp \<Rightarrow> bool" where
  "may_signal c s \<longleftrightarrow> (case c of None \<Rightarrow> not_empty s = {} | Some k \<Rightarrow> k \<in> not_empty s)"

definition signal :: "nat option \<Rightarrow> tp \<Rightarrow> tp" where
  "signal c s = (case c of None \<Rightarrow> s | Some k \<Rightarrow> s\<lparr>not_empty := not_empty s - {k}\<rparr>)"

text \<open>\<^verbatim>\<open>threadpool_thread\<close>, run by worker \<open>i\<close>.\<close>

definition worker_step :: "nat \<Rightarrow> tp \<Rightarrow> tp option" where
  "worker_step i s =
     (case workers s ! i of
        WStart \<Rightarrow>
          if lock s = None then Some (set_w i WTest (s\<lparr>lock := Some (Worker i)\<rparr>)) else None
      | WTest \<Rightarrow>
          if queue_empty s \<and> \<not> shutdown s
          then Some (set_w i WBlock s) else Some (set_w i WCheck s)
      | WBlock \<Rightarrow>
          Some (set_w i WWait (s\<lparr>lock := None, not_empty := insert i (not_empty s)\<rparr>))
      | WWait \<Rightarrow>
          if i \<notin> not_empty s \<and> lock s = None
          then Some (set_w i WWoken (s\<lparr>lock := Some (Worker i)\<rparr>)) else None
      | WWoken \<Rightarrow>
          if wait_exit_thr_num s > 0 then
            let s1 = s\<lparr>wait_exit_thr_num := wait_exit_thr_num s - 1\<rparr> in
            if live_thr_num s1 > min_thr_num s1
            then Some (set_w i WExit (s1\<lparr>live_thr_num := live_thr_num s1 - 1, lock := None\<rparr>))
            else Some (set_w i WTest s1)
          else Some (set_w i WTest s)
      | WCheck \<Rightarrow>
          if shutdown s then Some (set_w i WExit (s\<lparr>lock := None\<rparr>))
          else Some (set_w i WTake s)
      | WTake \<Rightarrow>
          let t = front_task s in
          Some (set_w i (WGot t)
            ((dequeue s)\<lparr>not_full := {}, lock := None, taken := taken s @ [t]\<rparr>))
      | WGot t \<Rightarrow> Some (set_w i (WRun t) (s\<lparr>busy_thr_num := busy_thr_num s + 1\<rparr>))
      | WRun t \<Rightarrow> Some (set_w i WDone (s\<lparr>ran := ran s @ [t]\<rparr>))
      | WDone \<Rightarrow> Some (set_w i WStart (s\<lparr>busy_thr_num := busy_thr_num s - 1\<rparr>))
      | WExit \<Rightarrow> None)"

text \<open>\<^verbatim>\<open>threadpool_add\<close>, run by client \<open>j\<close>; \<open>c\<close> is the worker its final signal wakes.\<close>

definition client_step :: "nat option \<Rightarrow> nat \<Rightarrow> tp \<Rightarrow> tp option" where
  "client_step c j s =
     (case clients s ! j of
        CIdle \<Rightarrow> None
      | CCall t \<Rightarrow>
          if lock s = None then Some (set_c j (CTest t) (s\<lparr>lock := Some (Client j)\<rparr>)) else None
      | CTest t \<Rightarrow>
          if queue_full s \<and> \<not> shutdown s
          then Some (set_c j (CBlock t) s) else Some (set_c j (CCheck t) s)
      | CBlock t \<Rightarrow>
          Some (set_c j (CWait t) (s\<lparr>lock := None, not_full := insert j (not_full s)\<rparr>))
      | CWait t \<Rightarrow>
          if j \<notin> not_full s \<and> lock s = None
          then Some (set_c j (CTest t) (s\<lparr>lock := Some (Client j)\<rparr>)) else None
      | CCheck t \<Rightarrow>
          if shutdown s then Some (set_c j (CRet 0) (s\<lparr>not_empty := {}, lock := None\<rparr>))
          else Some (set_c j (CStore t) s)
      | CStore t \<Rightarrow>
          if may_signal c s
          then Some (set_c j (CRet 0)
                 ((signal c (enqueue t s))\<lparr>lock := None, added := added s @ [t]\<rparr>))
          else None
      | CRet r \<Rightarrow> None)"

text \<open>\<^verbatim>\<open>is_thread_alive\<close>: \<^verbatim>\<open>pthread_kill(tid, 0)\<close> finds the thread as long as it has not exited.\<close>

definition is_thread_alive :: "tp \<Rightarrow> nat \<Rightarrow> bool" where
  "is_thread_alive s tid \<longleftrightarrow>
     tid \<noteq> 0 \<and> tid - 1 < length (workers s) \<and> workers s ! (tid - 1) \<noteq> WExit"

text \<open>
  The \<^verbatim>\<open>for\<close> loop that starts threads, from slot \<open>i\<close> on, with \<open>add\<close> started so far. \<^verbatim>\<open>pthread_create\<close> is
  taken to succeed (the code does not look at its result).
\<close>

definition start_thread :: "nat \<Rightarrow> tp \<Rightarrow> tp" where
  "start_thread i s = s\<lparr>threads := (threads s)[i := length (workers s) + 1],
                        workers := workers s @ [WStart],
                        live_thr_num := live_thr_num s + 1\<rparr>"

lemma start_thread_max [simp]: "max_thr_num (start_thread i s) = max_thr_num s"
  by (simp add: start_thread_def)

function grow_loop :: "nat \<Rightarrow> nat \<Rightarrow> tp \<Rightarrow> tp" where
  "grow_loop i add s =
     (if int i < max_thr_num s \<and> add < DEFAULT_THREAD_VARY \<and> live_thr_num s < max_thr_num s then
        if threads s ! i = 0 \<or> \<not> is_thread_alive s (threads s ! i)
        then grow_loop (i + 1) (add + 1) (start_thread i s)
        else grow_loop (i + 1) add s
      else s)"
  by pat_completeness auto
termination
  by (relation "measure (\<lambda>(i, add, s). nat (max_thr_num s) - i)") auto

declare grow_loop.simps [simp del]

text \<open>\<^verbatim>\<open>adjust_thread\<close>: read the counters, start threads, ask idle threads to exit.\<close>

definition manager_step :: "nat option \<Rightarrow> tp \<Rightarrow> tp option" where
  "manager_step c s =
     (case manager s of
        MTop \<Rightarrow> Some (if shutdown s then s\<lparr>manager := MEnd\<rparr> else s\<lparr>manager := MRead\<rparr>)
      | MRead \<Rightarrow>
          if lock s = None then Some (s\<lparr>manager := MBusy (queue_size s) (live_thr_num s)\<rparr>) else None
      | MBusy qsize live \<Rightarrow> Some (s\<lparr>manager := MGrow qsize live (busy_thr_num s)\<rparr>)
      | MGrow qsize live busy \<Rightarrow>
          if qsize \<ge> MIN_WAIT_TASK_NUM \<and> live < max_thr_num s then
            (if lock s = None then Some ((grow_loop 0 0 s)\<lparr>manager := MShrink live busy\<rparr>) else None)
          else Some (s\<lparr>manager := MShrink live busy\<rparr>)
      | MShrink live busy \<Rightarrow>
          if busy * 2 < live \<and> live > min_thr_num s then
            (if lock s = None
             then Some (s\<lparr>wait_exit_thr_num := int DEFAULT_THREAD_VARY,
                          manager := MSignal DEFAULT_THREAD_VARY\<rparr>)
             else None)
          else Some (s\<lparr>manager := MTop\<rparr>)
      | MSignal 0 \<Rightarrow> Some (s\<lparr>manager := MTop\<rparr>)
      | MSignal (Suc k) \<Rightarrow>
          if may_signal c s then Some ((signal c s)\<lparr>manager := MSignal k\<rparr>) else None
      | MEnd \<Rightarrow> None)"

text \<open>
  \<^verbatim>\<open>threadpool_destroy\<close> and the \<^verbatim>\<open>threadpool_free\<close> it ends with: the queue is freed before the pool's
  mutex is taken, the pool after.
\<close>

definition destroyer_step :: "tp \<Rightarrow> tp option" where
  "destroyer_step s =
     (case destroyer s of
        DIdle \<Rightarrow> None
      | DFlag \<Rightarrow> Some (s\<lparr>shutdown := True, destroyer := DBroadcast 0\<rparr>)
      | DBroadcast i \<Rightarrow>
          if i < live_thr_num s then Some (s\<lparr>not_empty := {}, destroyer := DBroadcast (i + 1)\<rparr>)
          else Some (s\<lparr>destroyer := DFree\<rparr>)
      | DFree \<Rightarrow> Some (s\<lparr>arrays_freed := True, destroyer := DLock\<rparr>)
      | DLock \<Rightarrow>
          if lock s = None
          then Some (s\<lparr>lock := Some Destroyer, pool_freed := True, destroyer := DRet 0\<rparr>) else None
      | DRet r \<Rightarrow> None)"

text \<open>
  Whether the next action of an agent reads or writes the pool, and whether it uses one of the two
  arrays. After the memory is freed such an action is undefined behaviour: it sets \<open>uaf\<close>, and the
  run stops there.
\<close>

fun worker_touches :: "wpc \<Rightarrow> bool" where
  "worker_touches (WRun t) = False"
| "worker_touches WExit = False"
| "worker_touches _ = True"

fun client_touches :: "cpc \<Rightarrow> bool" where
  "client_touches CIdle = False"
| "client_touches (CRet r) = False"
| "client_touches _ = True"

fun client_stores :: "cpc \<Rightarrow> bool" where
  "client_stores (CStore t) = True"
| "client_stores _ = False"

fun returned :: "cpc \<Rightarrow> bool" where
  "returned (CRet r) = True"
| "returned _ = False"

fun manager_grows :: "mpc \<Rightarrow> bool" where
  "manager_grows (MGrow q l b) = True"
| "manager_grows _ = False"

definition checked :: "bool \<Rightarrow> tp \<Rightarrow> tp option \<Rightarrow> tp option" where
  "checked bad s r = (if bad then Some (s\<lparr>uaf := True\<rparr>) else r)"

datatype act =
    Work nat
  | Add nat "nat option"
  | Manage "nat option"
  | Destroy
  | Call nat task               \<comment> \<open>an idle client calls \<^verbatim>\<open>threadpool_add\<close>\<close>
  | Return nat                  \<comment> \<open>a client's call returns\<close>
  | CallDestroy
  | SpuriousW nat               \<comment> \<open>a wait returns without a signal\<close>
  | SpuriousC nat

definition tp_exec :: "act \<Rightarrow> tp \<Rightarrow> tp option" where
  "tp_exec a s =
     (if uaf s then None
      else case a of
        Work i \<Rightarrow>
          if i < length (workers s)
          then checked (pool_freed s \<and> worker_touches (workers s ! i)
                        \<or> arrays_freed s \<and> workers s ! i = WTake) s (worker_step i s)
          else None
      | Add j c \<Rightarrow>
          if j < length (clients s)
          then checked (pool_freed s \<and> client_touches (clients s ! j)
                        \<or> arrays_freed s \<and> client_stores (clients s ! j)) s (client_step c j s)
          else None
      | Manage c \<Rightarrow>
          checked (pool_freed s \<and> manager s \<noteq> MEnd \<or> arrays_freed s \<and> manager_grows (manager s)) s
            (manager_step c s)
      | Destroy \<Rightarrow> destroyer_step s
      | Call j t \<Rightarrow>
          if j < length (clients s) \<and> clients s ! j = CIdle
          then Some (set_c j (CCall t) s) else None
      | Return j \<Rightarrow>
          if j < length (clients s) \<and> returned (clients s ! j)
          then Some (set_c j CIdle s) else None
      | CallDestroy \<Rightarrow> if destroyer s = DIdle then Some (s\<lparr>destroyer := DFlag\<rparr>) else None
      | SpuriousW i \<Rightarrow> if i \<in> not_empty s then Some (s\<lparr>not_empty := not_empty s - {i}\<rparr>) else None
      | SpuriousC j \<Rightarrow> if j \<in> not_full s then Some (s\<lparr>not_full := not_full s - {j}\<rparr>) else None)"

subsection \<open>Creating and releasing the pool\<close>

text \<open>
  The pool \<^verbatim>\<open>threadpool_create\<close> returns, with \<open>n\<close> idle clients: \<open>junk\<close> is what \<^verbatim>\<open>malloc\<close> leaves in
  the task array.
\<close>

definition pool_start :: "int \<Rightarrow> int \<Rightarrow> int \<Rightarrow> task \<Rightarrow> nat \<Rightarrow> tp" where
  "pool_start mn mx qmax junk n =
     \<lparr>min_thr_num = mn, max_thr_num = mx, live_thr_num = mn, busy_thr_num = 0, wait_exit_thr_num = 0,
      queue_front = 0, queue_rear = 0, queue_size = 0, queue_max_size = qmax, shutdown = False,
      threads = [1..<nat mn + 1] @ replicate (nat mx - nat mn) 0,
      task_queue = replicate (nat qmax) junk,
      lock = None, not_empty = {}, not_full = {}, workers = replicate (nat mn) WStart,
      clients = replicate n CIdle, manager = MTop, destroyer = DIdle,
      arrays_freed = False, pool_freed = False, uaf = False, added = [], taken = [], ran = []\<rparr>"

datatype ptr = Uninit | Null | Ptr

text \<open>
  \<^verbatim>\<open>threadpool_free\<close>, on a pool whose two pointers and four synchronisation objects (\<^verbatim>\<open>lock\<close>,
  \<^verbatim>\<open>thread_counter\<close>, \<^verbatim>\<open>queue_not_empty\<close>, \<^verbatim>\<open>queue_not_full\<close>) may not have been set up; \<open>None\<close> is the null pool.
\<close>

definition threadpool_free :: "(ptr \<times> ptr \<times> bool list) option \<Rightarrow> int outcome" where
  "threadpool_free p =
     (case p of None \<Rightarrow> Ret (- 1)
      | Some (tq, th, ready) \<Rightarrow>
          if tq = Uninit \<or> th = Uninit then Undef
          else if th = Ptr \<and> \<not> list_all (\<lambda>b. b) ready then Undef
          else Ret 0)"

text \<open>
  \<^verbatim>\<open>threadpool_create\<close>: \<open>mal\<close> says which of the three allocations succeed (a negative count is a
  huge size and fails), \<open>inits\<close> what the four initialisations return.
\<close>

definition threadpool_create ::
  "int \<Rightarrow> int \<Rightarrow> int \<Rightarrow> bool \<times> bool \<times> bool \<Rightarrow> int list \<Rightarrow> task \<Rightarrow> nat \<Rightarrow> tp option outcome" where
  "threadpool_create mn mx qmax mal inits junk n =
     (let failed = (\<lambda>p. case threadpool_free p of Undef \<Rightarrow> Undef | _ \<Rightarrow> Ret None) in
      case mal of (m1, m2, m3) \<Rightarrow>
        if \<not> m1 then failed None
        else if \<not> m2 \<or> mx < 0 then failed (Some (Uninit, Null, [False, False, False, False]))
        else if \<not> m3 \<or> qmax < 0 then failed (Some (Null, Ptr, [False, False, False, False]))
        else let ok = takeWhile (\<lambda>r. r = 0) inits in
          if length ok < 4
          then failed (Some (Ptr, Ptr, replicate (length ok) True @ replicate (4 - length ok) False))
          else if mn > mx then Undef
          else Ret (Some (pool_start mn mx qmax junk n)))"

definition threadpool_destroy :: "tp option \<Rightarrow> tp option \<times> int option" where
  "threadpool_destroy p =
     (case p of None \<Rightarrow> (None, Some (- 1)) | Some s \<Rightarrow> (tp_exec CallDestroy s, None))"

definition threadpool_all_threadnum :: "tp \<Rightarrow> int option" where
  "threadpool_all_threadnum s = (if lock s = None then Some (live_thr_num s) else None)"

definition threadpool_busy_threadnum :: "tp \<Rightarrow> int" where
  "threadpool_busy_threadnum s = busy_thr_num s"

end
