(* ===== verification/ThreadPoolInv.thy ===== *)
theory ThreadPoolInv
  imports ThreadPool
begin

section \<open>The invariants of the adaptive thread pool\<close>

text \<open>
  What holds in every state of every interleaving of \<open>ThreadPool\<close>: mutual exclusion of the
  critical sections, the queue and its history, the counters, and the conditions the code relies on
  without testing them (a worker dequeues from a non-empty queue only, a client stores into a
  non-full one only). Then what the code does not get right.
\<close>

subsection \<open>The parts of the invariant\<close>

fun worker_locked :: "wpc \<Rightarrow> bool" where
  "worker_locked WTest = True"
| "worker_locked WBlock = True"
| "worker_locked WWoken = True"
| "worker_locked WCheck = True"
| "worker_locked WTake = True"
| "worker_locked _ = False"

fun client_locked :: "cpc \<Rightarrow> bool" where
  "client_locked (CTest t) = True"
| "client_locked (CBlock t) = True"
| "client_locked (CCheck t) = True"
| "client_locked (CStore t) = True"
| "client_locked _ = False"

definition lock_inv :: "tp \<Rightarrow> bool" where
  "lock_inv s \<longleftrightarrow>
     (\<forall>i < length (workers s). worker_locked (workers s ! i) \<longleftrightarrow> lock s = Some (Worker i))
     \<and> (\<forall>j < length (clients s). client_locked (clients s ! j) \<longleftrightarrow> lock s = Some (Client j))
     \<and> (\<forall>i. lock s = Some (Worker i) \<longrightarrow> i < length (workers s))
     \<and> (\<forall>j. lock s = Some (Client j) \<longrightarrow> j < length (clients s))
     \<and> (lock s = Some Destroyer \<longleftrightarrow> pool_freed s)"

definition wait_inv :: "tp \<Rightarrow> bool" where
  "wait_inv s \<longleftrightarrow> (\<forall>i \<in> not_empty s. i < length (workers s) \<and> workers s ! i = WWait)
     \<and> (\<forall>j \<in> not_full s. j < length (clients s) \<and> (\<exists>t. clients s ! j = CWait t))
     \<and> (not_full s \<noteq> {} \<longrightarrow> queue_full s)"

definition pc_inv :: "tp \<Rightarrow> bool" where
  "pc_inv s \<longleftrightarrow>
     (\<forall>i < length (workers s).
        (workers s ! i = WTake \<longrightarrow> \<not> queue_empty s)
        \<and> (workers s ! i = WCheck \<longrightarrow> \<not> queue_empty s \<or> shutdown s))
     \<and> (\<forall>j < length (clients s). \<forall>t.
        (clients s ! j = CStore t \<longrightarrow> \<not> queue_full s) \<and> (clients s ! j = CBlock t \<longrightarrow> queue_full s)
        \<and> (clients s ! j = CCheck t \<longrightarrow> \<not> queue_full s \<or> shutdown s))"

definition history_inv :: "tp \<Rightarrow> bool" where
  "history_inv s \<longleftrightarrow> queue_ok s \<and> added s = taken s @ queue_list s"

fun held :: "wpc \<Rightarrow> task multiset" where
  "held (WGot t) = {#t#}"
| "held (WRun t) = {#t#}"
| "held _ = {#}"

definition in_flight :: "wpc list \<Rightarrow> task multiset" where
  "in_flight ws = sum_list (map held ws)"

definition once_inv :: "tp \<Rightarrow> bool" where
  "once_inv s \<longleftrightarrow> mset (taken s) = mset (ran s) + in_flight (workers s)"

fun busy :: "wpc \<Rightarrow> bool" where
  "busy (WRun t) = True"
| "busy WDone = True"
| "busy _ = False"

definition count_inv :: "tp \<Rightarrow> bool" where
  "count_inv s \<longleftrightarrow> busy_thr_num s = count_if busy (workers s)
     \<and> 0 \<le> min_thr_num s \<and> min_thr_num s \<le> live_thr_num s \<and> live_thr_num s \<le> max_thr_num s
     \<and> 0 \<le> wait_exit_thr_num s \<and> wait_exit_thr_num s \<le> int DEFAULT_THREAD_VARY
     \<and> int (length (threads s)) = max_thr_num s
     \<and> count_if (\<lambda>pc. pc \<noteq> WExit) (workers s) \<le> live_thr_num s
     \<and> (\<not> shutdown s \<longrightarrow> count_if (\<lambda>pc. pc \<noteq> WExit) (workers s) = live_thr_num s)"

definition stop_inv :: "tp \<Rightarrow> bool" where
  "stop_inv s \<longleftrightarrow> (shutdown s \<longleftrightarrow> destroyer s \<noteq> DIdle \<and> destroyer s \<noteq> DFlag)
     \<and> (arrays_freed s \<longleftrightarrow> destroyer s = DLock \<or> (\<exists>r. destroyer s = DRet r))
     \<and> (pool_freed s \<longleftrightarrow> (\<exists>r. destroyer s = DRet r))
     \<and> (uaf s \<longrightarrow> destroyer s = DLock \<or> (\<exists>r. destroyer s = DRet r))"

definition tp_inv :: "tp \<Rightarrow> bool" where
  "tp_inv s \<longleftrightarrow> lock_inv s \<and> wait_inv s \<and> pc_inv s \<and> history_inv s \<and> once_inv s
     \<and> count_inv s \<and> stop_inv s"

lemmas inv_defs = lock_inv_def wait_inv_def pc_inv_def once_inv_def count_inv_def stop_inv_def
lemmas step_defs = set_w_def set_c_def signal_def may_signal_def Let_def

subsection \<open>Starting threads\<close>

text \<open>All the loop does: it starts \<open>n\<close> workers and writes their ids into the thread array.\<close>

lemma grow_loop_starts:
  "\<exists>n th. grow_loop i add s =
      s\<lparr>threads := th, workers := workers s @ replicate n WStart,
        live_thr_num := live_thr_num s + int n\<rparr>
    \<and> length th = length (threads s) \<and> (add \<le> DEFAULT_THREAD_VARY \<longrightarrow> add + n \<le> DEFAULT_THREAD_VARY)
    \<and> (live_thr_num s \<le> max_thr_num s \<longrightarrow> live_thr_num s + int n \<le> max_thr_num s)"
proof (induction i add s rule: grow_loop.induct)
  case (1 i add s)
  consider (stop) "\<not> (int i < max_thr_num s \<and> add < DEFAULT_THREAD_VARY \<and> live_thr_num s < max_thr_num s)"
    | (start) "int i < max_thr_num s" "add < DEFAULT_THREAD_VARY" "live_thr_num s < max_thr_num s"
        "threads s ! i = 0 \<or> \<not> is_thread_alive s (threads s ! i)"
    | (skip) "int i < max_thr_num s" "add < DEFAULT_THREAD_VARY" "live_thr_num s < max_thr_num s"
        "\<not> (threads s ! i = 0 \<or> \<not> is_thread_alive s (threads s ! i))"
    by blast
  then show ?case
  proof cases
    case stop
    then have "grow_loop i add s = s" by (subst grow_loop.simps) (rule if_not_P)
    then show ?thesis by (intro exI [of _ 0] exI [of _ "threads s"]) simp
  next
    case start
    with 1(1) obtain n th where "grow_loop (i + 1) (add + 1) (start_thread i s) = (start_thread i s)
        \<lparr>threads := th, workers := workers (start_thread i s) @ replicate n WStart,
          live_thr_num := live_thr_num (start_thread i s) + int n\<rparr>"
      "length th = length (threads (start_thread i s))"
      "add + 1 \<le> DEFAULT_THREAD_VARY \<longrightarrow> add + 1 + n \<le> DEFAULT_THREAD_VARY"
      "live_thr_num (start_thread i s) \<le> max_thr_num (start_thread i s) \<longrightarrow>
        live_thr_num (start_thread i s) + int n \<le> max_thr_num (start_thread i s)"
      by blast
    with start show ?thesis
      by (intro exI [of _ "Suc n"] exI [of _ th])
         (simp add: grow_loop.simps [of i add s] start_thread_def add.assoc add.commute)
  next
    case skip
    with 1(2) have "grow_loop i add s = grow_loop (i + 1) add s"
      by (simp add: grow_loop.simps [of i add s])
    then show ?thesis using 1(2) [OF _ skip(4)] skip(1-3) by simp
  qed
qed

lemma grow_loop_from_0:
  obtains n th where "grow_loop 0 0 s =
      s\<lparr>threads := th, workers := workers s @ replicate n WStart,
        live_thr_num := live_thr_num s + int n\<rparr>"
    "length th = length (threads s)" "n \<le> DEFAULT_THREAD_VARY"
    "live_thr_num s \<le> max_thr_num s \<longrightarrow> live_thr_num s + int n \<le> max_thr_num s"
  using grow_loop_starts [of 0 0 s] by auto

subsection \<open>Every action keeps the invariant\<close>

text \<open>Queue operations touch the queue fields only.\<close>

lemma queue_op_fields [simp]:
  "shutdown (dequeue s) = shutdown s" "lock (dequeue (s::tp)) = lock s"
  "workers (dequeue (s::tp)) = workers s" "clients (dequeue (s::tp)) = clients s"
  "not_empty (dequeue (s::tp)) = not_empty s" "pool_freed (dequeue (s::tp)) = pool_freed s"
  "shutdown (enqueue t s) = shutdown s" "lock (enqueue t (s::tp)) = lock s"
  "workers (enqueue t (s::tp)) = workers s" "clients (enqueue t (s::tp)) = clients s"
  "not_empty (enqueue t (s::tp)) = not_empty s" "not_full (enqueue t (s::tp)) = not_full s"
  "pool_freed (enqueue t (s::tp)) = pool_freed s"
  by (simp_all add: dequeue_def enqueue_def)

text \<open>How one action moves the pool's mutex, and the frame of the actions of workers and clients.\<close>

definition lock_move :: "agent \<Rightarrow> bool \<Rightarrow> bool \<Rightarrow> tp \<Rightarrow> tp \<Rightarrow> bool" where
  "lock_move a before after s t \<longleftrightarrow>
     lock t = lock s \<and> after = before
     \<or> lock s = None \<and> lock t = Some a \<and> after
     \<or> before \<and> lock t = None \<and> \<not> after"

lemma worker_stepE:
  assumes "worker_step i s = Some t"
  obtains (acquire) "workers s ! i = WStart" "lock s = None"
      "t = set_w i WTest (s\<lparr>lock := Some (Worker i)\<rparr>)"
    | (must_wait) "workers s ! i = WTest" "queue_empty s" "\<not> shutdown s" "t = set_w i WBlock s"
    | (proceed) "workers s ! i = WTest" "\<not> queue_empty s \<or> shutdown s" "t = set_w i WCheck s"
    | (sleep) "workers s ! i = WBlock"
      "t = set_w i WWait (s\<lparr>lock := None, not_empty := insert i (not_empty s)\<rparr>)"
    | (wake) "workers s ! i = WWait" "i \<notin> not_empty s" "lock s = None"
      "t = set_w i WWoken (s\<lparr>lock := Some (Worker i)\<rparr>)"
    | (retire) "workers s ! i = WWoken" "wait_exit_thr_num s > 0" "live_thr_num s > min_thr_num s"
      "t = set_w i WExit (s\<lparr>wait_exit_thr_num := wait_exit_thr_num s - 1,
             live_thr_num := live_thr_num s - 1, lock := None\<rparr>)"
    | (keep) "workers s ! i = WWoken" "wait_exit_thr_num s > 0" "\<not> live_thr_num s > min_thr_num s"
      "t = set_w i WTest (s\<lparr>wait_exit_thr_num := wait_exit_thr_num s - 1\<rparr>)"
    | (retest) "workers s ! i = WWoken" "\<not> wait_exit_thr_num s > 0" "t = set_w i WTest s"
    | (stop) "workers s ! i = WCheck" "shutdown s" "t = set_w i WExit (s\<lparr>lock := None\<rparr>)"
    | (go) "workers s ! i = WCheck" "\<not> shutdown s" "t = set_w i WTake s"
    | (take) "workers s ! i = WTake"
      "t = set_w i (WGot (front_task s))
        ((dequeue s)\<lparr>not_full := {}, lock := None, taken := taken s @ [front_task s]\<rparr>)"
    | (begin_task) x where "workers s ! i = WGot x"
      "t = set_w i (WRun x) (s\<lparr>busy_thr_num := busy_thr_num s + 1\<rparr>)"
    | (run) x where "workers s ! i = WRun x" "t = set_w i WDone (s\<lparr>ran := ran s @ [x]\<rparr>)"
    | (finish) "workers s ! i = WDone" "t = set_w i WStart (s\<lparr>busy_thr_num := busy_thr_num s - 1\<rparr>)"
  using assms
  by (cases "workers s ! i") (simp_all add: worker_step_def that Let_def split: if_splits)

lemma client_stepE:
  assumes "client_step c j s = Some t"
  obtains (acquire) x where "clients s ! j = CCall x" "lock s = None"
      "t = set_c j (CTest x) (s\<lparr>lock := Some (Client j)\<rparr>)"
    | (must_wait) x where "clients s ! j = CTest x" "queue_full s" "\<not> shutdown s" "t = set_c j (CBlock x) s"
    | (proceed) x where "clients s ! j = CTest x" "\<not> queue_full s \<or> shutdown s" "t = set_c j (CCheck x) s"
    | (sleep) x where "clients s ! j = CBlock x"
      "t = set_c j (CWait x) (s\<lparr>lock := None, not_full := insert j (not_full s)\<rparr>)"
    | (wake) x where "clients s ! j = CWait x" "j \<notin> not_full s" "lock s = None"
      "t = set_c j (CTest x) (s\<lparr>lock := Some (Client j)\<rparr>)"
    | (stop) x where "clients s ! j = CCheck x" "shutdown s"
      "t = set_c j (CRet 0) (s\<lparr>not_empty := {}, lock := None\<rparr>)"
    | (go) x where "clients s ! j = CCheck x" "\<not> shutdown s" "t = set_c j (CStore x) s"
    | (store) x where "clients s ! j = CStore x" "may_signal c s"
      "t = set_c j (CRet 0) ((signal c (enqueue x s))\<lparr>lock := None, added := added s @ [x]\<rparr>)"
  using assms
  by (cases "clients s ! j") (simp_all add: client_step_def that split: if_splits)

lemma manager_stepE:
  assumes "manager_step c s = Some t"
  obtains (pc) pc where "t = s\<lparr>manager := pc\<rparr>"
    | (grow) l b where "lock s = None" "t = (grow_loop 0 0 s)\<lparr>manager := MShrink l b\<rparr>"
    | (shrink) "lock s = None" "t = s\<lparr>wait_exit_thr_num := int DEFAULT_THREAD_VARY,
                                   manager := MSignal DEFAULT_THREAD_VARY\<rparr>"
    | (wake) k where "may_signal c s" "t = (signal c s)\<lparr>manager := MSignal k\<rparr>"
proof (cases "manager s")
  case MTop
  with assms have "t = s\<lparr>manager := if shutdown s then MEnd else MRead\<rparr>"
    by (auto simp: manager_step_def)
  then show ?thesis by (rule pc)
next
  case MRead
  with assms have "t = s\<lparr>manager := MBusy (queue_size s) (live_thr_num s)\<rparr>"
    by (auto simp: manager_step_def split: if_splits)
  then show ?thesis by (rule pc)
next
  case (MBusy q l)
  with assms have "t = s\<lparr>manager := MGrow q l (busy_thr_num s)\<rparr>" by (simp add: manager_step_def)
  then show ?thesis by (rule pc)
next
  case (MGrow q l b)
  with assms consider "lock s = None" "t = (grow_loop 0 0 s)\<lparr>manager := MShrink l b\<rparr>"
    | "t = s\<lparr>manager := MShrink l b\<rparr>"
    by (auto simp: manager_step_def split: if_splits)
  then show ?thesis by cases (erule (1) grow, erule pc)
next
  case (MShrink l b)
  with assms consider "t = s\<lparr>manager := MTop\<rparr>"
    | "lock s = None" "t = s\<lparr>wait_exit_thr_num := int DEFAULT_THREAD_VARY,
                           manager := MSignal DEFAULT_THREAD_VARY\<rparr>"
    by (auto simp: manager_step_def split: if_splits)
  then show ?thesis by cases (erule pc, erule (1) shrink)
next
  case (MSignal k)
  with assms consider "t = s\<lparr>manager := MTop\<rparr>"
    | k' where "may_signal c s" "t = (signal c s)\<lparr>manager := MSignal k'\<rparr>"
    by (auto simp: manager_step_def split: if_splits nat.splits)
  then show ?thesis by cases (erule pc, erule (1) wake)
qed (use assms in \<open>simp add: manager_step_def\<close>)

lemma worker_lock_inv:
  assumes "lock_inv s" "i < length (workers s)" "worker_step i s = Some t"
  shows "lock_inv t"
  using assms(3,1,2)
  by (cases rule: worker_stepE) (auto simp: lock_inv_def set_w_def nth_list_update)

lemma client_lock_inv:
  assumes "lock_inv s" "j < length (clients s)" "client_step c j s = Some t"
  shows "lock_inv t"
  using assms(3,1,2)
  by (cases rule: client_stepE)
     (auto simp: lock_inv_def set_c_def signal_def nth_list_update split: option.splits)

lemma worker_wait_inv:
  assumes "wait_inv s" "i < length (workers s)" "worker_step i s = Some t"
  shows "wait_inv t"
  using assms(3,1,2)
  by (cases rule: worker_stepE) (auto simp: wait_inv_def set_w_def nth_list_update queue_full_def)

lemma client_wait_inv:
  assumes "wait_inv s" "pc_inv s" "j < length (clients s)" "client_step c j s = Some t"
  shows "wait_inv t"
  using assms(4,1,2,3)
proof (cases rule: client_stepE)
  case (sleep x)
  then have "queue_full s" using assms(2,3) by (simp add: pc_inv_def)
  with sleep assms(1,3) show ?thesis
    by (auto simp: wait_inv_def set_c_def nth_list_update queue_full_def)
next
  case (store x)
  then have "not_full s = {}" using assms(1-3) by (auto simp: pc_inv_def wait_inv_def)
  with store assms(1,3) show ?thesis
    by (auto simp: wait_inv_def set_c_def signal_def nth_list_update split: option.splits)
qed (auto simp: wait_inv_def set_c_def nth_list_update queue_full_def)

lemma queue_test_frames [simp]:
  "queue_full (s\<lparr>clients := c\<rparr>) = queue_full s" "queue_empty (s\<lparr>clients := c\<rparr>) = queue_empty s"
  "queue_full (s\<lparr>lock := l\<rparr>) = queue_full s" "queue_empty (s\<lparr>lock := l\<rparr>) = queue_empty s"
  "queue_full (s\<lparr>not_full := f\<rparr>) = queue_full s" "queue_empty (s\<lparr>not_full := f\<rparr>) = queue_empty s"
  "queue_full (s\<lparr>not_empty := e\<rparr>) = queue_full s" "queue_empty (s\<lparr>not_empty := e\<rparr>) = queue_empty s"
  by (simp_all add: queue_full_def queue_empty_def)

lemma worker_pc_inv:
  assumes "pc_inv s" "lock_inv s" "i < length (workers s)" "worker_step i s = Some t"
  shows "pc_inv t"
  using assms(4,1,2,3)
proof (cases rule: worker_stepE)
  case take
  have locked: "lock s = Some (Worker i)" using assms(2,3) take(1) unfolding lock_inv_def by force
  have "\<not> worker_locked (workers s ! k)" if "k < length (workers s)" "k \<noteq> i" for k
    using assms(2) that locked unfolding lock_inv_def by simp
  moreover have "\<not> client_locked (clients s ! k)" if "k < length (clients s)" for k
    using assms(2) that locked unfolding lock_inv_def by simp
  ultimately show ?thesis using take assms(3)
    by (fastforce simp: pc_inv_def set_w_def nth_list_update)
qed (auto simp: pc_inv_def set_w_def nth_list_update queue_empty_def queue_full_def)

lemma client_pc_inv:
  assumes "pc_inv s" "lock_inv s" "j < length (clients s)" "client_step c j s = Some t"
  shows "pc_inv t"
  using assms(4,1,2,3)
proof (cases rule: client_stepE)
  case (store x)
  have locked: "lock s = Some (Client j)" using assms(2,3) store(1) unfolding lock_inv_def by force
  have "\<not> client_locked (clients s ! k)" if "k < length (clients s)" "k \<noteq> j" for k
    using assms(2) that locked unfolding lock_inv_def by simp
  moreover have "\<not> worker_locked (workers s ! k)" if "k < length (workers s)" for k
    using assms(2) that locked unfolding lock_inv_def by simp
  ultimately show ?thesis using store assms(3)
    by (fastforce simp: pc_inv_def set_c_def signal_def nth_list_update split: option.splits)
next
  case (sleep x)
  have "\<forall>k < length (clients s). k \<noteq> j \<longrightarrow> \<not> client_locked (clients s ! k)"
    using assms(2,3) sleep(1) unfolding lock_inv_def by force
  with sleep assms(1,3) show ?thesis by (fastforce simp: pc_inv_def set_c_def nth_list_update)
next
  case (go x)
  have "\<forall>k < length (clients s). k \<noteq> j \<longrightarrow> \<not> client_locked (clients s ! k)"
    using assms(2,3) go(1) unfolding lock_inv_def by force
  with go assms(1,3) show ?thesis by (fastforce simp: pc_inv_def set_c_def nth_list_update)
qed (auto simp: pc_inv_def set_c_def nth_list_update)

lemma worker_history_inv:
  assumes "history_inv s" "pc_inv s" "i < length (workers s)" "worker_step i s = Some t"
  shows "history_inv t"
  using assms(4,1,2,3)
proof (cases rule: worker_stepE)
  case take
  then have "\<not> queue_empty s" using assms(2,3) by (simp add: pc_inv_def)
  with queue_ok_dequeue [of s] assms(1)
  have "queue_ok (dequeue s)" "queue_list s = front_task s # queue_list (dequeue s)"
    by (simp_all add: history_inv_def)
  with assms(1) take show ?thesis
    by (simp add: history_inv_def set_w_def queue_ok_def queue_list_def dequeue_def)
qed (simp_all add: history_inv_def set_w_def queue_ok_def queue_list_def)

lemma client_history_inv:
  assumes "history_inv s" "pc_inv s" "j < length (clients s)" "client_step c j s = Some t"
  shows "history_inv t"
  using assms(4,1,2,3)
proof (cases rule: client_stepE)
  case (store x)
  then have "\<not> queue_full s" using assms(2,3) by (simp add: pc_inv_def)
  with queue_ok_enqueue [of s x] assms(1)
  have "queue_ok (enqueue x s)" "queue_list (enqueue x s) = queue_list s @ [x]"
    by (simp_all add: history_inv_def)
  with assms(1) store show ?thesis
    by (simp add: history_inv_def set_c_def signal_def queue_ok_def queue_list_def enqueue_def
        split: option.splits)
qed (simp_all add: history_inv_def set_c_def signal_def queue_ok_def queue_list_def)

lemma in_flight_append [simp]: "in_flight (xs @ ys) = in_flight xs + in_flight ys"
  by (simp add: in_flight_def)

lemma in_flight_starts [simp]: "in_flight (replicate n WStart) = {#}"
  by (induction n) (simp_all add: in_flight_def)

lemma in_flight_update:
  "i < length ws \<Longrightarrow> in_flight (ws[i := pc]) + held (ws ! i) = in_flight ws + held pc"
  unfolding in_flight_def by (rule sum_list_map_update)

lemma in_flight_same: "i < length ws \<Longrightarrow> held pc = held (ws ! i) \<Longrightarrow> in_flight (ws[i := pc]) = in_flight ws"
  using in_flight_update [of i ws pc] by simp

lemma worker_once_inv:
  assumes "once_inv s" "i < length (workers s)" "worker_step i s = Some t"
  shows "once_inv t"
  using assms(3,1,2)
proof (cases rule: worker_stepE)
  case take
  with in_flight_update [OF assms(2), of "WGot (front_task s)"] assms(1) show ?thesis
    by (simp add: once_inv_def set_w_def dequeue_def)
next
  case (run x)
  with in_flight_update [OF assms(2), of WDone] assms(1) show ?thesis
    by (simp add: once_inv_def set_w_def)
qed (auto simp: once_inv_def set_w_def in_flight_same)

lemma client_once_inv:
  assumes "once_inv s" "client_step c j s = Some t"
  shows "once_inv t"
  using assms(2,1)
  by (cases rule: client_stepE)
     (simp_all add: once_inv_def set_c_def signal_def enqueue_def split: option.splits)

lemma worker_count_inv:
  assumes "count_inv s" "i < length (workers s)" "worker_step i s = Some t"
  shows "count_inv t"
  using assms(3,1,2)
  by (cases rule: worker_stepE)
     (simp_all add: count_inv_def set_w_def dequeue_def count_if_update)

lemma client_count_inv:
  assumes "count_inv s" "client_step c j s = Some t"
  shows "count_inv t"
  using assms(2,1)
  by (cases rule: client_stepE)
     (simp_all add: count_inv_def set_c_def signal_def enqueue_def split: option.splits)

lemma worker_stop_inv:
  assumes "stop_inv s" "worker_step i s = Some t"
  shows "stop_inv t"
  using assms(2,1)
  by (cases rule: worker_stepE) (auto simp: stop_inv_def set_w_def dequeue_def)

lemma client_stop_inv:
  assumes "stop_inv s" "client_step c j s = Some t"
  shows "stop_inv t"
  using assms(2,1)
  by (cases rule: client_stepE)
     (auto simp: stop_inv_def set_c_def signal_def enqueue_def split: option.splits)

lemma worker_tp_inv: "tp_inv s \<Longrightarrow> i < length (workers s) \<Longrightarrow> worker_step i s = Some t \<Longrightarrow> tp_inv t"
  unfolding tp_inv_def
  by (blast intro: worker_lock_inv worker_wait_inv worker_pc_inv worker_history_inv worker_once_inv
      worker_count_inv worker_stop_inv)

lemma client_tp_inv: "tp_inv s \<Longrightarrow> j < length (clients s) \<Longrightarrow> client_step c j s = Some t \<Longrightarrow> tp_inv t"
  unfolding tp_inv_def
  by (blast intro: client_lock_inv client_wait_inv client_pc_inv client_history_inv client_once_inv
      client_count_inv client_stop_inv)

lemma grow_tp_inv:
  assumes "tp_inv s"
  shows "tp_inv (grow_loop 0 0 s)"
proof -
  obtain n th where g: "grow_loop 0 0 s = s\<lparr>threads := th, workers := workers s @ replicate n WStart,
      live_thr_num := live_thr_num s + int n\<rparr>" "length th = length (threads s)"
    "live_thr_num s \<le> max_thr_num s \<longrightarrow> live_thr_num s + int n \<le> max_thr_num s"
    by (rule grow_loop_from_0)
  have "lock_inv (grow_loop 0 0 s)" using assms
    by (simp add: tp_inv_def lock_inv_def g nth_append) (metis linorder_not_less trans_less_add1)
  moreover have "wait_inv (grow_loop 0 0 s)" "pc_inv (grow_loop 0 0 s)"
    using assms by (auto simp: tp_inv_def wait_inv_def pc_inv_def g nth_append queue_empty_def queue_full_def)
  moreover have "history_inv (grow_loop 0 0 s)" "once_inv (grow_loop 0 0 s)"
    "count_inv (grow_loop 0 0 s)" "stop_inv (grow_loop 0 0 s)"
    using assms g(2,3)
    by (simp_all add: tp_inv_def history_inv_def once_inv_def count_inv_def stop_inv_def g(1)
        queue_ok_def queue_list_def)
  ultimately show ?thesis by (simp add: tp_inv_def)
qed

lemma returned_iff: "returned pc \<longleftrightarrow> (\<exists>r. pc = CRet r)"
  by (cases pc) simp_all

text \<open>Updates that a part of the invariant does not look at.\<close>

lemma queue_frame:
  "queue_ok (s\<lparr>manager := m\<rparr>) = queue_ok s" "queue_list (s\<lparr>manager := m\<rparr>) = queue_list s"
  "queue_empty (s\<lparr>manager := m\<rparr>) = queue_empty s" "queue_full (s\<lparr>manager := m\<rparr>) = queue_full s"
  by (simp_all add: queue_ok_def queue_list_def queue_empty_def queue_full_def)

lemma manager_frame [simp]: "tp_inv (s\<lparr>manager := m\<rparr>) = tp_inv s"
  unfolding tp_inv_def inv_defs history_inv_def queue_frame by simp

lemma spurious_tp_inv:
  assumes "tp_inv s"
  shows "tp_inv (s\<lparr>not_empty := not_empty s - X\<rparr>)" "tp_inv (s\<lparr>not_full := not_full s - X\<rparr>)"
proof -
  have same: "P (s\<lparr>not_empty := not_empty s - X\<rparr>) = P s" "P (s\<lparr>not_full := not_full s - X\<rparr>) = P s"
    if "P \<in> {lock_inv, pc_inv, history_inv, once_inv, count_inv, stop_inv}" for P
    using that by (auto simp: lock_inv_def pc_inv_def history_inv_def once_inv_def count_inv_def
        stop_inv_def queue_ok_def queue_list_def queue_empty_def queue_full_def)
  have "wait_inv (s\<lparr>not_empty := not_empty s - X\<rparr>)" "wait_inv (s\<lparr>not_full := not_full s - X\<rparr>)"
    using assms by (auto simp: tp_inv_def wait_inv_def queue_full_def)
  then show "tp_inv (s\<lparr>not_empty := not_empty s - X\<rparr>)" "tp_inv (s\<lparr>not_full := not_full s - X\<rparr>)"
    using assms by (simp_all add: tp_inv_def same)
qed

lemma signal_tp_inv: "tp_inv s \<Longrightarrow> tp_inv (signal c s)"
  by (simp add: signal_def spurious_tp_inv split: option.split)

lemma shrink_tp_inv:
  assumes "tp_inv s"
  shows "tp_inv (s\<lparr>wait_exit_thr_num := int DEFAULT_THREAD_VARY\<rparr>)" (is "tp_inv ?t")
proof -
  have "lock_inv ?t = lock_inv s" "wait_inv ?t = wait_inv s" "pc_inv ?t = pc_inv s"
    "history_inv ?t = history_inv s" "once_inv ?t = once_inv s" "stop_inv ?t = stop_inv s"
    by (simp_all add: lock_inv_def wait_inv_def pc_inv_def history_inv_def once_inv_def
        stop_inv_def queue_ok_def queue_list_def queue_empty_def queue_full_def)
  moreover have "count_inv ?t" using assms by (simp add: tp_inv_def count_inv_def)
  ultimately show ?thesis using assms by (simp add: tp_inv_def)
qed

lemma uaf_tp_inv:
  assumes "tp_inv s" "arrays_freed s"
  shows "tp_inv (s\<lparr>uaf := True\<rparr>)"
proof -
  have same: "P (s\<lparr>uaf := True\<rparr>) = P s"
    if "P \<in> {lock_inv, wait_inv, pc_inv, history_inv, once_inv, count_inv}" for P
    using that by (auto simp: lock_inv_def wait_inv_def pc_inv_def history_inv_def once_inv_def
        count_inv_def queue_ok_def queue_list_def queue_empty_def queue_full_def)
  have "stop_inv (s\<lparr>uaf := True\<rparr>)" using assms by (auto simp: tp_inv_def stop_inv_def)
  then show ?thesis using assms by (simp add: tp_inv_def same)
qed

lemma manager_tp_inv:
  assumes "tp_inv s" "manager_step c s = Some t"
  shows "tp_inv t"
  using assms(2)
proof (cases rule: manager_stepE)
  case shrink
  moreover have "s\<lparr>wait_exit_thr_num := x, manager := m\<rparr> = (s\<lparr>wait_exit_thr_num := x\<rparr>)\<lparr>manager := m\<rparr>"
    for x m by simp
  ultimately show ?thesis using shrink_tp_inv [OF assms(1)] by (simp only: manager_frame)
qed (use assms(1) grow_tp_inv signal_tp_inv in simp_all)

lemma destroyer_tp_inv:
  assumes "tp_inv s" "destroyer_step s = Some t"
  shows "tp_inv t"
proof -
  have q: "history_inv t"
    using assms by (auto simp: tp_inv_def destroyer_step_def history_inv_def queue_ok_def
        queue_list_def split: dpc.splits if_splits)
  have "lock_inv t" using assms
    by (auto simp: tp_inv_def destroyer_step_def lock_inv_def stop_inv_def split: dpc.splits if_splits)
  moreover have "wait_inv t" using assms
    by (auto simp: tp_inv_def destroyer_step_def wait_inv_def queue_full_def split: dpc.splits if_splits)
  moreover have "pc_inv t" using assms
    by (auto simp: tp_inv_def destroyer_step_def pc_inv_def queue_empty_def queue_full_def
        split: dpc.splits if_splits)
  moreover have "once_inv t" "count_inv t" using assms
    by (auto simp: tp_inv_def destroyer_step_def once_inv_def count_inv_def split: dpc.splits if_splits)
  moreover have "stop_inv t" using assms
    by (auto simp: tp_inv_def destroyer_step_def stop_inv_def split: dpc.splits if_splits)
  ultimately show ?thesis using q by (simp add: tp_inv_def)
qed

text \<open>The initial states: a pool \<^verbatim>\<open>threadpool_create\<close> has returned, and clients that have not called yet.\<close>

definition tp_init :: "tp \<Rightarrow> bool" where
  "tp_init s \<longleftrightarrow> (\<exists>mn mx qmax junk n. 0 \<le> mn \<and> mn \<le> mx \<and> 0 \<le> qmax \<and> s = pool_start mn mx qmax junk n)"

lemma tp_init_inv: "tp_init s \<Longrightarrow> tp_inv s"
proof -
  assume "tp_init s"
  then obtain mn mx qmax junk n where
    "0 \<le> mn" "mn \<le> mx" "0 \<le> qmax" "s = pool_start mn mx qmax junk n" by (auto simp: tp_init_def)
  then show ?thesis
    by (auto simp: tp_inv_def inv_defs history_inv_def queue_ok_def queue_list_def pool_start_def)
qed

lemma checked_tp_inv:
  "checked bad s r = Some t \<Longrightarrow> tp_inv s \<Longrightarrow> (bad \<Longrightarrow> arrays_freed s) \<Longrightarrow>
     (\<And>t. r = Some t \<Longrightarrow> tp_inv t) \<Longrightarrow> tp_inv t"
  by (auto simp: checked_def intro: uaf_tp_inv split: if_splits)

lemma freed_arrays: "tp_inv s \<Longrightarrow> pool_freed s \<Longrightarrow> arrays_freed s"
  by (auto simp: tp_inv_def stop_inv_def)

lemma call_tp_inv:
  assumes "tp_inv s" "j < length (clients s)" "\<not> client_locked (clients s ! j)" "\<not> client_locked pc"
    "j \<notin> not_full s"
  shows "tp_inv (set_c j pc s)"
proof -
  have "lock_inv (set_c j pc s)" "wait_inv (set_c j pc s)" "pc_inv (set_c j pc s)"
    using assms by (auto simp: tp_inv_def set_c_def lock_inv_def wait_inv_def pc_inv_def nth_list_update
        queue_empty_def queue_full_def)
  with assms(1) show ?thesis
    by (simp add: tp_inv_def set_c_def history_inv_def once_inv_def count_inv_def stop_inv_def
        queue_ok_def queue_list_def)
qed

lemma waiting_client: "tp_inv s \<Longrightarrow> j \<in> not_full s \<Longrightarrow> \<exists>t. clients s ! j = CWait t"
  by (auto simp: tp_inv_def wait_inv_def)

lemma exec_tp_inv:
  assumes "tp_inv s" "tp_exec a s = Some t"
  shows "tp_inv t"
proof (cases a)
  case (Work i)
  with assms show ?thesis
    by (auto simp: tp_exec_def intro: worker_tp_inv freed_arrays elim!: checked_tp_inv split: if_splits)
next
  case (Add j c)
  with assms show ?thesis
    by (auto simp: tp_exec_def intro: client_tp_inv freed_arrays elim!: checked_tp_inv split: if_splits)
next
  case (Manage c)
  with assms show ?thesis
    by (auto simp: tp_exec_def intro: manager_tp_inv freed_arrays elim!: checked_tp_inv split: if_splits)
next
  case Destroy
  with assms show ?thesis by (auto simp: tp_exec_def intro: destroyer_tp_inv split: if_splits)
next
  case (Call j x)
  with assms show ?thesis
    by (auto simp: tp_exec_def intro!: call_tp_inv dest: waiting_client split: if_splits)
next
  case (Return j)
  with assms show ?thesis
    by (auto simp: tp_exec_def returned_iff intro!: call_tp_inv dest: waiting_client split: if_splits)
next
  case CallDestroy
  with assms(2) have t: "destroyer s = DIdle" "t = s\<lparr>destroyer := DFlag\<rparr>"
    by (auto simp: tp_exec_def split: if_splits)
  have same: "P t = P s" if "P \<in> {lock_inv, wait_inv, pc_inv, history_inv, once_inv, count_inv}" for P
    using that by (auto simp: t lock_inv_def wait_inv_def pc_inv_def history_inv_def once_inv_def
        count_inv_def queue_ok_def queue_list_def queue_empty_def queue_full_def)
  have "stop_inv t" using assms t by (auto simp: tp_inv_def stop_inv_def)
  then show ?thesis using assms(1) by (simp add: tp_inv_def same)
qed (use assms in \<open>auto simp: tp_exec_def intro: spurious_tp_inv split: if_splits\<close>)

interpretation pool_system: invariant_system tp_init tp_exec tp_inv
  by unfold_locales (auto intro: tp_init_inv exec_tp_inv)

end
