(* ===== verification/ThreadPoolProps.thy ===== *)
theory ThreadPoolProps
  imports ThreadPoolInv
begin

section \<open>What the adaptive thread pool guarantees, and what it does not\<close>

text \<open>
  The guarantees are read off the invariant of \<open>ThreadPoolInv\<close> and hold in every reachable state.
  The counterexamples are schedules, run by the kernel from the state \<^verbatim>\<open>threadpool_create\<close> returns.
\<close>

subsection \<open>Guarantees\<close>




text \<open>C6: The task queue is a bounded FIFO queue under every interleaving: the tasks dequeued so far followed
  by those in the ring are exactly the tasks accepted, in their order of acceptance, and the ring
  never holds more than \<^verbatim>\<open>queue_max_size\<close> of them.\<close>

theorem pool_fifo:
  assumes "reach tp_init (lstep tp_exec) s"
  shows "added s = taken s @ queue_list s \<and> int (length (queue_list s)) \<le> queue_max_size s"
  using pool_system.inv_reach [OF assms]
  by (auto simp: tp_inv_def history_inv_def queue_list_def queue_ok_def)

text \<open>C7: Every accepted task is executed at most once and none is lost inside the pool: at any time the
  tasks accepted are, counted with multiplicity, those executed, those a worker holds between
  dequeuing and running it, and those still in the ring.\<close>

theorem pool_runs_each_task_once:
  assumes "reach tp_init (lstep tp_exec) s"
  shows "mset (added s) = mset (ran s) + in_flight (workers s) + mset (queue_list s)"
  using pool_system.inv_reach [OF assms]
  by (auto simp: tp_inv_def history_inv_def once_inv_def)

text \<open>C9: The array accesses are in bounds: a worker about to dequeue finds the queue non-empty and reads a
  slot of the array, a client about to store finds it not full and writes a slot of the array. This
  rests on re-testing the condition after every wait.\<close>

theorem pool_queue_accesses_in_bounds:
  assumes "reach tp_init (lstep tp_exec) s"
  shows "(i < length (workers s) \<and> workers s ! i = WTake \<longrightarrow>
            queue_size s > 0 \<and> 0 \<le> queue_front s \<and> nat (queue_front s) < length (task_queue s))
       \<and> (j < length (clients s) \<and> clients s ! j = CStore t \<longrightarrow>
            queue_size s < queue_max_size s \<and> 0 \<le> queue_rear s
            \<and> nat (queue_rear s) < length (task_queue s))"
proof -
  have inv: "pc_inv s" "queue_ok s"
    using pool_system.inv_reach [OF assms] by (simp_all add: tp_inv_def history_inv_def)
  show ?thesis
  proof (intro conjI impI; elim conjE)
    assume "i < length (workers s)" "workers s ! i = WTake"
    with inv(1) have "queue_size s \<noteq> 0" by (simp add: pc_inv_def queue_empty_def)
    with inv(2) show "queue_size s > 0" "0 \<le> queue_front s"
      "nat (queue_front s) < length (task_queue s)" by (auto simp: queue_ok_def)
  next
    assume "j < length (clients s)" "clients s ! j = CStore t"
    with inv(1) have "queue_size s \<noteq> queue_max_size s" by (simp add: pc_inv_def queue_full_def)
    with inv(2) have "queue_size s < queue_max_size s" "0 < queue_max_size s"
      by (auto simp: queue_ok_def)
    with inv(2) have "queue_rear s = (queue_front s + queue_size s) mod queue_max_size s"
      by (simp add: queue_ok_def)
    with \<open>0 < queue_max_size s\<close> have "0 \<le> queue_rear s" "queue_rear s < queue_max_size s" by simp_all
    moreover have "length (task_queue s) = nat (queue_max_size s)" using inv(2)
      by (metis nat_int queue_ok_def)
    ultimately show "queue_size s < queue_max_size s" "0 \<le> queue_rear s"
      "nat (queue_rear s) < length (task_queue s)" using \<open>queue_size s < queue_max_size s\<close> by simp_all
  qed
qed


text \<open>C11: No client of \<^verbatim>\<open>threadpool_add\<close> sleeps on \<^verbatim>\<open>queue_not_full\<close> while there is room: in every reachable
  state with a free slot, every client in the middle of its wait has been woken already.\<close>

theorem pool_no_lost_room:
  assumes "reach tp_init (lstep tp_exec) s" "queue_size s < queue_max_size s"
  shows "not_full s = {}"
  using pool_system.inv_reach [OF assms(1)] assms(2)
  by (auto simp: tp_inv_def wait_inv_def queue_full_def)

text \<open>\<^verbatim>\<open>adjust_thread\<close> starts at most ten threads at a time, never more than the maximum allows, and
  writes their ids inside the thread array; nothing but the array, the workers and the live counter
  changes.\<close>

theorem pool_grows_by_at_most_ten:
  assumes "live_thr_num s \<le> max_thr_num s"
  shows "\<exists>n th. n \<le> 10 \<and> live_thr_num s + int n \<le> max_thr_num s \<and> length th = length (threads s)
     \<and> grow_loop 0 0 s = s\<lparr>threads := th, workers := workers s @ replicate n WStart,
                           live_thr_num := live_thr_num s + int n\<rparr>"
proof -
  obtain n th where "grow_loop 0 0 s = s\<lparr>threads := th, workers := workers s @ replicate n WStart,
      live_thr_num := live_thr_num s + int n\<rparr>"
    "length th = length (threads s)" "n \<le> DEFAULT_THREAD_VARY"
    "live_thr_num s \<le> max_thr_num s \<longrightarrow> live_thr_num s + int n \<le> max_thr_num s"
    by (rule grow_loop_from_0)
  with assms show ?thesis by (auto simp: DEFAULT_THREAD_VARY_def)
qed

lemma takeWhile_short:
  "length xs = n \<Longrightarrow> length (takeWhile P xs) < n \<longleftrightarrow> \<not> (\<forall>x \<in> set xs. P x)"
  by (induction xs arbitrary: n) auto

text \<open>\<^verbatim>\<open>threadpool_create\<close> with sane arguments and no failing call returns an initial state of the pool;
  when only its first allocation fails it returns NULL; but whenever a later allocation or an
  initialisation fails, the clean-up in \<^verbatim>\<open>threadpool_free\<close> frees an uninitialised pointer or locks or
  destroys an uninitialised object.\<close>

theorem threadpool_create_outcomes:
  assumes "0 \<le> mn" "mn \<le> mx" "0 \<le> qmax" "length inits = 4"
  shows "threadpool_create mn mx qmax (m1, m2, m3) inits junk n =
      (if \<not> m1 then Ret None
       else if m2 \<and> m3 \<and> (\<forall>r \<in> set inits. r = 0) then Ret (Some (pool_start mn mx qmax junk n))
       else Undef)"
proof -
  let ?k = "length (takeWhile (\<lambda>r. r = 0) inits)"
  have "\<not> list_all (\<lambda>b. b) (replicate ?k True @ replicate (4 - ?k) False)" if "?k < 4"
    using that by (simp add: list_all_iff)
  moreover have "?k < 4 \<longleftrightarrow> \<not> (\<forall>r \<in> set inits. r = 0)"
    using assms(4) by (rule takeWhile_short)
  ultimately show ?thesis using assms(1-3)
    by (cases m1; cases m2; cases m3) (simp_all add: threadpool_create_def threadpool_free_def Let_def)
qed

lemma pool_start_init: "0 \<le> mn \<Longrightarrow> mn \<le> mx \<Longrightarrow> 0 \<le> qmax \<Longrightarrow> tp_init (pool_start mn mx qmax junk n)"
  unfolding tp_init_def by blast

subsection \<open>Counterexamples\<close>

text \<open>What client 0 does to add task \<open>k\<close>; the signal wakes worker \<open>c\<close>.\<close>

definition add_task :: "nat \<Rightarrow> nat option \<Rightarrow> act list" where
  "add_task k c = [Call 0 (Task 1 k), Add 0 None, Add 0 None, Add 0 None, Add 0 c, Return 0]"

definition small_pool :: tp where
  "small_pool = pool_start 1 2 10 (Task 0 0) 1"

lemma small_pool_init: "tp_init small_pool"
  by (simp add: small_pool_def pool_start_init)

lemma small_pool_reach: "run_actions tp_exec as small_pool = Some s \<Longrightarrow> reach tp_init (lstep tp_exec) s"
  by (rule reach_from_init [where init = tp_init]) (simp_all add: small_pool_init)

text \<open>
  Ten tasks make the manager start a second worker; when both workers are about to take the lock
  again, the idle pool makes the manager ask ten threads to exit, and nobody waits for its signals.
  Then both workers go to sleep, a task arrives, and the worker its signal wakes exits instead.
\<close>

definition lost_wakeup_schedule :: "act list" where
  "lost_wakeup_schedule =
     concat (map (\<lambda>k. add_task k None) [0..<10]) @ replicate 5 (Manage None)
     @ replicate 70 (Work 0) @ replicate 16 (Manage None)
     @ replicate 3 (Work 0) @ replicate 3 (Work 1) @ add_task 10 (Some 0) @ replicate 2 (Work 0)"

definition stuck_pool :: "mpc \<Rightarrow> tp" where
  "stuck_pool m =
     \<lparr>min_thr_num = 1, max_thr_num = 2, live_thr_num = 1, busy_thr_num = 0, wait_exit_thr_num = 9,
      queue_front = 0, queue_rear = 1, queue_size = 1, queue_max_size = 10, shutdown = False,
      threads = [1, 2], task_queue = Task 1 10 # map (Task 1) [1..<10],
      lock = None, not_empty = {1}, not_full = {}, workers = [WExit, WWait], clients = [CIdle],
      manager = m, destroyer = DIdle, arrays_freed = False, pool_freed = False, uaf = False,
      added = map (Task 1) [0..<11], taken = map (Task 1) [0..<10], ran = map (Task 1) [0..<10]\<rparr>"

lemma stuck_reached: "run_actions tp_exec lost_wakeup_schedule small_pool = Some (stuck_pool MTop)"
  by code_simp

lemma stuck_pool_reach: "reach tp_init (lstep tp_exec) (stuck_pool MTop)"
  by (rule small_pool_reach [OF stuck_reached])

definition undisturbed :: "act \<Rightarrow> bool" where
  "undisturbed a \<longleftrightarrow> (case a of Work i \<Rightarrow> True | Add j c \<Rightarrow> True | Manage c \<Rightarrow> True | Destroy \<Rightarrow> True
     | Return j \<Rightarrow> True | _ \<Rightarrow> False)"

definition stuck_pcs :: "mpc set" where
  "stuck_pcs = {MTop, MRead, MBusy 1 1, MGrow 1 1 0, MShrink 1 0}"

lemma stuck_stays:
  assumes "m \<in> stuck_pcs" "undisturbed a" "tp_exec a (stuck_pool m) = Some t"
  shows "\<exists>m' \<in> stuck_pcs. t = stuck_pool m'"
proof (cases a)
  case (Work i)
  then consider "i = 0" | "i = 1" using assms(3)
    by (force simp: tp_exec_def stuck_pool_def split: if_splits)
  then show ?thesis using assms(3) Work
    by cases (simp_all add: tp_exec_def stuck_pool_def checked_def worker_step_def)
next
  case (Manage c)
  with assms(1,3) show ?thesis
    by (auto simp: tp_exec_def stuck_pool_def checked_def manager_step_def stuck_pcs_def
        MIN_WAIT_TASK_NUM_def)
qed (use assms in \<open>auto simp: tp_exec_def stuck_pool_def checked_def client_step_def
       destroyer_step_def undisturbed_def split: if_splits\<close>)

lemma stuck_forever:
  assumes "m \<in> stuck_pcs" "list_all undisturbed as" "run_actions tp_exec as (stuck_pool m) = Some t"
  shows "\<exists>m' \<in> stuck_pcs. t = stuck_pool m'"
  using assms
proof (induction as arbitrary: m)
  case (Cons a as)
  then obtain u where "tp_exec a (stuck_pool m) = Some u" "run_actions tp_exec as u = Some t"
    by (auto split: option.splits)
  with Cons stuck_stays [of m a u] show ?case by auto
qed auto

text \<open>C21: The pool can lose a task's wakeup: there is a reachable state, not shut down, with a task in the queue
  and a live worker asleep, from which no schedule ever takes the task out of the queue, unless
  somebody calls into the pool again or a spurious wakeup happens. The cause is that a worker that is
  woken for a task exits when \<^verbatim>\<open>wait_exit_thr_num\<close> is left over from an earlier round.\<close>

theorem pool_loses_wakeup:
  "\<exists>s. reach tp_init (lstep tp_exec) s \<and> \<not> shutdown s \<and> queue_list s = [Task 1 10]
     \<and> live_thr_num s = 1 \<and> not_empty s \<noteq> {}
     \<and> {(queue_list t, ran t, not_empty t) | as t. list_all undisturbed as \<and> run_actions tp_exec as s = Some t}
         = {([Task 1 10], ran s, not_empty s)}"
proof (intro exI conjI equalityI subsetI)
  show "reach tp_init (lstep tp_exec) (stuck_pool MTop)"
    by (rule stuck_pool_reach)
  have q: "queue_list (stuck_pool m) = [Task 1 10]" for m
    by (simp add: stuck_pool_def queue_list_def ring_list_def)
  then show "queue_list (stuck_pool MTop) = [Task 1 10]" by this
  show "\<not> shutdown (stuck_pool MTop)" "live_thr_num (stuck_pool MTop) = 1"
    "not_empty (stuck_pool MTop) \<noteq> {}"
    by (simp_all add: stuck_pool_def)
  let ?here = "([Task 1 10], ran (stuck_pool MTop), not_empty (stuck_pool MTop))"
  have same: "(queue_list (stuck_pool m), ran (stuck_pool m), not_empty (stuck_pool m)) = ?here" for m
    by (simp add: q) (simp add: stuck_pool_def)
  fix x
  { assume "x \<in> {(queue_list t, ran t, not_empty t) | as t. list_all undisturbed as
        \<and> run_actions tp_exec as (stuck_pool MTop) = Some t}"
    then obtain as t where x: "x = (queue_list t, ran t, not_empty t)" and "list_all undisturbed as"
      "run_actions tp_exec as (stuck_pool MTop) = Some t" by blast
    with stuck_forever [of MTop as t] obtain m' where "t = stuck_pool m'"
      by (auto simp: stuck_pcs_def)
    with x same show "x \<in> {?here}" by simp }
  assume "x \<in> {?here}"
  then have "x = (queue_list (stuck_pool MTop), ran (stuck_pool MTop), not_empty (stuck_pool MTop))
      \<and> list_all undisturbed [] \<and> run_actions tp_exec [] (stuck_pool MTop) = Some (stuck_pool MTop)"
    by (simp add: q)
  then show "x \<in> {(queue_list t, ran t, not_empty t) | as t. list_all undisturbed as
      \<and> run_actions tp_exec as (stuck_pool MTop) = Some t}" by blast
qed

definition freed_pool :: tp where
  "freed_pool = the (run_actions tp_exec
     (replicate 3 (Work 0) @ [CallDestroy] @ replicate 5 Destroy @ [Work 0]) small_pool)"

lemma freed_reached: "reach tp_init (lstep tp_exec) freed_pool"
proof (rule small_pool_reach)
  show "run_actions tp_exec (replicate 3 (Work 0) @ [CallDestroy] @ replicate 5 Destroy @ [Work 0])
      small_pool = Some freed_pool" by code_simp
qed

text \<open>\<^verbatim>\<open>threadpool_destroy\<close> returns success while a worker is still inside the pool: a worker that was asleep
  when it was called is woken by the broadcast and then uses the freed mutex and pool.\<close>

theorem pool_destroy_use_after_free:
  "\<exists>s. reach tp_init (lstep tp_exec) s \<and> destroyer s = DRet 0 \<and> uaf s \<and> workers s = [WWait]"
proof (intro exI conjI)
  show "reach tp_init (lstep tp_exec) freed_pool" by (rule freed_reached)
  show "destroyer freed_pool = DRet 0" "uaf freed_pool" "workers freed_pool = [WWait]"
    by code_simp+
qed

text \<open>Use after free needs the destroyer: as long as nobody has called \<^verbatim>\<open>threadpool_destroy\<close>, no schedule
  touches freed memory.\<close>

theorem pool_memory_safe_while_open:
  assumes "reach tp_init (lstep tp_exec) s" "uaf s"
  shows "shutdown s \<and> arrays_freed s"
  using pool_system.inv_reach [OF assms(1)] assms(2) by (auto simp: tp_inv_def stop_inv_def)

text \<open>\<^verbatim>\<open>threadpool_add\<close> reports success for a task it drops: on a pool being shut down it returns 0 although
  the task is neither queued nor run, where the header promises -1.\<close>

theorem pool_add_reports_success_on_shutdown:
  assumes "clients s ! j = CCheck t" "j < length (clients s)" "shutdown s"
  shows "\<exists>s'. client_step c j s = Some s' \<and> clients s' ! j = CRet 0
     \<and> added s' = added s \<and> queue_list s' = queue_list s"
  using assms by (simp add: client_step_def set_c_def queue_list_def)

subsection \<open>Instances\<close>


theorem pool_fifo_witness:
  "map (Task 1) [0..<11] = map (Task 1) [0..<10] @ queue_list (stuck_pool MTop)"
  using pool_fifo [OF stuck_pool_reach] by (simp add: stuck_pool_def)

theorem pool_runs_each_task_once_witness:
  "mset (added (stuck_pool MTop)) =
     mset (map (Task 1) [0..<10]) + in_flight [WExit, WWait] + mset (queue_list (stuck_pool MTop))"
  using pool_runs_each_task_once [OF stuck_pool_reach] by (simp add: stuck_pool_def)

definition storing_pool :: tp where
  "storing_pool = the (run_actions tp_exec [Call 0 (Task 1 7), Add 0 None, Add 0 None, Add 0 None] small_pool)"

lemma storing_reached: "reach tp_init (lstep tp_exec) storing_pool"
proof (rule small_pool_reach)
  show "run_actions tp_exec [Call 0 (Task 1 7), Add 0 None, Add 0 None, Add 0 None] small_pool =
    Some storing_pool" by code_simp
qed

theorem pool_queue_accesses_in_bounds_witness:
  "queue_size storing_pool < queue_max_size storing_pool \<and> 0 \<le> queue_rear storing_pool
     \<and> nat (queue_rear storing_pool) < length (task_queue storing_pool)"
proof -
  have "0 < length (clients storing_pool)" "clients storing_pool ! 0 = CStore (Task 1 7)" by code_simp+
  then show ?thesis
    using pool_queue_accesses_in_bounds [OF storing_reached, of 0 0 "Task 1 7"] by simp
qed


theorem pool_no_lost_room_witness: "not_full (stuck_pool MTop) = {}"
  by (rule pool_no_lost_room [OF stuck_pool_reach]) (simp add: stuck_pool_def)

theorem pool_grows_by_at_most_ten_witness:
  "\<exists>n. n \<le> 10 \<and> live_thr_num (grow_loop 0 0 small_pool) = 1 + int n \<and> 1 + int n \<le> 2"
proof -
  have m: "live_thr_num small_pool = 1" "max_thr_num small_pool = 2"
    by (simp_all add: small_pool_def pool_start_def)
  from pool_grows_by_at_most_ten [of small_pool] m obtain n th where
    "n \<le> 10" "live_thr_num small_pool + int n \<le> max_thr_num small_pool"
    "grow_loop 0 0 small_pool = small_pool\<lparr>threads := th, workers := workers small_pool @ replicate n WStart,
       live_thr_num := live_thr_num small_pool + int n\<rparr>" by auto
  with m show ?thesis by (intro exI [of _ n]) simp
qed

theorem threadpool_create_outcomes_witness:
  "threadpool_create 1 2 3 (True, False, True) [0, 0, 0, 0] (Task 0 0) 1 = Undef"
  using threadpool_create_outcomes [of 1 2 3 "[0, 0, 0, 0]" True False True "Task 0 0" 1] by simp

theorem pool_memory_safe_while_open_witness: "shutdown freed_pool \<and> arrays_freed freed_pool"
proof (rule pool_memory_safe_while_open [OF freed_reached])
  show "uaf freed_pool" by code_simp
qed

theorem pool_add_reports_success_on_shutdown_witness:
  "\<exists>s'. client_step None 0 (small_pool\<lparr>shutdown := True, clients := [CCheck (Task 1 1)]\<rparr>) = Some s'
     \<and> clients s' ! 0 = CRet 0 \<and> added s' = [] \<and> queue_list s' = []"
proof -
  have "queue_list (small_pool\<lparr>shutdown := True, clients := [CCheck (Task 1 1)]\<rparr>) = []"
    "added small_pool = []" by (simp_all add: queue_list_def small_pool_def pool_start_def)
  with pool_add_reports_success_on_shutdown
    [of "small_pool\<lparr>shutdown := True, clients := [CCheck (Task 1 1)]\<rparr>" 0 "Task 1 1" None]
  show ?thesis by simp
qed

end
