(* ===== verification/Wrap.thy ===== *)
theory Wrap
  imports Io
begin

section \<open>The socket wrappers (wrap.c)\<close>

text \<open>
  \<^verbatim>\<open>concurrence_linux/14_thrpoll/wrap.c\<close> (the copy under \<^verbatim>\<open>9_epoll_select\<close> is identical; the
  copies under \<^verbatim>\<open>8_socket\<close> and \<^verbatim>\<open>10_libevent\<close> lack the address-reuse option, \<open>tcp4bind_plain\<close>).
  One definition per function, in the order of the file. Functions that store into a buffer
  of the caller return the bytes stored beside their return value. The static variables of
  \<^verbatim>\<open>my_read\<close> are fields of a record that extends the kernel state.
\<close>

subsection \<open>Setting a socket up\<close>

definition perr_exit :: "string \<Rightarrow> ('z world_scheme, 'a) io" where
  "perr_exit s = exit_with (-1)"

definition Socket :: "nat \<Rightarrow> nat \<Rightarrow> nat \<Rightarrow> ('z world_scheme, int) io" where
  "Socket family type protocol =
     andthen sys_socket (\<lambda>n. if n = -1 then perr_exit ''socket error'' else ret n)"

definition Connect :: "fd \<Rightarrow> sockaddr_in \<Rightarrow> ('z world_scheme, int) io" where
  "Connect fd sa =
     andthen (sys_connect fd sa) (\<lambda>n. if n < 0 then perr_exit ''connect error'' else ret n)"

definition Bind :: "fd \<Rightarrow> sockaddr_in \<Rightarrow> ('z world_scheme, int) io" where
  "Bind fd sa =
     andthen (sys_bind fd sa) (\<lambda>n. if n < 0 then perr_exit ''bind error'' else ret n)"

definition tcp4bind :: "16 word \<Rightarrow> byte list option \<Rightarrow> ('z world_scheme, int) io" where
  "tcp4bind port IP =
     andthen (Socket AF_INET SOCK_STREAM 0) (\<lambda>lfd.
     andthen (case IP of
                None \<Rightarrow> ret INADDR_ANY
              | Some ip \<Rightarrow> (case inet_pton ip of
                              None \<Rightarrow> perr_exit ''tcp4bind->inet_pton error''
                            | Some a \<Rightarrow> ret a)) (\<lambda>s_addr.
     let addr = \<lparr>sin_family = AF_INET, sin_port = htons port, sin_addr = s_addr\<rparr> in
     andthen (sys_set_reuseaddr lfd) (\<lambda>_.
     andthen (Bind lfd addr) (\<lambda>_. ret lfd))))"

text \<open>The version of \<^verbatim>\<open>8_socket/wrap.c\<close>, without \<^verbatim>\<open>SO_REUSEADDR\<close>.\<close>

definition tcp4bind_plain :: "16 word \<Rightarrow> byte list option \<Rightarrow> ('z world_scheme, int) io" where
  "tcp4bind_plain port IP =
     andthen (Socket AF_INET SOCK_STREAM 0) (\<lambda>lfd.
     andthen (case IP of
                None \<Rightarrow> ret INADDR_ANY
              | Some ip \<Rightarrow> (case inet_pton ip of
                              None \<Rightarrow> perr_exit ''tcp4bind->inet_pton error''
                            | Some a \<Rightarrow> ret a)) (\<lambda>s_addr.
     let addr = \<lparr>sin_family = AF_INET, sin_port = htons port, sin_addr = s_addr\<rparr> in
     andthen (Bind lfd addr) (\<lambda>_. ret lfd)))"

definition Listen :: "fd \<Rightarrow> nat \<Rightarrow> ('z world_scheme, int) io" where
  "Listen fd backlog =
     andthen (sys_listen fd backlog) (\<lambda>n. if n < 0 then perr_exit ''listen error'' else ret n)"

definition Close :: "fd \<Rightarrow> ('z world_scheme, int) io" where
  "Close fd =
     andthen (sys_close fd) (\<lambda>n. if n = -1 then perr_exit ''close error'' else ret n)"

subsection \<open>Accept\<close>

text \<open>
  The jump back to \<open>again\<close> is the recursive call; each one has used up an entry of the listener's
  script, which is the termination argument.
\<close>

function Accept :: "fd \<Rightarrow> ('z world_scheme, int) io" where
  "Accept fd w =
     andthen (sys_accept fd) (\<lambda>cld w'.
       if cld < 0 then
         (if cerrno w' = ECONNABORTED \<or> cerrno w' = EINTR then Accept fd w'
          else perr_exit ''accept error'' w')
       else ret cld w') w"
  by pat_completeness auto
termination
  by (relation "measure (\<lambda>(fd, w). length (accq w fd))")
     (auto simp: sys_accept_def Let_def split: if_splits list.splits acc_res.splits)

declare Accept.simps [simp del]

subsection \<open>Read and Write\<close>

text \<open>
  \<^verbatim>\<open>if ((n == read(fd, ptr, nbytes)) == -1)\<close>: the local \<^verbatim>\<open>n\<close> is compared, never assigned, so its
  indeterminate initial value is the argument \<open>n\<close>. The result of a comparison is 0 or 1.
\<close>

definition c_eq :: "int \<Rightarrow> int \<Rightarrow> int" where
  "c_eq a b = (if a = b then 1 else 0)"

function Read :: "int \<Rightarrow> fd \<Rightarrow> nat \<Rightarrow> ('z world_scheme, int \<times> byte list) io" where
  "Read n fd nbytes w =
     andthen (sys_read fd nbytes) (\<lambda>r w'.
       if c_eq n (fst r) = -1 then
         (if cerrno w' = EINTR then Read n fd nbytes w' else ret (-1, snd r) w')
       else ret (n, snd r) w') w"
  by pat_completeness auto
termination
  by (relation "{}") (auto simp: c_eq_def split: if_splits)

function Write :: "int \<Rightarrow> fd \<Rightarrow> byte list \<Rightarrow> ('z world_scheme, int) io" where
  "Write n fd bs w =
     andthen (sys_write fd bs) (\<lambda>r w'.
       if c_eq n r = -1 then
         (if cerrno w' = EINTR then Write n fd bs w' else ret (-1) w')
       else ret n w') w"
  by pat_completeness auto
termination
  by (relation "{}") (auto simp: c_eq_def split: if_splits)

declare Read.simps [simp del] Write.simps [simp del]

subsection \<open>Readn and Writen\<close>

text \<open>
  The loop \<^verbatim>\<open>while (nleft > 0)\<close>; \<open>got\<close> holds the bytes stored at \<^verbatim>\<open>vptr\<close> so far, so that
  \<^verbatim>\<open>ptr\<close> is \<^verbatim>\<open>vptr + length got\<close>. An iteration either gets bytes or has used up an entry of the script.
\<close>

function readn_loop :: "fd \<Rightarrow> nat \<Rightarrow> nat \<Rightarrow> byte list \<Rightarrow> ('z world_scheme, int \<times> byte list) io" where
  "readn_loop fd n nleft got w =
     (if nleft > 0 then
        andthen (sys_read fd nleft) (\<lambda>r w'.
          if fst r < 0 then
            (if cerrno w' = EINTR then readn_loop fd n nleft got w'
             else ret (-1, got) w')
          else if fst r = 0 then ret (int n - int nleft, got) w'
          else readn_loop fd n (nleft - nat (fst r)) (got @ snd r) w') w
      else ret (int n - int nleft, got) w)"
  by pat_completeness auto
termination
  by (relation "measure (\<lambda>(fd, n, nleft, got, w). nleft + length (rdq w fd))")
     (auto dest: sys_read_fail_consumes sys_read_script_le sys_read_len(2)
       simp: nat_less_iff le_less_trans add_less_le_mono)

definition Readn :: "fd \<Rightarrow> nat \<Rightarrow> ('z world_scheme, int \<times> byte list) io" where
  "Readn fd n = readn_loop fd n n []"

lemma sys_write_progress:
  assumes "sys_write fd ptr w = (Ret x, t)" "x > 0" "ptr \<noteq> []"
  shows "length ptr - nat x + length (wrq t fd) < length ptr + length (wrq w fd)"
proof -
  have "length ptr - nat x < length ptr" using assms(2,3) by simp
  moreover have "length (wrq t fd) \<le> length (wrq w fd)"
    using assms(1) by (rule sys_write_script_le)
  ultimately show ?thesis by (rule add_less_le_mono)
qed

function writen_loop :: "fd \<Rightarrow> nat \<Rightarrow> byte list \<Rightarrow> ('z world_scheme, int) io" where
  "writen_loop fd n ptr w =
     (if ptr \<noteq> [] then
        andthen (sys_write fd ptr) (\<lambda>nwritten w'.
          if nwritten < 0 then
            (if cerrno w' = EINTR then writen_loop fd n ptr w' else ret (-1) w')
          else if nwritten = 0 then ret (int n - int (length ptr)) w'
          else writen_loop fd n (drop (nat nwritten) ptr) w') w
      else ret (int n - int (length ptr)) w)"
  by pat_completeness auto
termination
  by (relation "measure (\<lambda>(fd, n, ptr, w). length ptr + length (wrq w fd))")
     (auto dest: sys_write_fail_consumes sys_write_progress)

text \<open>\<open>buf\<close> is the array at \<^verbatim>\<open>vptr\<close>, of which the first \<open>n\<close> bytes are written.\<close>

definition Writen :: "fd \<Rightarrow> byte list \<Rightarrow> nat \<Rightarrow> ('z world_scheme, int) io" where
  "Writen fd buf n = writen_loop fd n (take n buf)"

declare readn_loop.simps [simp del] writen_loop.simps [simp del]

subsection \<open>my_read and Readline\<close>

text \<open>
  The static variables of \<^verbatim>\<open>my_read\<close>: one buffer for the whole process, whatever the
  descriptor. \<open>read_ptr\<close> is the offset of the C pointer in \<open>read_buf\<close>.
\<close>

record rl_world = world +
  read_cnt :: int
  read_ptr :: nat
  read_buf :: "byte list"

text \<open>The part of \<^verbatim>\<open>my_read\<close> under \<^verbatim>\<open>if (read_cnt <= 0)\<close>, from the label \<open>again\<close>; it returns 1 to fall through.\<close>

function my_fill :: "fd \<Rightarrow> ('z rl_world_scheme, int) io" where
  "my_fill fd w =
     andthen (sys_read fd 100) (\<lambda>r w1.
       let w2 = w1\<lparr>read_cnt := fst r,
                   read_buf := snd r @ drop (length (snd r)) (read_buf w1)\<rparr>
       in if fst r < 0 then
            (if cerrno w2 = EINTR then my_fill fd w2 else ret (-1) w2)
          else if fst r = 0 then ret 0 w2
          else ret 1 (w2\<lparr>read_ptr := 0\<rparr>)) w"
  by pat_completeness auto
termination
  by (relation "measure (\<lambda>(fd, w). length (rdq w fd))")
     (auto dest: sys_read_fail_consumes)

declare my_fill.simps [simp del]

definition my_take :: "('z rl_world_scheme, int \<times> byte) io" where
  "my_take w =
     (if read_ptr w < length (read_buf w)
      then (Ret (1, read_buf w ! read_ptr w),
            w\<lparr>read_cnt := read_cnt w - 1, read_ptr := read_ptr w + 1\<rparr>)
      else (Undef, w))"

definition my_read :: "fd \<Rightarrow> ('z rl_world_scheme, int \<times> byte) io" where
  "my_read fd =
     andthen (gets read_cnt) (\<lambda>cnt.
       if cnt \<le> 0 then
         andthen (my_fill fd) (\<lambda>rc. if rc = 1 then my_take else ret (rc, NUL))
       else my_take)"

text \<open>
  The loop of \<^verbatim>\<open>Readline\<close> over any source of single bytes; \<open>got\<close> is what has been stored at
  \<^verbatim>\<open>vptr\<close>. The result is the return value and the string stored (its NUL excluded).
\<close>

function readline_loop ::
  "('s, int \<times> byte) io \<Rightarrow> nat \<Rightarrow> nat \<Rightarrow> byte list \<Rightarrow> ('s, int \<times> byte list) io" where
  "readline_loop pull n maxlen got s =
     (if n < maxlen then
        andthen pull (\<lambda>r s'.
          if fst r = 1 then
            (if snd r = CHR 0x0A then ret (int n, got @ [snd r]) s'
             else readline_loop pull (Suc n) maxlen (got @ [snd r]) s')
          else if fst r = 0 then ret (int n - 1, got) s'
          else ret (-1, got) s') s
      else ret (int n, got) s)"
  by pat_completeness auto
termination
  by (relation "measure (\<lambda>(pull, n, maxlen, got, s). maxlen - n)") auto

declare readline_loop.simps [simp del]

definition Readline :: "fd \<Rightarrow> nat \<Rightarrow> ('z rl_world_scheme, int \<times> byte list) io" where
  "Readline fd maxlen = readline_loop (my_read fd) 1 maxlen []"

subsection \<open>Readn and Writen: every byte, whatever the segmentation\<close>

lemma readn_loop_clean:
  assumes "clean fd w" "length got + nleft = n"
  shows "\<exists>w'. readn_loop fd n nleft got w =
           (Ret (int (length got + min nleft (length (arriving fd w))),
                 got @ take nleft (arriving fd w)), w')
         \<and> (nleft \<le> length (arriving fd w) \<longrightarrow>
              clean fd w' \<and> arriving fd w' = drop nleft (arriving fd w))"
  using assms
proof (induction fd n nleft got w rule: readn_loop.induct)
  case (1 fd n nleft got w)
  show ?case
  proof (cases "nleft > 0")
    case False
    with "1.prems" show ?thesis by (simp add: readn_loop.simps)
  next
    case True
    from "1.prems"(1) True show ?thesis
    proof (cases rule: sys_read_clean)
      case (eintr w')
      from "1.IH"(1) [OF True eintr(1)] eintr "1.prems"(2)
      obtain w'' where "readn_loop fd n nleft got w' =
          (Ret (int (length got + min nleft (length (arriving fd w'))),
                got @ take nleft (arriving fd w')), w'')"
        "nleft \<le> length (arriving fd w') \<longrightarrow>
           clean fd w'' \<and> arriving fd w'' = drop nleft (arriving fd w')"
        by auto
      with eintr True show ?thesis by (simp add: readn_loop.simps [of fd n nleft got w])
    next
      case (data bs w')
      have len: "length (got @ bs) + (nleft - length bs) = n" using data(3) "1.prems"(2) by simp
      from "1.IH"(2) [OF True data(1)] data len
      obtain w'' where "readn_loop fd n (nleft - length bs) (got @ bs) w' =
          (Ret (int (length (got @ bs) + min (nleft - length bs) (length (arriving fd w'))),
                (got @ bs) @ take (nleft - length bs) (arriving fd w')), w'')"
        "nleft - length bs \<le> length (arriving fd w') \<longrightarrow>
           clean fd w'' \<and> arriving fd w'' = drop (nleft - length bs) (arriving fd w')"
        by auto
      with data True show ?thesis
        by (auto simp: readn_loop.simps [of fd n nleft got w])
    next
      case (eof w')
      with True "1.prems"(2) show ?thesis
        by (auto simp: readn_loop.simps [of fd n nleft got w])
    qed
  qed
qed

lemma writen_loop_writable:
  assumes "fd \<in> set (opened w)" "writable (wrq w fd)"
  shows "\<exists>w'. writen_loop fd n ptr w = (Ret (int n), w')
           \<and> sent_on fd (trace w') = sent_on fd (trace w) @ ptr"
  using assms
proof (induction fd n ptr w rule: writen_loop.induct)
  case (1 fd n ptr w)
  show ?case
  proof (cases "ptr \<noteq> []")
    case False
    then show ?thesis by (simp add: writen_loop.simps)
  next
    case True
    from "1.prems" True show ?thesis
    proof (cases rule: sys_write_writable)
      case (eintr w')
      from "1.IH"(1) [OF True eintr(1)] eintr
      obtain w'' where "writen_loop fd n ptr w' = (Ret (int n), w'')"
        "sent_on fd (trace w'') = sent_on fd (trace w') @ ptr" by auto
      with eintr True show ?thesis by (simp add: writen_loop.simps [of fd n ptr w])
    next
      case (some k w')
      from "1.IH"(2) [OF True some(1)] some
      obtain w'' where "writen_loop fd n (drop k ptr) w' = (Ret (int n), w'')"
        "sent_on fd (trace w'') = sent_on fd (trace w') @ drop k ptr" by auto
      with some True show ?thesis by (simp add: writen_loop.simps [of fd n ptr w])
    qed
  qed
qed

subsection \<open>Readline over a byte source\<close>

text \<open>
  What \<^verbatim>\<open>Readline\<close> needs of the function it gets its bytes from: as long as the source is in a good
  state, each call hands out the next pending byte with return value 1, and 0 once there is none.
\<close>

locale byte_source =
  fixes pull :: "('s, int \<times> byte) io"
    and pend :: "'s \<Rightarrow> byte list"
    and good :: "'s \<Rightarrow> bool"
  assumes pull_byte: "good s \<Longrightarrow> pend s = b # bs \<Longrightarrow>
      \<exists>s'. pull s = (Ret (1, b), s') \<and> pend s' = bs \<and> good s'"
    and pull_end: "good s \<Longrightarrow> pend s = [] \<Longrightarrow> \<exists>s' c. pull s = (Ret (0, c), s')"

text \<open>The first line of a byte sequence, newline included, cut after \<open>k\<close> bytes.\<close>

fun line_of :: "nat \<Rightarrow> byte list \<Rightarrow> byte list" where
  "line_of 0 bs = []"
| "line_of (Suc k) [] = []"
| "line_of (Suc k) (b # bs) = (if b = CHR 0x0A then [b] else b # line_of k bs)"

text \<open>The line ended before the buffer was full: by its newline, or by the end of the input.\<close>

definition line_ended :: "nat \<Rightarrow> byte list \<Rightarrow> bool" where
  "line_ended k bs \<longleftrightarrow> CHR 0x0A \<in> set (line_of k bs) \<or> length (line_of k bs) < k"

lemma line_of_prefix: "\<exists>r. bs = line_of k bs @ r"
  by (induction k bs rule: line_of.induct) auto

lemma length_line_of: "length (line_of k bs) \<le> k"
  by (induction k bs rule: line_of.induct) auto

lemma line_ended_simps [simp]:
  "line_ended 0 bs = False"
  "line_ended (Suc k) [] = True"
  "line_ended (Suc k) (b # bs) = (b = CHR 0x0A \<or> line_ended k bs)"
  by (auto simp: line_ended_def)

context byte_source
begin

lemma readline_loop_line:
  assumes "good s"
  shows "\<exists>s'. readline_loop pull n (n + k) got s =
           (Ret (int n + int (length (line_of k (pend s))) - (if line_ended k (pend s) then 1 else 0),
                 got @ line_of k (pend s)), s')
         \<and> (CHR 0x0A \<in> set (line_of k (pend s)) \<or> length (line_of k (pend s)) = k \<longrightarrow>
              good s' \<and> pend s' = drop (length (line_of k (pend s))) (pend s))"
  using assms
proof (induction k arbitrary: n got s)
  case 0
  then show ?case by (simp add: readline_loop.simps [of pull n n got s])
next
  case (Suc k)
  show ?case
  proof (cases "pend s")
    case Nil
    with pull_end [OF Suc.prems] obtain s' c where "pull s = (Ret (0, c), s')" by blast
    with Nil show ?thesis by (simp add: readline_loop.simps [of pull n "Suc (n + k)" got s])
  next
    case (Cons b bs)
    with pull_byte [OF Suc.prems] obtain s'
      where s': "pull s = (Ret (1, b), s')" "pend s' = bs" "good s'" by blast
    show ?thesis
    proof (cases "b = CHR 0x0A")
      case True
      with s' Cons show ?thesis by (simp add: readline_loop.simps [of pull n "Suc (n + k)" got s])
    next
      case False
      from Suc.IH [OF s'(3), of "Suc n" "got @ [b]"] s'(2)
      obtain s'' where "readline_loop pull (Suc n) (Suc n + k) (got @ [b]) s' =
          (Ret (int (Suc n) + int (length (line_of k bs)) - (if line_ended k bs then 1 else 0),
                (got @ [b]) @ line_of k bs), s'')"
        "CHR 0x0A \<in> set (line_of k bs) \<or> length (line_of k bs) = k \<longrightarrow>
           good s'' \<and> pend s'' = drop (length (line_of k bs)) bs"
        by auto
      with s' Cons False show ?thesis
        by (auto simp: readline_loop.simps [of pull n "Suc (n + k)" got s])
    qed
  qed
qed

end

subsection \<open>Two byte sources: the buffered my_read, and one-byte reads\<close>

definition rl_good :: "fd \<Rightarrow> 'z rl_world_scheme \<Rightarrow> bool" where
  "rl_good fd w \<longleftrightarrow> clean fd w \<and> (read_cnt w > 0 \<longrightarrow> read_ptr w + nat (read_cnt w) \<le> length (read_buf w))"

definition rl_pend :: "fd \<Rightarrow> 'z rl_world_scheme \<Rightarrow> byte list" where
  "rl_pend fd w = take (nat (read_cnt w)) (drop (read_ptr w) (read_buf w)) @ arriving fd w"

lemma my_fill_clean:
  assumes "clean fd w"
  shows "(arriving fd w = [] \<longrightarrow> (\<exists>w'. my_fill fd w = (Ret 0, w'))) \<and>
         (arriving fd w \<noteq> [] \<longrightarrow>
           (\<exists>w'. my_fill fd w = (Ret 1, w') \<and> rl_good fd w' \<and> read_cnt w' > 0
                \<and> rl_pend fd w' = arriving fd w))"
  using assms
proof (induction fd w rule: my_fill.induct)
  case (1 fd w)
  from "1.prems" have "clean fd w" "0 < (100::nat)" by simp_all
  then show ?case
  proof (cases rule: sys_read_clean)
    case (eintr w')
    let ?w2 = "w'\<lparr>read_cnt := -1, read_buf := read_buf w'\<rparr>"
    have unf: "my_fill fd w = my_fill fd ?w2"
      using eintr by (subst my_fill.simps) (simp add: Let_def)
    have "clean fd ?w2" "arriving fd ?w2 = arriving fd w"
      using eintr by (simp_all add: clean_def arriving_def)
    with "1.IH" [OF eintr(1) refl] eintr unf show ?thesis by simp
  next
    case (data bs w')
    let ?w2 = "w'\<lparr>read_cnt := int (length bs),
        read_buf := bs @ drop (length bs) (read_buf w'), read_ptr := 0\<rparr>"
    have unf: "my_fill fd w = (Ret 1, ?w2)"
      using data by (subst my_fill.simps) (simp add: Let_def)
    have "rl_good fd ?w2" "rl_pend fd ?w2 = arriving fd w" "read_cnt ?w2 > 0"
      using data by (simp_all add: rl_good_def rl_pend_def clean_def arriving_def)
    moreover have "arriving fd w \<noteq> []" using data by simp
    ultimately show ?thesis using unf by simp
  next
    case (eof w')
    then have "my_fill fd w = (Ret 0, w'\<lparr>read_cnt := 0, read_buf := read_buf w'\<rparr>)"
      by (simp add: my_fill.simps [of fd w] Let_def)
    with eof show ?thesis by simp
  qed
qed

lemma my_take_pend:
  assumes "rl_good fd w" "read_cnt w > 0"
  shows "\<exists>b w'. my_take w = (Ret (1, b), w') \<and> rl_pend fd w = b # rl_pend fd w' \<and> rl_good fd w'"
proof -
  have in_buf: "read_ptr w + nat (read_cnt w) \<le> length (read_buf w)" and pos: "nat (read_cnt w) > 0"
    using assms by (auto simp: rl_good_def)
  then have less: "read_ptr w < length (read_buf w)" by linarith
  let ?w' = "w\<lparr>read_cnt := read_cnt w - 1, read_ptr := read_ptr w + 1\<rparr>"
  have "my_take w = (Ret (1, read_buf w ! read_ptr w), ?w')"
    using less by (simp add: my_take_def)
  moreover have "rl_pend fd w = read_buf w ! read_ptr w # rl_pend fd ?w'"
    using less pos Cons_nth_drop_Suc [OF less, symmetric]
    by (cases "nat (read_cnt w)")
       (auto simp: rl_pend_def arriving_def nat_diff_distrib)
  moreover have "rl_good fd ?w'"
    using assms by (auto simp: rl_good_def clean_def)
  ultimately show ?thesis by blast
qed

lemma my_read_pull:
  assumes "rl_good fd w"
  shows "(rl_pend fd w = [] \<longrightarrow> (\<exists>w'. my_read fd w = (Ret (0, NUL), w'))) \<and>
         (\<forall>b bs. rl_pend fd w = b # bs \<longrightarrow>
           (\<exists>w'. my_read fd w = (Ret (1, b), w') \<and> rl_pend fd w' = bs \<and> rl_good fd w'))"
proof (cases "read_cnt w \<le> 0")
  case False
  with my_take_pend [OF assms] obtain b w' where
    "my_take w = (Ret (1, b), w')" "rl_pend fd w = b # rl_pend fd w'" "rl_good fd w'"
    by auto
  with False show ?thesis by (auto simp: my_read_def)
next
  case True
  then have pend: "rl_pend fd w = arriving fd w" by (simp add: rl_pend_def)
  have "clean fd w" using assms by (simp add: rl_good_def)
  note fill = my_fill_clean [OF this]
  show ?thesis
  proof (cases "arriving fd w = []")
    case True
    with fill \<open>read_cnt w \<le> 0\<close> pend show ?thesis by (auto simp: my_read_def)
  next
    case False
    with fill obtain w' where w': "my_fill fd w = (Ret 1, w')" "rl_good fd w'" "read_cnt w' > 0"
      "rl_pend fd w' = arriving fd w" by blast
    from my_take_pend [OF w'(2,3)] obtain b w'' where
      t: "my_take w' = (Ret (1, b), w'')" "rl_pend fd w' = b # rl_pend fd w''" "rl_good fd w''"
      by blast
    from w'(1) t(1) True have "my_read fd w = (Ret (1, b), w'')" by (simp add: my_read_def)
    with t w'(4) pend show ?thesis by auto
  qed
qed

interpretation buffered: byte_source "my_read fd" "rl_pend fd" "rl_good fd" for fd
  by unfold_locales (use my_read_pull in blast)+

text \<open>The same interface offered by reading the descriptor one byte at a time, without a buffer.\<close>

function read_byte :: "fd \<Rightarrow> ('z world_scheme, int \<times> byte) io" where
  "read_byte fd w =
     andthen (sys_read fd 1) (\<lambda>r w'.
       if fst r < 0 then (if cerrno w' = EINTR then read_byte fd w' else ret (-1, NUL) w')
       else if fst r = 0 then ret (0, NUL) w'
       else ret (1, hd (snd r)) w') w"
  by pat_completeness auto
termination
  by (relation "measure (\<lambda>(fd, w). length (rdq w fd))") (auto dest: sys_read_fail_consumes)

declare read_byte.simps [simp del]

lemma read_byte_pull:
  assumes "clean fd w"
  shows "(arriving fd w = [] \<longrightarrow> (\<exists>w'. read_byte fd w = (Ret (0, NUL), w'))) \<and>
         (\<forall>b bs. arriving fd w = b # bs \<longrightarrow>
           (\<exists>w'. read_byte fd w = (Ret (1, b), w') \<and> arriving fd w' = bs \<and> clean fd w'))"
  using assms
proof (induction fd w rule: read_byte.induct)
  case (1 fd w)
  from "1.prems" have "clean fd w" "0 < (1::nat)" by simp_all
  then show ?case
  proof (cases rule: sys_read_clean)
    case (eintr w')
    with "1.IH" [OF eintr(1)] show ?thesis by (simp add: read_byte.simps [of fd w])
  next
    case (data bs w')
    then obtain b where "bs = [b]" by (cases bs) auto
    with data show ?thesis by (simp add: read_byte.simps [of fd w])
  next
    case (eof w')
    then show ?thesis by (simp add: read_byte.simps [of fd w])
  qed
qed

interpretation unbuffered: byte_source "read_byte fd" "arriving fd" "clean fd" for fd
  by unfold_locales (use read_byte_pull in blast)+

subsection \<open>Properties\<close>

text \<open>
  C12: \<^verbatim>\<open>Readn\<close> returns exactly the next \<open>n\<close> bytes of a connection, or all that is left before
  the end of file, however the data is segmented and however often \<^verbatim>\<open>read\<close> is interrupted; when
  it got all \<open>n\<close>, the rest of the stream is still there for the next call.
\<close>

theorem Readn_any_segmentation:
  assumes "clean fd w"
  shows "\<exists>w'. Readn fd n w =
           (Ret (int (min n (length (arriving fd w))), take n (arriving fd w)), w')
         \<and> (n \<le> length (arriving fd w) \<longrightarrow>
              clean fd w' \<and> arriving fd w' = drop n (arriving fd w))"
  using readn_loop_clean [OF assms, of "[]" n n] by (simp add: Readn_def)

text \<open>
  C13: \<^verbatim>\<open>Writen\<close> hands every byte of its buffer to the kernel exactly once and in order and returns
  \<open>n\<close>, however few bytes each \<^verbatim>\<open>write\<close> takes and however often it is interrupted.
\<close>

theorem Writen_sends_all:
  assumes "fd \<in> set (opened w)" "writable (wrq w fd)"
  shows "\<exists>w'. Writen fd buf n w = (Ret (int n), w')
           \<and> sent_on fd (trace w') = sent_on fd (trace w) @ take n buf"
  using writen_loop_writable [OF assms, of n "take n buf"] by (simp add: Writen_def)

text \<open>
  \<^verbatim>\<open>Readline\<close> stores the first line of the pending bytes, cut to what fits beside the NUL. It
  returns the length of the string when the line ended, and one more than the length of
  the string when the buffer filled up first.
\<close>

theorem Readline_stores_line:
  assumes "rl_good fd w" "0 < maxlen"
  shows "\<exists>w'. Readline fd maxlen w =
           (Ret (int (length (line_of (maxlen - 1) (rl_pend fd w)))
                   + (if line_ended (maxlen - 1) (rl_pend fd w) then 0 else 1),
                 line_of (maxlen - 1) (rl_pend fd w)), w')"
  using buffered.readline_loop_line [OF assms(1), of 1 "maxlen - 1" "[]"] assms(2)
  by (auto simp: Readline_def)

text \<open>
  C14: Buffering in \<^verbatim>\<open>my_read\<close> cannot be seen by the caller of \<^verbatim>\<open>Readline\<close>: it returns what the same loop
  over unbuffered one-byte reads returns on a connection with the same pending bytes.
\<close>

theorem Readline_buffering_invisible:
  assumes "rl_good fd w" "clean fd v" "arriving fd v = rl_pend fd w" "0 < maxlen"
  shows "fst (Readline fd maxlen w) = fst (readline_loop (read_byte fd) 1 maxlen [] v)"
  using buffered.readline_loop_line [OF assms(1), of 1 "maxlen - 1" "[]"]
    unbuffered.readline_loop_line [OF assms(2), of 1 "maxlen - 1" "[]"] assms(3,4)
  by (auto simp: Readline_def)

text \<open>
  \<^verbatim>\<open>Read\<close> compares its uninitialised local with the result of \<^verbatim>\<open>read\<close> instead of assigning it: it
  returns whatever that local held, for every result of the system call, errors and
  interruptions included, and never retries.
\<close>

theorem Read_returns_uninitialised:
  assumes "sys_read fd nbytes w = (Ret r, w')"
  shows "Read n fd nbytes w = (Ret (n, snd r), w')"
  using assms by (simp add: Read.simps [of n fd nbytes w] c_eq_def)

text \<open>The bytes \<^verbatim>\<open>my_read\<close> has buffered, whatever descriptor they came from.\<close>

definition leftover :: "'z rl_world_scheme \<Rightarrow> byte list" where
  "leftover w = take (nat (read_cnt w)) (drop (read_ptr w) (read_buf w))"

lemma my_read_leftover:
  assumes "leftover w = b # bs"
  shows "\<exists>w'. my_read fd w = (Ret (1, b), w') \<and> leftover w' = bs \<and> rdq w' = rdq w"
proof -
  have pos: "read_cnt w > 0" using assms by (cases "read_cnt w > 0") (auto simp: leftover_def)
  have less: "read_ptr w < length (read_buf w)" using assms
    by (cases "read_ptr w < length (read_buf w)") (auto simp: leftover_def)
  obtain k where k: "nat (read_cnt w) = Suc k" using pos by (cases "nat (read_cnt w)") auto
  then have "nat (read_cnt w - 1) = k" by linarith
  with pos less k assms Cons_nth_drop_Suc [OF less, symmetric] show ?thesis
    by (auto simp: my_read_def my_take_def leftover_def)
qed

lemma readline_leftover:
  assumes "leftover w = l @ [CHR 0x0A] @ r" "CHR 0x0A \<notin> set l" "n + length l < maxlen"
  shows "\<exists>w'. readline_loop (my_read fd) n maxlen got w =
           (Ret (int (n + length l), got @ l @ [CHR 0x0A]), w') \<and> rdq w' = rdq w"
  using assms
proof (induction l arbitrary: w n got)
  case Nil
  then obtain w' where "my_read fd w = (Ret (1, CHR 0x0A), w')" "rdq w' = rdq w"
    using my_read_leftover [of w "CHR 0x0A" r fd] by auto
  with Nil.prems(3) show ?case by (auto simp: readline_loop.simps [of _ n])
next
  case (Cons b l)
  then obtain w1 where w1: "my_read fd w = (Ret (1, b), w1)" "rdq w1 = rdq w"
    "leftover w1 = l @ [CHR 0x0A] @ r"
    using my_read_leftover [of w b "l @ [CHR 0x0A] @ r" fd] by auto
  with Cons.IH [of w1 "Suc n" "got @ [b]"] Cons.prems obtain w2 where
    "readline_loop (my_read fd) (Suc n) maxlen (got @ [b]) w1 =
      (Ret (int (Suc n + length l), (got @ [b]) @ l @ [CHR 0x0A]), w2)" "rdq w2 = rdq w1" by auto
  with w1 Cons.prems(2,3) show ?case by (auto simp: readline_loop.simps [of _ n])
qed

text \<open>
  The buffer of \<^verbatim>\<open>my_read\<close> belongs to the process, not to a connection: while it holds a line left over
  from one connection, \<^verbatim>\<open>Readline\<close> on any other descriptor, open or not, returns that line and
  reads nothing.
\<close>

theorem Readline_mixes_connections:
  assumes "leftover w = l @ [CHR 0x0A] @ r" "CHR 0x0A \<notin> set l" "length l + 1 < maxlen"
  shows "\<exists>w'. Readline fd maxlen w = (Ret (int (length l) + 1, l @ [CHR 0x0A]), w') \<and> rdq w' = rdq w"
  using readline_leftover [OF assms(1,2), of 1 maxlen fd "[]"] assms(3)
  by (simp add: Readline_def add.commute)

text \<open>All \<^verbatim>\<open>Accept\<close> does: it opens a new connection, or gives up, or waits.\<close>

lemma Accept_cases:
  obtains
    (conn) c q e where "Accept fd w = (Ret c, w\<lparr>accq := (accq w)(fd := q), cerrno := e,
        opened := c # opened w, nonblk := (nonblk w)(c := False), ofile := (ofile w)(c := None)\<rparr>)"
      "0 \<le> c" "c \<notin> set (opened w)"
  | (stop) r q e where "Accept fd w = (r, w\<lparr>accq := (accq w)(fd := q), cerrno := e\<rparr>)"
      "r = Exit (-1) \<or> r = Blocked"
proof -
  have "(\<exists>c q e. Accept fd w = (Ret c, w\<lparr>accq := (accq w)(fd := q), cerrno := e,
          opened := c # opened w, nonblk := (nonblk w)(c := False), ofile := (ofile w)(c := None)\<rparr>)
        \<and> 0 \<le> c \<and> c \<notin> set (opened w))
      \<or> (\<exists>r q e. Accept fd w = (r, w\<lparr>accq := (accq w)(fd := q), cerrno := e\<rparr>)
        \<and> (r = Exit (-1) \<or> r = Blocked))"
  proof (induction fd w rule: Accept.induct)
    case (1 fd w)
    consider (closed) "fd \<notin> set (opened w)" | (empty) "fd \<in> set (opened w)" "accq w fd = []"
      | (c) c q where "fd \<in> set (opened w)" "accq w fd = AConn c # q"
      | (f) e q where "fd \<in> set (opened w)" "accq w fd = AFail e # q"
      by (cases "fd \<in> set (opened w)"; cases "accq w fd" rule: list.exhaust; metis acc_res.exhaust)
    then show ?case
    proof cases
      case closed
      then have "Accept fd w = (Exit (-1), w\<lparr>accq := (accq w)(fd := accq w fd), cerrno := EBADF\<rparr>)"
        by (simp add: Accept.simps [of fd w] sys_accept_def perr_exit_def)
      then show ?thesis by blast
    next
      case empty
      have "Accept fd w = (Blocked, w\<lparr>accq := (accq w)(fd := accq w fd), cerrno := cerrno w\<rparr>)
          \<or> Accept fd w = (Exit (-1), w\<lparr>accq := (accq w)(fd := accq w fd), cerrno := EAGAIN\<rparr>)"
        using empty
        by (cases "nonblk w fd")
           (simp_all add: Accept.simps [of fd w] sys_accept_def perr_exit_def fun_upd_idem)
      then show ?thesis by blast
    next
      case c
      have "Accept fd w = (Ret (new_fd c (opened w)), w\<lparr>accq := (accq w)(fd := q), cerrno := cerrno w,
          opened := new_fd c (opened w) # opened w, nonblk := (nonblk w)(new_fd c (opened w) := False),
          ofile := (ofile w)(new_fd c (opened w) := None)\<rparr>)"
        using c by (simp add: Accept.simps [of fd w] sys_accept_def Let_def)
      then show ?thesis by (metis new_fd_props(1,2))
    next
      case f
      let ?w1 = "w\<lparr>accq := (accq w)(fd := q), cerrno := e\<rparr>"
      have step: "sys_accept fd w = (Ret (-1), ?w1)" using f by (simp add: sys_accept_def)
      show ?thesis
      proof (cases "e = ECONNABORTED \<or> e = EINTR")
        case True
        then have "Accept fd w = Accept fd ?w1" using step by (simp add: Accept.simps [of fd w])
        with "1.IH" [OF step] True show ?thesis by (simp del: fun_upd_apply)
      next
        case False
        then have "Accept fd w = (Exit (-1), ?w1)"
          using step by (simp add: Accept.simps [of fd w] perr_exit_def)
        then show ?thesis by blast
      qed
    qed
  qed
  then show thesis using conn stop by blast
qed

lemma Accept_transient_step:
  assumes "fd \<in> set (opened w)" "accq w fd = AFail e # q" "e \<in> {EINTR, ECONNABORTED}"
  shows "Accept fd w = Accept fd (w\<lparr>accq := (accq w)(fd := q), cerrno := e\<rparr>)"
  using assms by (auto simp: Accept.simps [of fd w] sys_accept_def)

text \<open>
  \<^verbatim>\<open>Accept\<close> gets past any number of aborted connections and interrupting signals to the next
  connection, which it returns open and in blocking mode, leaving the later ones queued.
\<close>

theorem Accept_skips_transient:
  assumes "fd \<in> set (opened w)" "accq w fd = map AFail es @ AConn c # q"
    "set es \<subseteq> {EINTR, ECONNABORTED}" "0 \<le> c" "c \<notin> set (opened w)"
  shows "\<exists>w'. Accept fd w = (Ret c, w') \<and> accq w' fd = q \<and> opened w' = c # opened w
           \<and> \<not> nonblk w' c"
  using assms
proof (induction es arbitrary: w)
  case Nil
  then show ?case by (auto simp: Accept.simps [of fd w] sys_accept_def new_fd_def)
next
  case (Cons e es)
  let ?w1 = "w\<lparr>accq := (accq w)(fd := map AFail es @ AConn c # q), cerrno := e\<rparr>"
  have "Accept fd w = Accept fd ?w1"
    using Cons.prems by (intro Accept_transient_step) auto
  moreover have "\<exists>w'. Accept fd ?w1 = (Ret c, w') \<and> accq w' fd = q
      \<and> opened w' = c # opened ?w1 \<and> \<not> nonblk w' c"
    using Cons.prems by (intro Cons.IH) auto
  ultimately show ?case by simp
qed

text \<open>
  \<^verbatim>\<open>tcp4bind\<close> without an address returns a new socket bound to every interface on the given port,
  in network byte order and with address reuse set.
\<close>

theorem tcp4bind_any:
  assumes "netq w = []"
  shows "\<exists>w' lfd. tcp4bind port None w = (Ret lfd, w') \<and> lfd \<notin> set (opened w)
           \<and> opened w' = lfd # opened w \<and> reuse w' lfd
           \<and> bound w' lfd = Some \<lparr>sin_family = AF_INET, sin_port = htons port, sin_addr = INADDR_ANY\<rparr>"
proof -
  have "fresh_fd (opened w) \<noteq> -1" by (simp add: fresh_fd_def)
  with assms fresh_fd_notin [of "opened w"] show ?thesis
    by (simp add: tcp4bind_def Socket_def Bind_def sys_socket_def sys_bind_def
        net_verdict_def sys_set_reuseaddr_def Let_def andthen_def)
qed

subsection \<open>Instances\<close>

theorem Readn_any_segmentation_witness:
  "\<exists>w'. Readn 5 4 (conn_world 5 [RData ''ab'', RFail EINTR, RData ''cde'', RData []]) = (Ret (4, ''abcd''), w')
     \<and> arriving 5 w' = ''e''"
  using Readn_any_segmentation [of 5 "conn_world 5 [RData ''ab'', RFail EINTR, RData ''cde'', RData []]" 4]
  by (auto simp: clean_def arriving_def)

theorem Writen_sends_all_witness:
  "\<exists>w'. Writen 5 ''hello'' 5 ((conn_world 5 [])\<lparr>wrq := (\<lambda>_. [WTake 2, WFail EINTR, WTake 1])\<rparr>) = (Ret 5, w')
     \<and> sent_on 5 (trace w') = ''hello''"
  using Writen_sends_all [of 5 "(conn_world 5 [])\<lparr>wrq := (\<lambda>_. [WTake 2, WFail EINTR, WTake 1])\<rparr>" "''hello''" 5]
  by simp

definition rl_world0 :: "rd_res list \<Rightarrow> byte list \<Rightarrow> rl_world" where
  "rl_world0 rs left = world.extend (conn_world 5 rs)
     \<lparr>read_cnt = int (length left), read_ptr = 0, read_buf = left @ replicate (100 - length left) NUL\<rparr>"

lemma rl_world0_sel:
  "length left \<le> 100 \<Longrightarrow> stream_ok rs \<Longrightarrow> rl_good 5 (rl_world0 rs left)"
  "rl_pend 5 (rl_world0 rs left) = left @ stream rs" "leftover (rl_world0 rs left) = left"
  by (simp_all add: rl_good_def rl_pend_def leftover_def clean_def arriving_def rl_world0_def
      world.defs rl_world.defs conn_world_def world0_def)

theorem Readline_stores_line_witness:
  "\<exists>w'. Readline 5 20 (rl_world0 [RData [CHR 0x0A, CHR ''x''], RData []] ''ab'') =
     (Ret (3, ''ab'' @ [CHR 0x0A]), w')"
proof -
  have "rl_good 5 (rl_world0 [RData [CHR 0x0A, CHR ''x''], RData []] ''ab'')"
    by (rule rl_world0_sel) simp_all
  from Readline_stores_line [OF this, of 20] show ?thesis
    by (simp add: rl_world0_sel line_ended_def numeral_eq_Suc)
qed

theorem Readline_buffering_invisible_witness:
  "fst (Readline 5 20 (rl_world0 [RData [CHR 0x0A], RData []] ''ab'')) =
   fst (readline_loop (read_byte 5) 1 20 [] (conn_world 5 [RData ''ab'', RData [CHR 0x0A], RData []]))"
proof -
  have "rl_good 5 (rl_world0 [RData [CHR 0x0A], RData []] ''ab'')"
    by (rule rl_world0_sel) simp_all
  moreover have "clean 5 (conn_world 5 [RData ''ab'', RData [CHR 0x0A], RData []])"
    by (simp add: clean_def)
  ultimately show ?thesis
    by (rule Readline_buffering_invisible) (simp_all add: rl_world0_sel arriving_def)
qed

theorem Read_returns_uninitialised_witness:
  "\<exists>w'. Read 77 5 10 (conn_world 5 [RFail EINTR]) = (Ret (77, []), w')"
proof -
  obtain w' where "sys_read 5 10 (conn_world 5 [RFail EINTR]) = (Ret (-1, []), w')"
    by (simp add: sys_read_def)
  from Read_returns_uninitialised [OF this, of 77] show ?thesis by auto
qed

theorem Readline_mixes_connections_witness:
  "\<exists>w'. Readline 9 20 (rl_world0 [] (''secret'' @ [CHR 0x0A])) = (Ret (7, ''secret'' @ [CHR 0x0A]), w')"
  using Readline_mixes_connections [of "rl_world0 [] (''secret'' @ [CHR 0x0A])" "''secret''" "[]" 20 9]
  by (auto simp: rl_world0_sel)

theorem Accept_skips_transient_witness:
  "\<exists>w'. Accept 5 ((conn_world 5 [])\<lparr>accq := (\<lambda>_. [AFail EINTR, AFail ECONNABORTED, AConn 7])\<rparr>) = (Ret 7, w')"
  using Accept_skips_transient [of 5 "(conn_world 5 [])\<lparr>accq := (\<lambda>_. [AFail EINTR, AFail ECONNABORTED, AConn 7])\<rparr>"
      "[EINTR, ECONNABORTED]" 7 "[]"] by (auto simp: conn_world_def world0_def)

theorem tcp4bind_any_witness:
  "\<exists>w' lfd. tcp4bind 8888 None world0 = (Ret lfd, w') \<and> lfd \<notin> {0, 1, 2} \<and> reuse w' lfd"
  using tcp4bind_any [of world0 8888] by (auto simp: world0_def)

end
