(* ===== verification/SimplePool.thy ===== *)
theory SimplePool
  imports Wrap Transition RingQueue "HOL-Library.Multiset"
begin

section \<open>The simple thread pool and its echo server (threadpoolsimple.c)\<close>

text \<open>
  \<^verbatim>\<open>concurrence_linux/14_thrpoll/threadpoolsimple.c\<close> (the copy under \<^verbatim>\<open>9_epoll_select\<close> is identical).

  The pool is the record \<open>spool\<close>. Positions are counted monotonically by \<^verbatim>\<open>job_push\<close> and \<^verbatim>\<open>job_pop\<close>, reduced
  modulo \<^verbatim>\<open>max_job_num\<close> at each access; they and \<^verbatim>\<open>num\<close> are C \<^verbatim>\<open>int\<close>s, so the increment
  of \<open>INT_MAX\<close> is undefined behaviour, which stops the run (\<open>undefined\<close> below). The threads are the
  pool's workers (\<^verbatim>\<open>thrRun\<close>), any number of callers of \<^verbatim>\<open>addtask\<close> and one of \<^verbatim>\<open>destroy_threadpool\<close>, interleaved as in
  \<open>ThreadPool\<close>. \<^verbatim>\<open>taskRun\<close> and the event loop of \<^verbatim>\<open>main\<close> run against the modelled kernel.
\<close>

subsection \<open>The pool and its task array\<close>

datatype job = Job (tasknum: int) (jfd: fd)

definition INT_MAX :: int where "INT_MAX = 2147483647"

record spool =
  max_job_num :: int
  job_num :: int
  tasks :: "job list"
  job_push :: int
  job_pop :: int
  thr_num :: int
  sshutdown :: bool

definition jobs_full :: "'z spool_scheme \<Rightarrow> bool" where
  "jobs_full p \<longleftrightarrow> job_num p \<ge> max_job_num p"

definition jobs_empty :: "'z spool_scheme \<Rightarrow> bool" where
  "jobs_empty p \<longleftrightarrow> job_num p \<le> 0"

definition push_job :: "job \<Rightarrow> 'z spool_scheme \<Rightarrow> 'z spool_scheme" where
  "push_job t p =
     (let pos = job_push p mod max_job_num p
      in p\<lparr>job_push := job_push p + 1, tasks := (tasks p)[nat pos := t], job_num := job_num p + 1\<rparr>)"

definition front_job :: "'z spool_scheme \<Rightarrow> job" where
  "front_job p = tasks p ! nat (job_pop p mod max_job_num p)"

definition pop_job :: "'z spool_scheme \<Rightarrow> 'z spool_scheme" where
  "pop_job p = p\<lparr>job_pop := job_pop p + 1, job_num := job_num p - 1\<rparr>"

definition job_list :: "'z spool_scheme \<Rightarrow> job list" where
  "job_list p = ring_list (tasks p) (nat (job_pop p)) (nat (job_num p))"

definition jobs_ok :: "'z spool_scheme \<Rightarrow> bool" where
  "jobs_ok p \<longleftrightarrow> 0 < max_job_num p \<and> int (length (tasks p)) = max_job_num p
     \<and> 0 \<le> job_num p \<and> job_num p \<le> max_job_num p
     \<and> 0 \<le> job_pop p \<and> job_push p = job_pop p + job_num p"

lemma jobs_ok_push:
  assumes "jobs_ok p" "\<not> jobs_full p"
  shows "jobs_ok (push_job t p)" "job_list (push_job t p) = job_list p @ [t]"
proof -
  define f n where "f = nat (job_pop p)" and "n = nat (job_num p)"
  have p: "job_pop p = int f" "job_num p = int n" "job_push p = int (f + n)"
    "max_job_num p = int (length (tasks p))" "n < length (tasks p)"
    using assms by (auto simp: jobs_ok_def jobs_full_def f_def n_def)
  show "jobs_ok (push_job t p)"
    using assms by (simp add: jobs_ok_def jobs_full_def push_job_def Let_def)
  have "nat (int (f + n) mod int (length (tasks p))) = (f + n) mod length (tasks p)"
    by (metis nat_int zmod_int)
  then show "job_list (push_job t p) = job_list p @ [t]"
    using p ring_list_put [of n "tasks p" f t]
    by (simp add: job_list_def push_job_def Let_def nat_add_distrib)
qed

lemma jobs_ok_pop:
  assumes "jobs_ok p" "\<not> jobs_empty p"
  shows "jobs_ok (pop_job p)" "job_list p = front_job p # job_list (pop_job p)"
proof -
  define f n where "f = nat (job_pop p)" and "n = nat (job_num p - 1)"
  have p: "job_pop p = int f" "job_num p = int (Suc n)" "max_job_num p = int (length (tasks p))"
    using assms by (auto simp: jobs_ok_def jobs_empty_def f_def n_def)
  show "jobs_ok (pop_job p)"
    using assms by (simp add: jobs_ok_def jobs_empty_def pop_job_def)
  have "nat (int f mod int (length (tasks p))) = f mod length (tasks p)"
    by (metis nat_int zmod_int)
  then show "job_list p = front_job p # job_list (pop_job p)"
    using p by (simp add: job_list_def front_job_def pop_job_def ring_list_Cons nat_add_distrib)
qed

interpretation simple_queue: bounded_queue jobs_ok job_list jobs_full jobs_empty
  push_job front_job pop_job
proof unfold_locales
  fix q :: "'z spool_scheme" and x
  assume ok: "jobs_ok q"
  then show "jobs_empty q \<longleftrightarrow> job_list q = []"
    by (auto simp: jobs_empty_def job_list_def jobs_ok_def simp flip: length_0_conv)
  show "jobs_ok (push_job x q)" "job_list (push_job x q) = job_list q @ [x]" if "\<not> jobs_full q"
    using ok that by (rule jobs_ok_push)+
  show "jobs_ok (pop_job q)" "front_job q = hd (job_list q)"
    "job_list (pop_job q) = tl (job_list q)" if "\<not> jobs_empty q"
    using jobs_ok_pop [OF ok that] by simp_all
qed

subsection \<open>The running pool\<close>

datatype spc =                 \<comment> \<open>where a worker is in \<^verbatim>\<open>thrRun\<close>\<close>
    SLock                      \<comment> \<open>about to lock\<close>
  | STest                      \<comment> \<open>at the condition of the inner \<^verbatim>\<open>while\<close>, locked\<close>
  | SBlock                     \<comment> \<open>about to call \<^verbatim>\<open>pthread_cond_wait\<close>, locked\<close>
  | SWait                      \<comment> \<open>waiting on \<^verbatim>\<open>not_empty_task\<close>\<close>
  | SPop                       \<comment> \<open>at \<^verbatim>\<open>if (thrPool->job_num)\<close>, locked\<close>
  | SShut                      \<comment> \<open>at \<^verbatim>\<open>if (thrPool->shutdown)\<close>, locked\<close>
  | SRun                       \<comment> \<open>about to call the task, unlocked\<close>
  | SExit

datatype apc =                 \<comment> \<open>where a caller is in \<^verbatim>\<open>addtask\<close>\<close>
    AIdle | ACall fd | ATest fd | ABlock fd | AWait fd | AStore fd | ASignal

datatype kpc = KIdle | KFlag | KBroadcast | KFree | KDone

datatype sagent = SWorker nat | SCaller nat

record sp = spool +
  num :: int                   \<comment> \<open>the global task number\<close>
  slock :: "sagent option"
  wait_task :: "nat set"       \<comment> \<open>workers waiting on \<^verbatim>\<open>not_empty_task\<close>\<close>
  wait_room :: "nat set"       \<comment> \<open>callers waiting on \<^verbatim>\<open>empty_task\<close>\<close>
  sworkers :: "(spc \<times> job option) list"   \<comment> \<open>with the worker's own \<^verbatim>\<open>task\<close>, \<open>None\<close> as allocated\<close>
  callers :: "apc list"
  killer :: kpc
  freed :: bool
  undefined_run :: bool        \<comment> \<open>undefined behaviour has happened: the run stops\<close>
  jadded :: "job list"
  jtaken :: "job list"
  jran :: "job list"

definition put_sw :: "nat \<Rightarrow> spc \<Rightarrow> job option \<Rightarrow> sp \<Rightarrow> sp" where
  "put_sw i pc t s = s\<lparr>sworkers := (sworkers s)[i := (pc, t)]\<rparr>"

definition put_ca :: "nat \<Rightarrow> apc \<Rightarrow> sp \<Rightarrow> sp" where
  "put_ca j pc s = s\<lparr>callers := (callers s)[j := pc]\<rparr>"

definition may_wake :: "nat option \<Rightarrow> nat set \<Rightarrow> bool" where
  "may_wake c W \<longleftrightarrow> (case c of None \<Rightarrow> W = {} | Some k \<Rightarrow> k \<in> W)"

definition woken :: "nat option \<Rightarrow> nat set \<Rightarrow> nat set" where
  "woken c W = (case c of None \<Rightarrow> W | Some k \<Rightarrow> W - {k})"

text \<open>\<^verbatim>\<open>thrRun\<close>, run by worker \<open>i\<close>; \<open>c\<close> is the caller that \<^verbatim>\<open>pthread_cond_signal(&empty_task)\<close> wakes.\<close>

definition thrRun_step :: "nat option \<Rightarrow> nat \<Rightarrow> sp \<Rightarrow> sp option" where
  "thrRun_step c i s =
     (case sworkers s ! i of (pc, task) \<Rightarrow>
      case pc of
        SLock \<Rightarrow>
          if slock s = None then Some (put_sw i STest task (s\<lparr>slock := Some (SWorker i)\<rparr>)) else None
      | STest \<Rightarrow>
          if jobs_empty s \<and> \<not> sshutdown s then Some (put_sw i SBlock task s)
          else Some (put_sw i SPop task s)
      | SBlock \<Rightarrow> Some (put_sw i SWait task (s\<lparr>slock := None, wait_task := insert i (wait_task s)\<rparr>))
      | SWait \<Rightarrow>
          if i \<notin> wait_task s \<and> slock s = None
          then Some (put_sw i STest task (s\<lparr>slock := Some (SWorker i)\<rparr>)) else None
      | SPop \<Rightarrow>
          if job_num s \<noteq> 0 then
            (if may_wake c (wait_room s)
             then Some (put_sw i SShut (Some (front_job s))
                    ((pop_job s)\<lparr>wait_room := woken c (wait_room s), jtaken := jtaken s @ [front_job s]\<rparr>))
             else None)
          else Some (put_sw i SShut task s)
      | SShut \<Rightarrow>
          if sshutdown s then Some (put_sw i SExit task (s\<lparr>slock := None\<rparr>))
          else Some (put_sw i SRun task (s\<lparr>slock := None\<rparr>))
      | SRun \<Rightarrow>
          (case task of
             None \<Rightarrow> Some (s\<lparr>undefined_run := True\<rparr>)
           | Some t \<Rightarrow> Some (put_sw i SLock task (s\<lparr>jran := jran s @ [t]\<rparr>)))
      | SExit \<Rightarrow> None)"

text \<open>\<^verbatim>\<open>addtask\<close>, run by caller \<open>j\<close>; \<open>c\<close> is the worker its signal wakes.\<close>

definition addtask_step :: "nat option \<Rightarrow> nat \<Rightarrow> sp \<Rightarrow> sp option" where
  "addtask_step c j s =
     (case callers s ! j of
        AIdle \<Rightarrow> None
      | ACall f \<Rightarrow>
          if slock s = None then Some (put_ca j (ATest f) (s\<lparr>slock := Some (SCaller j)\<rparr>)) else None
      | ATest f \<Rightarrow> Some (put_ca j (if jobs_full s then ABlock f else AStore f) s)
      | ABlock f \<Rightarrow> Some (put_ca j (AWait f) (s\<lparr>slock := None, wait_room := insert j (wait_room s)\<rparr>))
      | AWait f \<Rightarrow>
          if j \<notin> wait_room s \<and> slock s = None
          then Some (put_ca j (ATest f) (s\<lparr>slock := Some (SCaller j)\<rparr>)) else None
      | AStore f \<Rightarrow>
          if job_push s = INT_MAX \<or> num s = INT_MAX then Some (s\<lparr>undefined_run := True\<rparr>)
          else Some (put_ca j ASignal ((push_job (Job (num s) f) s)
                 \<lparr>num := num s + 1, slock := None, jadded := jadded s @ [Job (num s) f]\<rparr>))
      | ASignal \<Rightarrow>
          if may_wake c (wait_task s)
          then Some (put_ca j AIdle (s\<lparr>wait_task := woken c (wait_task s)\<rparr>)) else None)"

text \<open>\<^verbatim>\<open>destroy_threadpool\<close>\<close>

definition destroy_step :: "sp \<Rightarrow> sp option" where
  "destroy_step s =
     (case killer s of
        KIdle \<Rightarrow> None
      | KFlag \<Rightarrow> Some (s\<lparr>sshutdown := True, killer := KBroadcast\<rparr>)
      | KBroadcast \<Rightarrow> Some (s\<lparr>wait_task := {}, killer := KFree\<rparr>)
      | KFree \<Rightarrow> Some (s\<lparr>freed := True, killer := KDone\<rparr>)
      | KDone \<Rightarrow> None)"

datatype sact =
    SWork nat "nat option" | SAdd nat "nat option" | SKill
  | SCall nat fd | SCallDestroy | SpurTask nat | SpurRoom nat

definition sp_exec :: "sact \<Rightarrow> sp \<Rightarrow> sp option" where
  "sp_exec a s =
     (if undefined_run s then None
      else case a of
        SWork i c \<Rightarrow>
          if i < length (sworkers s) then
            (if freed s \<and> fst (sworkers s ! i) \<notin> {SRun, SExit} then Some (s\<lparr>undefined_run := True\<rparr>)
             else thrRun_step c i s)
          else None
      | SAdd j c \<Rightarrow>
          if j < length (callers s) then
            (if freed s \<and> callers s ! j \<noteq> AIdle then Some (s\<lparr>undefined_run := True\<rparr>)
             else addtask_step c j s)
          else None
      | SKill \<Rightarrow> destroy_step s
      | SCall j f \<Rightarrow>
          if j < length (callers s) \<and> callers s ! j = AIdle then Some (put_ca j (ACall f) s) else None
      | SCallDestroy \<Rightarrow> if killer s = KIdle then Some (s\<lparr>killer := KFlag\<rparr>) else None
      | SpurTask i \<Rightarrow> if i \<in> wait_task s then Some (s\<lparr>wait_task := wait_task s - {i}\<rparr>) else None
      | SpurRoom j \<Rightarrow> if j \<in> wait_room s then Some (s\<lparr>wait_room := wait_room s - {j}\<rparr>) else None)"

text \<open>
  \<^verbatim>\<open>create_threadpool\<close>: the state it leaves, with \<open>n\<close> threads that may call \<^verbatim>\<open>addtask\<close>; \<open>junk\<close> is what
  \<^verbatim>\<open>malloc\<close> leaves in the task array. A failed allocation of the pool only returns, one of the task array exits,
  one of the thread array is not looked at and \<^verbatim>\<open>pthread_create\<close> then writes through NULL.
\<close>

definition simple_pool :: "int \<Rightarrow> int \<Rightarrow> job \<Rightarrow> nat \<Rightarrow> sp" where
  "simple_pool thrnum maxtasknum junk n =
     \<lparr>max_job_num = maxtasknum, job_num = 0, tasks = replicate (nat maxtasknum) junk,
      job_push = 0, job_pop = 0, thr_num = thrnum, sshutdown = False, num = 0, slock = None,
      wait_task = {}, wait_room = {}, sworkers = replicate (nat thrnum) (SLock, None),
      callers = replicate n AIdle, killer = KIdle, freed = False, undefined_run = False,
      jadded = [], jtaken = [], jran = []\<rparr>"

definition create_threadpool ::
  "int \<Rightarrow> int \<Rightarrow> bool \<times> bool \<times> bool \<Rightarrow> job \<Rightarrow> nat \<Rightarrow> sp option outcome" where
  "create_threadpool thrnum maxtasknum mal junk n =
     (case mal of (m1, m2, m3) \<Rightarrow>
        if \<not> m1 then Ret None
        else if \<not> m2 \<or> maxtasknum < 0 then Exit 1
        else if \<not> m3 \<and> 0 < thrnum then Undef
        else Ret (Some (simple_pool thrnum maxtasknum junk n)))"

subsection \<open>The invariant\<close>

fun s_locked :: "spc \<times> job option \<Rightarrow> bool" where
  "s_locked (STest, x) = True"
| "s_locked (SBlock, x) = True"
| "s_locked (SPop, x) = True"
| "s_locked (SShut, x) = True"
| "s_locked _ = False"

lemma s_locked_at: "s_locked w \<longleftrightarrow> fst w = STest \<or> fst w = SBlock \<or> fst w = SPop \<or> fst w = SShut"
  by (cases w rule: s_locked.cases) simp_all

fun a_locked :: "apc \<Rightarrow> bool" where
  "a_locked (ATest f) = True"
| "a_locked (ABlock f) = True"
| "a_locked (AStore f) = True"
| "a_locked _ = False"

definition slock_inv :: "sp \<Rightarrow> bool" where
  "slock_inv s \<longleftrightarrow>
     (\<forall>i < length (sworkers s). s_locked (sworkers s ! i) \<longleftrightarrow> slock s = Some (SWorker i))
     \<and> (\<forall>j < length (callers s). a_locked (callers s ! j) \<longleftrightarrow> slock s = Some (SCaller j))"

text \<open>What a thread knows where it is, and that a task is never called before one was taken.\<close>

definition swork_inv :: "sp \<Rightarrow> bool" where
  "swork_inv s \<longleftrightarrow> (\<forall>i < length (sworkers s).
     (fst (sworkers s ! i) = SPop \<longrightarrow> \<not> jobs_empty s \<or> sshutdown s)
     \<and> (fst (sworkers s ! i) = SShut \<longrightarrow> snd (sworkers s ! i) \<noteq> None \<or> sshutdown s)
     \<and> (fst (sworkers s ! i) = SRun \<longrightarrow> snd (sworkers s ! i) \<noteq> None))"

definition scall_inv :: "sp \<Rightarrow> bool" where
  "scall_inv s \<longleftrightarrow> (\<forall>j < length (callers s). \<forall>f. callers s ! j = AStore f \<longrightarrow> \<not> jobs_full s)"

definition squeue_inv :: "sp \<Rightarrow> bool" where
  "squeue_inv s \<longleftrightarrow> jobs_ok s \<and> jadded s = jtaken s @ job_list s"

definition scount_inv :: "sp \<Rightarrow> bool" where
  "scount_inv s \<longleftrightarrow> job_push s = int (length (jadded s)) \<and> num s = job_push s \<and> job_push s \<le> INT_MAX
     \<and> map tasknum (jadded s) = map int [0..<length (jadded s)]"

fun sheld :: "spc \<times> job option \<Rightarrow> job multiset" where
  "sheld (SShut, Some t) = {#t#}"
| "sheld (SRun, Some t) = {#t#}"
| "sheld _ = {#}"

definition sonce_inv :: "sp \<Rightarrow> bool" where
  "sonce_inv s \<longleftrightarrow>
     (\<not> sshutdown s \<longrightarrow> mset (jtaken s) = mset (jran s) + sum_list (map sheld (sworkers s)))"

definition sstop_inv :: "sp \<Rightarrow> bool" where
  "sstop_inv s \<longleftrightarrow> (sshutdown s \<longleftrightarrow> killer s \<notin> {KIdle, KFlag}) \<and> (freed s \<longrightarrow> sshutdown s)
     \<and> (undefined_run s \<longrightarrow> freed s \<or> job_push s = INT_MAX)"

definition sp_inv :: "sp \<Rightarrow> bool" where
  "sp_inv s \<longleftrightarrow> slock_inv s \<and> swork_inv s \<and> scall_inv s \<and> squeue_inv s \<and> scount_inv s \<and> sonce_inv s \<and> sstop_inv s"

lemma thrRun_stepE:
  assumes "thrRun_step c i s = Some t"
  obtains (acquire) x where "sworkers s ! i = (SLock, x)" "slock s = None"
      "t = put_sw i STest x (s\<lparr>slock := Some (SWorker i)\<rparr>)"
    | (must_wait) x where "sworkers s ! i = (STest, x)" "jobs_empty s" "\<not> sshutdown s"
      "t = put_sw i SBlock x s"
    | (proceed) x where "sworkers s ! i = (STest, x)" "\<not> jobs_empty s \<or> sshutdown s"
      "t = put_sw i SPop x s"
    | (sleep) x where "sworkers s ! i = (SBlock, x)"
      "t = put_sw i SWait x (s\<lparr>slock := None, wait_task := insert i (wait_task s)\<rparr>)"
    | (wake) x where "sworkers s ! i = (SWait, x)" "i \<notin> wait_task s" "slock s = None"
      "t = put_sw i STest x (s\<lparr>slock := Some (SWorker i)\<rparr>)"
    | (pop) x where "sworkers s ! i = (SPop, x)" "job_num s \<noteq> 0" "may_wake c (wait_room s)"
      "t = put_sw i SShut (Some (front_job s))
         ((pop_job s)\<lparr>wait_room := woken c (wait_room s), jtaken := jtaken s @ [front_job s]\<rparr>)"
    | (no_job) x where "sworkers s ! i = (SPop, x)" "job_num s = 0" "t = put_sw i SShut x s"
    | (stop) x where "sworkers s ! i = (SShut, x)" "sshutdown s"
      "t = put_sw i SExit x (s\<lparr>slock := None\<rparr>)"
    | (go) x where "sworkers s ! i = (SShut, x)" "\<not> sshutdown s"
      "t = put_sw i SRun x (s\<lparr>slock := None\<rparr>)"
    | (wild) "sworkers s ! i = (SRun, None)" "t = s\<lparr>undefined_run := True\<rparr>"
    | (run) x where "sworkers s ! i = (SRun, Some x)"
      "t = put_sw i SLock (Some x) (s\<lparr>jran := jran s @ [x]\<rparr>)"
proof -
  obtain pc x where w: "sworkers s ! i = (pc, x)" by (cases "sworkers s ! i")
  show thesis using assms w
    by (cases pc; cases x) (auto simp: thrRun_step_def intro: that split: if_splits)
qed

lemma addtask_stepE:
  assumes "addtask_step c j s = Some t"
  obtains (acquire) f where "callers s ! j = ACall f" "slock s = None"
      "t = put_ca j (ATest f) (s\<lparr>slock := Some (SCaller j)\<rparr>)"
    | (test) f where "callers s ! j = ATest f" "t = put_ca j (if jobs_full s then ABlock f else AStore f) s"
    | (sleep) f where "callers s ! j = ABlock f"
      "t = put_ca j (AWait f) (s\<lparr>slock := None, wait_room := insert j (wait_room s)\<rparr>)"
    | (wake) f where "callers s ! j = AWait f" "j \<notin> wait_room s" "slock s = None"
      "t = put_ca j (ATest f) (s\<lparr>slock := Some (SCaller j)\<rparr>)"
    | (overflow) f where "callers s ! j = AStore f" "job_push s = INT_MAX \<or> num s = INT_MAX"
      "t = s\<lparr>undefined_run := True\<rparr>"
    | (store) f where "callers s ! j = AStore f" "job_push s \<noteq> INT_MAX" "num s \<noteq> INT_MAX"
      "t = put_ca j ASignal ((push_job (Job (num s) f) s)
         \<lparr>num := num s + 1, slock := None, jadded := jadded s @ [Job (num s) f]\<rparr>)"
    | (signal) "callers s ! j = ASignal" "may_wake c (wait_task s)"
      "t = put_ca j AIdle (s\<lparr>wait_task := woken c (wait_task s)\<rparr>)"
  using assms
  by (cases "callers s ! j") (auto simp: addtask_step_def intro: that split: if_splits)

lemma job_op_fields [simp]:
  "sshutdown (pop_job p) = sshutdown p" "slock (pop_job (s::sp)) = slock s"
  "sworkers (pop_job (s::sp)) = sworkers s" "callers (pop_job (s::sp)) = callers s"
  "killer (pop_job (s::sp)) = killer s" "freed (pop_job (s::sp)) = freed s"
  "undefined_run (pop_job (s::sp)) = undefined_run s" "job_push (pop_job p) = job_push p"
  "num (pop_job (s::sp)) = num s" "jadded (pop_job (s::sp)) = jadded s" "jran (pop_job (s::sp)) = jran s"
  "sshutdown (push_job x p) = sshutdown p" "slock (push_job x (s::sp)) = slock s"
  "sworkers (push_job x (s::sp)) = sworkers s" "callers (push_job x (s::sp)) = callers s"
  "killer (push_job x (s::sp)) = killer s" "freed (push_job x (s::sp)) = freed s"
  "undefined_run (push_job x (s::sp)) = undefined_run s" "job_push (push_job x p) = job_push p + 1"
  "jtaken (push_job x (s::sp)) = jtaken s" "jran (push_job x (s::sp)) = jran s"
  by (simp_all add: pop_job_def push_job_def Let_def)

lemma job_queue_frame [simp]:
  "jobs_ok ((s::sp)\<lparr>slock := vslock\<rparr>) = jobs_ok s" "job_list ((s::sp)\<lparr>slock := vslock\<rparr>) = job_list s"
  "jobs_ok ((s::sp)\<lparr>wait_task := vwait_task\<rparr>) = jobs_ok s" "job_list ((s::sp)\<lparr>wait_task := vwait_task\<rparr>) = job_list s"
  "jobs_ok ((s::sp)\<lparr>wait_room := vwait_room\<rparr>) = jobs_ok s" "job_list ((s::sp)\<lparr>wait_room := vwait_room\<rparr>) = job_list s"
  "jobs_ok ((s::sp)\<lparr>sworkers := vsworkers\<rparr>) = jobs_ok s" "job_list ((s::sp)\<lparr>sworkers := vsworkers\<rparr>) = job_list s"
  "jobs_ok ((s::sp)\<lparr>callers := vcallers\<rparr>) = jobs_ok s" "job_list ((s::sp)\<lparr>callers := vcallers\<rparr>) = job_list s"
  "jobs_ok ((s::sp)\<lparr>killer := vkiller\<rparr>) = jobs_ok s" "job_list ((s::sp)\<lparr>killer := vkiller\<rparr>) = job_list s"
  "jobs_ok ((s::sp)\<lparr>freed := vfreed\<rparr>) = jobs_ok s" "job_list ((s::sp)\<lparr>freed := vfreed\<rparr>) = job_list s"
  "jobs_ok ((s::sp)\<lparr>undefined_run := vundefined_run\<rparr>) = jobs_ok s" "job_list ((s::sp)\<lparr>undefined_run := vundefined_run\<rparr>) = job_list s"
  "jobs_ok ((s::sp)\<lparr>num := vnum\<rparr>) = jobs_ok s" "job_list ((s::sp)\<lparr>num := vnum\<rparr>) = job_list s"
  "jobs_ok ((s::sp)\<lparr>jadded := vjadded\<rparr>) = jobs_ok s" "job_list ((s::sp)\<lparr>jadded := vjadded\<rparr>) = job_list s"
  "jobs_ok ((s::sp)\<lparr>jtaken := vjtaken\<rparr>) = jobs_ok s" "job_list ((s::sp)\<lparr>jtaken := vjtaken\<rparr>) = job_list s"
  "jobs_ok ((s::sp)\<lparr>jran := vjran\<rparr>) = jobs_ok s" "job_list ((s::sp)\<lparr>jran := vjran\<rparr>) = job_list s"
  "jobs_ok ((s::sp)\<lparr>sshutdown := vsshutdown\<rparr>) = jobs_ok s" "job_list ((s::sp)\<lparr>sshutdown := vsshutdown\<rparr>) = job_list s"
  by (simp_all add: jobs_ok_def job_list_def)

lemma thrRun_inv:
  assumes "sp_inv s" "i < length (sworkers s)" "thrRun_step c i s = Some t"
  shows "sp_inv t"
proof -
  have inv: "slock_inv s" "swork_inv s" "scall_inv s" "squeue_inv s" "scount_inv s" "sonce_inv s" "sstop_inv s"
    using assms(1) by (simp_all add: sp_inv_def)
  have "slock_inv t" using assms(3) inv(1) assms(2)
    by (cases rule: thrRun_stepE) (auto simp: slock_inv_def put_sw_def nth_list_update)
  moreover have "swork_inv t" using assms(3) inv(1,2) assms(2)
  proof (cases rule: thrRun_stepE)
    case (pop x)
    then have "slock s = Some (SWorker i)" using inv(1) assms(2) by (force simp: slock_inv_def s_locked_at)
    then have "fst (sworkers s ! k) \<noteq> SPop \<and> fst (sworkers s ! k) \<noteq> SShut"
      if "k < length (sworkers s)" "k \<noteq> i" for k
      using inv(1) that by (force simp: slock_inv_def s_locked_at)
    with pop inv(2) assms(2) show ?thesis
      by (auto simp: swork_inv_def put_sw_def nth_list_update)
  qed (auto simp: swork_inv_def put_sw_def nth_list_update jobs_empty_def)
  moreover have "scall_inv t" using assms(3) inv(1,3) assms(2)
    by (cases rule: thrRun_stepE) (auto simp: scall_inv_def put_sw_def jobs_full_def pop_job_def)
  moreover have "squeue_inv t" using assms(3) inv(4) assms(2)
  proof (cases rule: thrRun_stepE)
    case (pop x)
    with inv(4) have ne: "\<not> jobs_empty s" by (auto simp: squeue_inv_def jobs_ok_def jobs_empty_def)
    with jobs_ok_pop [of s] inv(4) have "jobs_ok (pop_job s)"
      "job_list s = front_job s # job_list (pop_job s)" by (simp_all add: squeue_inv_def)
    with pop inv(4) show ?thesis
      by (simp add: squeue_inv_def put_sw_def)
  qed (simp_all add: squeue_inv_def put_sw_def)
  moreover have "scount_inv t" using assms(3) inv(5)
    by (cases rule: thrRun_stepE) (auto simp: scount_inv_def put_sw_def)
  moreover have "sonce_inv t" using assms(3) inv(2,6) assms(2)
  proof (cases rule: thrRun_stepE)
    case (pop x)
    then show ?thesis using inv(6) sum_list_map_update [OF assms(2), of sheld "(SShut, Some (front_job s))"]
      by (simp add: sonce_inv_def put_sw_def)
  next
    case (run x)
    then show ?thesis using inv(6) sum_list_map_update [OF assms(2), of sheld "(SLock, Some x)"]
      by (simp add: sonce_inv_def put_sw_def)
  next
    case (no_job x)
    with inv(2) assms(2) show ?thesis
      by (auto simp: sonce_inv_def put_sw_def swork_inv_def jobs_empty_def)
  next
    case (stop x)
    then show ?thesis by (simp add: sonce_inv_def put_sw_def)
  next
    case (go x)
    with inv(2) assms(2) obtain y where "x = Some y" by (auto simp: swork_inv_def)
    with go inv(6) sum_list_map_update [OF assms(2), of sheld "(SRun, x)"] show ?thesis
      by (simp add: sonce_inv_def put_sw_def)
  next
    case (acquire x)
    then show ?thesis using inv(6) sum_list_map_update [OF assms(2), of sheld "(STest, x)"]
      by (simp add: sonce_inv_def put_sw_def)
  next
    case (must_wait x)
    then show ?thesis using inv(6) sum_list_map_update [OF assms(2), of sheld "(SBlock, x)"]
      by (simp add: sonce_inv_def put_sw_def)
  next
    case (proceed x)
    then show ?thesis using inv(6) sum_list_map_update [OF assms(2), of sheld "(SPop, x)"]
      by (simp add: sonce_inv_def put_sw_def)
  next
    case (sleep x)
    then show ?thesis using inv(6) sum_list_map_update [OF assms(2), of sheld "(SWait, x)"]
      by (simp add: sonce_inv_def put_sw_def)
  next
    case (wake x)
    then show ?thesis using inv(6) sum_list_map_update [OF assms(2), of sheld "(STest, x)"]
      by (simp add: sonce_inv_def put_sw_def)
  qed (simp add: sonce_inv_def)
  moreover have "sstop_inv t" using assms(3) inv(2,7) assms(2)
    by (cases rule: thrRun_stepE) (auto simp: sstop_inv_def put_sw_def swork_inv_def)
  ultimately show ?thesis by (simp add: sp_inv_def)
qed

lemma addtask_inv:
  assumes "sp_inv s" "j < length (callers s)" "addtask_step c j s = Some t"
  shows "sp_inv t"
proof -
  have inv: "slock_inv s" "swork_inv s" "scall_inv s" "squeue_inv s" "scount_inv s" "sonce_inv s" "sstop_inv s"
    using assms(1) by (simp_all add: sp_inv_def)
  have "slock_inv t" using assms(3) inv(1) assms(2)
    by (cases rule: addtask_stepE) (auto simp: slock_inv_def put_ca_def nth_list_update)
  moreover have "swork_inv t" using assms(3) inv(1,2) assms(2)
    by (cases rule: addtask_stepE)
       (auto simp: swork_inv_def put_ca_def jobs_empty_def push_job_def Let_def)
  moreover have "scall_inv t" using assms(3) inv(1,3) assms(2)
  proof (cases rule: addtask_stepE)
    case (store f)
    then have "slock s = Some (SCaller j)" using inv(1) assms(2) by (force simp: slock_inv_def)
    then have "callers s ! k \<noteq> AStore g" if "k < length (callers s)" "k \<noteq> j" for k g
      using inv(1) that by (force simp: slock_inv_def)
    with store inv(3) assms(2) show ?thesis
      by (auto simp: scall_inv_def put_ca_def nth_list_update)
  qed (auto simp: scall_inv_def put_ca_def nth_list_update jobs_full_def)
  moreover have "squeue_inv t" using assms(3) inv(3,4) assms(2)
  proof (cases rule: addtask_stepE)
    case (store f)
    then have "\<not> jobs_full s" using inv(3) assms(2) by (simp add: scall_inv_def)
    with jobs_ok_push [of s "Job (num s) f"] inv(4)
    have "jobs_ok (push_job (Job (num s) f) s)"
      "job_list (push_job (Job (num s) f) s) = job_list s @ [Job (num s) f]"
      by (simp_all add: squeue_inv_def)
    with store inv(4) show ?thesis by (simp add: squeue_inv_def put_ca_def)
  qed (simp_all add: squeue_inv_def put_ca_def)
  moreover have "scount_inv t" using assms(3) inv(5)
    by (cases rule: addtask_stepE) (auto simp: scount_inv_def put_ca_def)
  moreover have "sonce_inv t" using assms(3) inv(6)
    by (cases rule: addtask_stepE) (simp_all add: sonce_inv_def put_ca_def)
  moreover have "sstop_inv t" using assms(3) inv(5,7)
    by (cases rule: addtask_stepE) (auto simp: sstop_inv_def put_ca_def scount_inv_def)
  ultimately show ?thesis by (simp add: sp_inv_def)
qed

definition sp_init :: "sp \<Rightarrow> bool" where
  "sp_init s \<longleftrightarrow> (\<exists>thrnum maxtasknum junk n. 0 < maxtasknum \<and> s = simple_pool thrnum maxtasknum junk n)"

lemma sum_list_no_job: "sum_list (replicate k ({#} :: job multiset)) = {#}"
  by (induction k) simp_all

lemma sp_init_inv: "sp_init s \<Longrightarrow> sp_inv s"
proof -
  assume "sp_init s"
  then obtain th mx junk n where "0 < mx" "s = simple_pool th mx junk n" by (auto simp: sp_init_def)
  then show ?thesis
    by (simp add: sp_inv_def slock_inv_def swork_inv_def scall_inv_def squeue_inv_def scount_inv_def sonce_inv_def
        sstop_inv_def simple_pool_def jobs_ok_def job_list_def INT_MAX_def sum_list_no_job)
qed

lemma sp_frames:
  assumes "sp_inv s"
  shows "sp_inv (s\<lparr>wait_task := W\<rparr>)" "sp_inv (s\<lparr>wait_room := W\<rparr>)"
    "freed s \<Longrightarrow> sp_inv (s\<lparr>undefined_run := True\<rparr>)"
    "killer s = KIdle \<Longrightarrow> sp_inv (s\<lparr>killer := KFlag\<rparr>)"
    "sp_inv (s\<lparr>sshutdown := True, killer := KBroadcast\<rparr>)"
    "killer s = KBroadcast \<Longrightarrow> sp_inv (s\<lparr>wait_task := {}, killer := KFree\<rparr>)"
    "killer s = KFree \<Longrightarrow> sp_inv (s\<lparr>freed := True, killer := KDone\<rparr>)"
    "j < length (callers s) \<Longrightarrow> callers s ! j = AIdle \<Longrightarrow> sp_inv (put_ca j (ACall f) s)"
  using assms
  by (auto simp: sp_inv_def slock_inv_def swork_inv_def scall_inv_def squeue_inv_def scount_inv_def sonce_inv_def
      sstop_inv_def put_ca_def nth_list_update jobs_empty_def jobs_full_def)

lemma sp_exec_inv:
  assumes "sp_inv s" "sp_exec a s = Some t"
  shows "sp_inv t"
  using assms
  by (cases a)
     (auto simp: sp_exec_def destroy_step_def intro: thrRun_inv addtask_inv sp_frames
       split: if_splits kpc.splits)

interpretation simple_system: invariant_system sp_init sp_exec sp_inv
  by unfold_locales (auto intro: sp_init_inv sp_exec_inv)

subsection \<open>The task and the event loop\<close>

text \<open>
  \<^verbatim>\<open>taskRun\<close> on the task's descriptor; \<open>epfd\<close> is the field nobody assigns. \<^verbatim>\<open>printf("%s")\<close> of a full buffer
  that holds no NUL reads past its end.
\<close>

definition taskRun :: "fd \<Rightarrow> fd \<Rightarrow> ('z world_scheme, unit) io" where
  "taskRun epfd f =
     andthen (sys_read f 1024) (\<lambda>r.
       if fst r = 0 then
         andthen (sys_close f) (\<lambda>_.
         andthen (sys_epoll_ctl epfd EPOLL_CTL_DEL f {EPOLLIN} f) (\<lambda>_. ret ()))
       else if fst r > 0 then
         (if fst r = 1024 \<and> NUL \<notin> set (snd r) then undef
          else andthen (sys_write f (snd r)) (\<lambda>_. ret ()))
       else ret ())"

text \<open>The loop of \<^verbatim>\<open>main\<close> over the reported events; the result is the descriptors given to \<^verbatim>\<open>addtask\<close>.\<close>

fun dispatch_events ::
  "fd \<Rightarrow> fd \<Rightarrow> (epmask \<times> int) list \<Rightarrow> ('z world_scheme, fd list) io" where
  "dispatch_events lfd epfd [] = ret []"
| "dispatch_events lfd epfd ((ev, d) # evs) =
     (if d = lfd \<and> EPOLLIN \<in> ev then
        andthen (Accept lfd) (\<lambda>cfd.
        andthen (sys_epoll_ctl epfd EPOLL_CTL_ADD cfd {EPOLLIN} cfd) (\<lambda>_.
        dispatch_events lfd epfd evs))
      else if d \<noteq> lfd \<and> EPOLLIN \<in> ev then
        andthen (dispatch_events lfd epfd evs) (\<lambda>fds. ret (d # fds))
      else dispatch_events lfd epfd evs)"

definition simple_round :: "fd \<Rightarrow> fd \<Rightarrow> ('z world_scheme, fd list) io" where
  "simple_round lfd epfd =
     andthen (sys_epoll_wait epfd 1024) (\<lambda>r.
       if fst r < 0 then perr_exit ''epoll_wait''
       else if fst r > 0 then dispatch_events lfd epfd (snd r)
       else ret [])"

definition simple_setup :: "('z world_scheme, fd \<times> fd) io" where
  "simple_setup =
     andthen (tcp4bind 8000 None) (\<lambda>lfd.
     andthen (sys_listen lfd 128) (\<lambda>_.
     andthen sys_epoll_create (\<lambda>epfd.
     andthen (sys_epoll_ctl epfd EPOLL_CTL_ADD lfd {EPOLLIN} lfd) (\<lambda>_. ret (lfd, epfd)))))"

subsection \<open>Properties\<close>


text \<open>A worker never calls an unset callback, although it tests \<^verbatim>\<open>job_num\<close> with \<^verbatim>\<open>if\<close> after its wait: in every
  reachable state a worker about to call its task holds one, and undefined behaviour needs the
  pool to be destroyed or \<open>INT_MAX\<close> jobs to have been added before.\<close>

theorem simple_pool_defined:
  assumes "reach sp_init (lstep sp_exec) s"
  shows "(i < length (sworkers s) \<and> fst (sworkers s ! i) = SRun \<longrightarrow> snd (sworkers s ! i) \<noteq> None)
     \<and> (undefined_run s \<longrightarrow> freed s \<or> int (length (jadded s)) = INT_MAX)"
  using simple_system.inv_reach [OF assms]
  by (auto simp: sp_inv_def swork_inv_def sstop_inv_def scount_inv_def)

text \<open>The pool of one worker and one slot after \<open>n\<close> jobs have come and gone.\<close>

definition worn_pool :: "nat \<Rightarrow> sp" where
  "worn_pool n =
     (let js = map (\<lambda>k. Job (int k) 5) [0..<n]
      in (simple_pool 1 1 (Job 0 0) 1)\<lparr>job_push := int n, job_pop := int n, num := int n,
           tasks := [if n = 0 then Job 0 0 else Job (int n - 1) 5],
           sworkers := [(SLock, if n = 0 then None else Some (Job (int n - 1) 5))],
           jadded := js, jtaken := js, jran := js\<rparr>)"

definition one_job :: "sact list" where
  "one_job = [SCall 0 5, SAdd 0 None, SAdd 0 None, SAdd 0 None, SAdd 0 None,
     SWork 0 None, SWork 0 None, SWork 0 None, SWork 0 None, SWork 0 None]"

lemma worn_pool_0: "sp_init (worn_pool 0)"
  unfolding sp_init_def
  by (rule exI [of _ 1], rule exI [of _ 1], rule exI [of _ "Job 0 0"], rule exI [of _ 1])
     (simp add: worn_pool_def simple_pool_def)

lemma worn_pool_Suc:
  "int n < INT_MAX \<Longrightarrow> run_actions sp_exec one_job (worn_pool n) = Some (worn_pool (Suc n))"
  by (simp add: one_job_def worn_pool_def simple_pool_def Let_def sp_exec_def addtask_step_def
      thrRun_step_def put_ca_def put_sw_def push_job_def pop_job_def front_job_def jobs_full_def
      jobs_empty_def may_wake_def woken_def)

lemma worn_pool_reach: "int n \<le> INT_MAX \<Longrightarrow> reach sp_init (lstep sp_exec) (worn_pool n)"
proof (induction n)
  case (Suc n)
  then show ?case using reach_run [OF _ worn_pool_Suc [of n]] by simp
qed (simp add: reach.start worn_pool_0)

text \<open>The monotone position counter overflows: there is an execution in which every job ever added has been
  run and the queue is empty, and the next call of \<^verbatim>\<open>addtask\<close> runs into signed overflow.\<close>

theorem simple_pool_overflows:
  "\<exists>s t. reach sp_init (lstep sp_exec) s \<and> \<not> sshutdown s \<and> job_list s = [] \<and> jran s = jadded s
     \<and> run_actions sp_exec [SCall 0 5, SAdd 0 None, SAdd 0 None, SAdd 0 None] s = Some t \<and> undefined_run t"
proof (intro exI conjI)
  let ?s = "worn_pool (nat INT_MAX)"
  show "reach sp_init (lstep sp_exec) ?s" by (rule worn_pool_reach) (simp add: INT_MAX_def)
  show "\<not> sshutdown ?s" "job_list ?s = []" "jran ?s = jadded ?s"
    by (simp_all add: worn_pool_def simple_pool_def Let_def job_list_def)
  have n: "int (nat INT_MAX) = INT_MAX" by (simp add: INT_MAX_def)
  show "run_actions sp_exec [SCall 0 5, SAdd 0 None, SAdd 0 None, SAdd 0 None] ?s =
      Some (?s\<lparr>slock := Some (SCaller 0), callers := [AStore 5], undefined_run := True\<rparr>)"
    unfolding worn_pool_def Let_def n
    by (simp add: simple_pool_def sp_exec_def addtask_step_def put_ca_def jobs_full_def)
qed simp

text \<open>\<^verbatim>\<open>taskRun\<close> echoes what one \<^verbatim>\<open>read\<close> delivers when the kernel takes it, up to 1023 bytes, and at end of file
  closes the connection exactly once; the \<^verbatim>\<open>EPOLL_CTL_DEL\<close> that follows fails, but the close has
  already taken the descriptor out of every epoll set.\<close>

theorem taskRun_echo:
  assumes "f \<in> set (opened w)" "ofile w f = None" "rdq w f = RData bs # rs" "wrq w f = []"
    "length bs < 1024"
  shows "\<exists>w'. taskRun epfd f w = (Ret (), w')
     \<and> (if bs = [] then f \<notin> set (opened w') \<and> trace w' = trace w @ [Closed f] \<and> epoll w' ep f = None
          \<and> cerrno w' = EBADF
        else trace w' = trace w @ [Sent f bs] \<and> rdq w' f = rs)"
  using assms
  by (cases "bs = []")
     (simp_all add: taskRun_def sys_read_def sys_write_def sys_close_def sys_epoll_ctl_def)

subsection \<open>Instances\<close>


theorem simple_pool_defined_witness:
  "snd (sworkers (the (run_actions sp_exec (take 9 one_job) (worn_pool 0))) ! 0) \<noteq> None"
proof -
  let ?s = "the (run_actions sp_exec (take 9 one_job) (worn_pool 0))"
  have "run_actions sp_exec (take 9 one_job) (worn_pool 0) = Some ?s" by code_simp
  then have "reach sp_init (lstep sp_exec) ?s"
    by (rule reach_run [OF worn_pool_reach, rotated]) (simp add: INT_MAX_def)
  moreover have "0 < length (sworkers ?s)" "fst (sworkers ?s ! 0) = SRun" by code_simp+
  ultimately show ?thesis using simple_pool_defined [of ?s 0] by blast
qed

theorem taskRun_echo_witness:
  "\<exists>w'. taskRun 9 5 (conn_world 5 [RData ''hi'']) = (Ret (), w') \<and> trace w' = [Sent 5 ''hi'']"
  using taskRun_echo [of 5 "conn_world 5 [RData ''hi'']" "''hi''" "[]" 9 0] by auto

end
