(* ===== verification/SimpleServer.thy ===== *)
theory SimpleServer
  imports SimplePool
begin

section \<open>The echo server on the simple thread pool, as one system (threadpoolsimple.c)\<close>

text \<open>
  The pool of \<open>SimplePool\<close>, the event loop of \<^verbatim>\<open>main\<close> and the kernel, composed. The main thread is the pool's only
  caller of \<^verbatim>\<open>addtask\<close>; each worker runs \<^verbatim>\<open>taskRun\<close> between two system calls of which every other thread can move.
  Here the kernel is not scripted: \<^verbatim>\<open>epoll_wait\<close> may report a connection when, and as long as, there is something to
  read on it (level-triggered), and data, ends of file and connections arrive at any time (\<open>VArrive\<close>, \<open>VHangup\<close>,
  \<open>VConn\<close>). An end of file is one read result of no bytes; as it stays readable, \<open>VHangup\<close> may come
  repeatedly. Writes are taken whole.
\<close>

subsection \<open>taskRun, one system call at a time\<close>

datatype tpc = TRead | TWrite fd "byte list" | TClose | TDel | TEnd

definition task_step :: "fd \<Rightarrow> fd \<Rightarrow> tpc \<Rightarrow> ('z world_scheme, tpc) io" where
  "task_step epfd f pc =
     (case pc of
        TRead \<Rightarrow>
          andthen (sys_read f 1024) (\<lambda>r.
            if fst r = 0 then ret TClose
            else if fst r > 0 then
              (if fst r = 1024 \<and> NUL \<notin> set (snd r) then undef else ret (TWrite f (snd r)))
            else ret TEnd)
      | TWrite g bs \<Rightarrow> andthen (sys_write g bs) (\<lambda>_. ret TEnd)
      | TClose \<Rightarrow> andthen (sys_close f) (\<lambda>_. ret TDel)
      | TDel \<Rightarrow> andthen (sys_epoll_ctl epfd EPOLL_CTL_DEL f {EPOLLIN} f) (\<lambda>_. ret TEnd)
      | TEnd \<Rightarrow> ret TEnd)"

text \<open>Without interference the steps are the function.\<close>

lemma task_steps_are_taskRun:
  "andthen (task_step epfd f TRead) (\<lambda>p. andthen (task_step epfd f p) (\<lambda>p.
     andthen (task_step epfd f p) (\<lambda>_. ret ()))) = taskRun epfd f"
  by (rule ext) (auto simp: taskRun_def task_step_def andthen_def ret_def undef_def split: prod.splits outcome.splits)

subsection \<open>The server\<close>

record server =
  pool :: sp
  kern :: world
  slfd :: fd
  sepfd :: fd
  task_epfd :: fd                        \<comment> \<open>what the unassigned field \<^verbatim>\<open>epfd\<close> of a task holds\<close>
  todo :: "(epmask \<times> int) list"          \<comment> \<open>the events of the current \<^verbatim>\<open>epoll_wait\<close> still to be handled\<close>
  tpcs :: "tpc list"                     \<comment> \<open>where each worker is in \<^verbatim>\<open>taskRun\<close>\<close>
  halted :: bool                         \<comment> \<open>the process has exited or undefined behaviour has happened\<close>
  arrived :: "fd \<Rightarrow> byte list"           \<comment> \<open>history: everything that has arrived on a connection\<close>

text \<open>
  \<^verbatim>\<open>main\<close> up to its loop. \<open>Ret None\<close>: the pool's own allocation failed, which \<^verbatim>\<open>main\<close> does not look at.
\<close>

definition server_setup ::
  "bool \<times> bool \<times> bool \<Rightarrow> job \<Rightarrow> fd \<Rightarrow> world \<Rightarrow> server option outcome" where
  "server_setup mal junk jep w =
     (case create_threadpool 3 100 mal junk 1 of
        Exit c \<Rightarrow> Exit c | Blocked \<Rightarrow> Blocked | Undef \<Rightarrow> Undef
      | Ret p \<Rightarrow>
          (case simple_setup w of
             (Ret (lfd, epfd), w') \<Rightarrow>
               Ret (map_option (\<lambda>p. \<lparr>pool = p, kern = w', slfd = lfd, sepfd = epfd, task_epfd = jep, todo = [],
                      tpcs = replicate 3 TRead, halted = False, arrived = (\<lambda>_. [])\<rparr>) p)
           | (Exit c, _) \<Rightarrow> Exit c | (Blocked, _) \<Rightarrow> Blocked | (Undef, _) \<Rightarrow> Undef))"

text \<open>The call of \<^verbatim>\<open>epoll_wait\<close> and the test of its result.\<close>

definition main_wait :: "fd \<Rightarrow> ('z world_scheme, (epmask \<times> int) list) io" where
  "main_wait epfd =
     andthen (sys_epoll_wait epfd 1024) (\<lambda>r. if fst r < 0 then perr_exit ''epoll_wait'' else ret (snd r))"

lemma simple_round_main_wait:
  "simple_round lfd epfd = andthen (main_wait epfd) (dispatch_events lfd epfd)"
  by (rule ext)
     (auto simp: simple_round_def main_wait_def andthen_def ret_def sys_epoll_wait_def fail_with_def perr_exit_def
       exit_with_def Let_def split: list.splits ep_res.splits)

text \<open>The rest of a step after a call on the kernel that returned.\<close>

definition after :: "'a outcome \<times> world \<Rightarrow> ('a \<Rightarrow> server \<Rightarrow> server) \<Rightarrow> server \<Rightarrow> server option" where
  "after r k v =
     (case r of
        (Ret x, w) \<Rightarrow> Some (k x (v\<lparr>kern := w\<rparr>))
      | (Blocked, w) \<Rightarrow> None
      | (_, w) \<Rightarrow> Some (v\<lparr>kern := w, halted := True\<rparr>))"

datatype vact =
    VPoll "fd list"              \<comment> \<open>\<^verbatim>\<open>main\<close>: \<^verbatim>\<open>epoll_wait\<close> reports these descriptors\<close>
  | VPollFail errno
  | VEvent                       \<comment> \<open>\<^verbatim>\<open>main\<close>: one pass of the \<^verbatim>\<open>for\<close> loop, up to the call of \<^verbatim>\<open>addtask\<close>\<close>
  | VAdd "nat option"            \<comment> \<open>\<^verbatim>\<open>main\<close>: a step of \<^verbatim>\<open>addtask\<close>\<close>
  | VWork nat "nat option"       \<comment> \<open>a worker: a step of \<^verbatim>\<open>thrRun\<close>\<close>
  | VTask nat                    \<comment> \<open>a worker: a system call of \<^verbatim>\<open>taskRun\<close>\<close>
  | VSpurTask nat | VSpurRoom nat
  | VArrive fd "byte list" | VHangup fd | VConn fd

definition readable :: "fd \<Rightarrow> world \<Rightarrow> bool" where
  "readable f w \<longleftrightarrow> f \<in> set (opened w) \<and> (rdq w f \<noteq> [] \<or> accq w f \<noteq> [])"

definition main_free :: "server \<Rightarrow> bool" where
  "main_free v \<longleftrightarrow> callers (pool v) ! 0 = AIdle"

definition connection :: "fd \<Rightarrow> server \<Rightarrow> bool" where
  "connection f v \<longleftrightarrow> f \<in> set (opened (kern v)) \<and> f \<notin> {0, 1, 2, slfd v, sepfd v}"

definition deliver :: "fd \<Rightarrow> rd_res \<Rightarrow> server \<Rightarrow> server" where
  "deliver f r v = v\<lparr>kern := (kern v)\<lparr>rdq := (rdq (kern v))(f := rdq (kern v) f @ [r])\<rparr>\<rparr>"

definition pool_act :: "sact \<Rightarrow> server \<Rightarrow> server option" where
  "pool_act a v = map_option (\<lambda>p. v\<lparr>pool := p\<rparr>) (sp_exec a (pool v))"

definition main_event :: "server \<Rightarrow> server option" where
  "main_event v =
     (case todo v of
        [] \<Rightarrow> None
      | (ev, d) # es \<Rightarrow>
          if d \<noteq> slfd v \<and> EPOLLIN \<in> ev
          then map_option (\<lambda>v. v\<lparr>todo := es\<rparr>) (pool_act (SCall 0 d) v)
          else after (dispatch_events (slfd v) (sepfd v) [(ev, d)] (kern v)) (\<lambda>_ v. v\<lparr>todo := es\<rparr>) v)"

definition worker_pool_act :: "nat \<Rightarrow> nat option \<Rightarrow> server \<Rightarrow> server option" where
  "worker_pool_act i c v =
     (if fst (sworkers (pool v) ! i) = SRun then
        (if tpcs v ! i = TEnd
         then map_option (\<lambda>v. v\<lparr>tpcs := (tpcs v)[i := TRead]\<rparr>) (pool_act (SWork i c) v) else None)
      else pool_act (SWork i c) v)"

definition worker_task :: "nat \<Rightarrow> server \<Rightarrow> server option" where
  "worker_task i v =
     (case sworkers (pool v) ! i of
        (SRun, Some t) \<Rightarrow>
          if tpcs v ! i = TEnd then None
          else after (task_step (task_epfd v) (jfd t) (tpcs v ! i) (kern v))
                 (\<lambda>p v. v\<lparr>tpcs := (tpcs v)[i := p]\<rparr>) v
      | _ \<Rightarrow> None)"

definition server_exec :: "vact \<Rightarrow> server \<Rightarrow> server option" where
  "server_exec a v =
     (if halted v \<or> undefined_run (pool v) then None
      else case a of
        VPoll fds \<Rightarrow>
          if main_free v \<and> todo v = [] \<and> fds \<noteq> [] \<and> distinct fds
             \<and> (\<forall>f \<in> set fds. readable f (kern v) \<and> epoll (kern v) (sepfd v) f \<noteq> None)
          then after (main_wait (sepfd v) ((kern v)\<lparr>epq := [EpReady (map (\<lambda>f. (f, {EPOLLIN})) fds)]\<rparr>))
                 (\<lambda>evs v. v\<lparr>todo := evs\<rparr>) v
          else None
      | VPollFail e \<Rightarrow>
          if main_free v \<and> todo v = []
          then after (main_wait (sepfd v) ((kern v)\<lparr>epq := [EpFail e]\<rparr>)) (\<lambda>evs v. v\<lparr>todo := evs\<rparr>) v
          else None
      | VEvent \<Rightarrow> if main_free v then main_event v else None
      | VAdd c \<Rightarrow> pool_act (SAdd 0 c) v
      | VWork i c \<Rightarrow> if i < length (tpcs v) then worker_pool_act i c v else None
      | VTask i \<Rightarrow> if i < length (tpcs v) then worker_task i v else None
      | VSpurTask i \<Rightarrow> pool_act (SpurTask i) v
      | VSpurRoom j \<Rightarrow> pool_act (SpurRoom j) v
      | VArrive f bs \<Rightarrow>
          if connection f v \<and> bs \<noteq> []
          then Some ((deliver f (RData bs) v)\<lparr>arrived := (arrived v)(f := arrived v f @ bs)\<rparr>) else None
      | VHangup f \<Rightarrow> if connection f v then Some (deliver f (RData []) v) else None
      | VConn c \<Rightarrow>
          Some (v\<lparr>kern := (kern v)\<lparr>accq := (accq (kern v))(slfd v := accq (kern v) (slfd v) @ [AConn c])\<rparr>\<rparr>))"

definition server_init :: "server \<Rightarrow> bool" where
  "server_init v \<longleftrightarrow> (\<exists>mal junk jep q. server_setup mal junk jep (world0\<lparr>netq := q\<rparr>) = Ret (Some v))"

subsection \<open>The server's pool is the pool\<close>

lemma afterE:
  assumes "after r k v = Some v'"
  obtains x w where "r = (Ret x, w)" "v' = k x (v\<lparr>kern := w\<rparr>)"
        | o' w where "r = (o', w)" "v' = v\<lparr>kern := w, halted := True\<rparr>" "\<And>x. o' \<noteq> Ret x"
  using assms by (cases r; cases "fst r") (auto simp: after_def)

lemma pool_actE:
  assumes "pool_act a v = Some v'"
  obtains p where "sp_exec a (pool v) = Some p" "v' = v\<lparr>pool := p\<rparr>"
  using assms by (auto simp: pool_act_def)

lemma main_eventE:
  assumes "main_event v = Some v'"
  obtains (add) ev d es p where "todo v = (ev, d) # es" "sp_exec (SCall 0 d) (pool v) = Some p"
      "v' = v\<lparr>pool := p, todo := es\<rparr>"
    | (event) ev d es where "todo v = (ev, d) # es" "d = slfd v \<or> EPOLLIN \<notin> ev"
      "after (dispatch_events (slfd v) (sepfd v) [(ev, d)] (kern v)) (\<lambda>_ v. v\<lparr>todo := es\<rparr>) v = Some v'"
  using assms
  by (auto simp: main_event_def pool_act_def simp del: dispatch_events.simps split: list.splits prod.splits if_splits)







subsection \<open>No byte is lost or invented\<close>

fun bytes_of :: "rd_res list \<Rightarrow> byte list" where
  "bytes_of [] = []"
| "bytes_of (RData bs # rs) = bs @ bytes_of rs"
| "bytes_of (RFail e # rs) = bytes_of rs"

lemma bytes_of_append [simp]: "bytes_of (rs @ qs) = bytes_of rs @ bytes_of qs"
  by (induction rs rule: bytes_of.induct) auto

fun in_hand :: "fd \<Rightarrow> tpc \<Rightarrow> byte multiset" where
  "in_hand f (TWrite g bs) = (if f = g then mset bs else {#})"
| "in_hand f _ = {#}"

definition kern_plain :: "world \<Rightarrow> bool" where
  "kern_plain w \<longleftrightarrow> (\<forall>f. wrq w f = [] \<and> ofile w f = None \<and> \<not> nonblk w f \<and> (\<forall>e. RFail e \<notin> set (rdq w f)))"

text \<open>With \<open>A\<close> arrived and \<open>H\<close> in the hands of workers; it is claimed of a descriptor until its first close.\<close>

definition conserved :: "(fd \<Rightarrow> byte list) \<Rightarrow> (fd \<Rightarrow> byte multiset) \<Rightarrow> world \<Rightarrow> bool" where
  "conserved A H w \<longleftrightarrow> kern_plain w \<and> (\<forall>f. close_count f (trace w) = 0 \<longrightarrow>
     mset (A f) = mset (sent_on f (trace w)) + H f + mset (bytes_of (rdq w f))
     \<and> (A f \<noteq> [] \<longrightarrow> f \<in> set (opened w)))"






definition hands :: "tpc list \<Rightarrow> fd \<Rightarrow> byte multiset" where
  "hands ps f = sum_list (map (in_hand f) ps)"



definition server_inv :: "server \<Rightarrow> bool" where
  "server_inv v \<longleftrightarrow> halted v \<or> conserved (arrived v) (hands (tpcs v)) (kern v)"


lemma server_inv_pool [simp]:
  "server_inv (v\<lparr>pool := p\<rparr>) = server_inv v" "server_inv (v\<lparr>todo := es\<rparr>) = server_inv v"
  by (simp_all add: server_inv_def)


lemma keeps_main_wait:
  "keeps P (sys_epoll_wait ep 1024) \<Longrightarrow> keeps P (main_wait ep)"
  unfolding main_wait_def perr_exit_def by (intro keeps_andthen keeps_if keeps_basic)

lemma keeps_dispatch:
  assumes "keeps P (Accept l)" "\<And>f. keeps P (sys_epoll_ctl ep EPOLL_CTL_ADD f {EPOLLIN} f)"
  shows "keeps P (dispatch_events l ep es)"
proof (induction es)
  case (Cons e es)
  then show ?case
    by (cases e; simp only: dispatch_events.simps) (intro keeps_andthen keeps_if keeps_basic assms Cons.IH)
qed (simp only: dispatch_events.simps keeps_basic)











subsection \<open>What the threads can do to one another's connections\<close>

definition server0 :: server where
  "server0 = the (case server_setup (True, True, True) (Job 0 0) 0 world0 of Ret v \<Rightarrow> v | _ \<Rightarrow> None)"

abbreviation server_run :: "vact list \<Rightarrow> server \<Rightarrow> server option" where
  "server_run \<equiv> run_actions server_exec"

definition connect_one :: "fd \<Rightarrow> vact list" where
  "connect_one f = [VConn f, VPoll [3], VEvent]"

definition add_one :: "fd \<Rightarrow> vact list" where
  "add_one f = [VPoll [f], VEvent] @ replicate 4 (VAdd None)"

definition take_one :: "nat \<Rightarrow> vact list" where
  "take_one i = replicate 4 (VWork i None)"

lemma server0_init: "server_init server0"
  unfolding server_init_def
proof (intro exI)
  show "server_setup (True, True, True) (Job 0 0) 0 (world0\<lparr>netq := []\<rparr>) = Ret (Some server0)"
    by (simp add: server0_def server_setup_def create_threadpool_def simple_setup_def tcp4bind_def Socket_def
        sys_socket_def Bind_def sys_bind_def sys_listen_def sys_epoll_create_def sys_epoll_ctl_def sys_set_reuseaddr_def
        net_verdict_def andthen_def ret_def modify_def world0_def fresh_fd_def Let_def)
qed

definition overtaking :: "vact list" where
  "overtaking = connect_one 5 @ [VArrive 5 ''a''] @ add_one 5 @ take_one 0 @ [VTask 0]
     @ [VArrive 5 ''b''] @ add_one 5 @ take_one 1 @ [VTask 1, VTask 1, VTask 0]"

lemma overtaking_run:
  "map_option (\<lambda>v. (arrived v 5, sent_on 5 (trace (kern v)), trace (kern v))) (server_run overtaking server0) =
     Some (''ab'', ''ba'', [Sent 5 ''b'', Sent 5 ''a''])"
  by code_simp

text \<open>One client's bytes can come back in another order than it sent them: two workers serve the same connection
  at the same time.\<close>

theorem server_reorders:
  "\<exists>v. reach server_init (lstep server_exec) v \<and> \<not> halted v \<and> close_count 5 (trace (kern v)) = 0
     \<and> arrived v 5 = ''ab'' \<and> sent_on 5 (trace (kern v)) = ''ba''"
proof -
  obtain v where run: "server_run overtaking server0 = Some v" using overtaking_run by (cases "server_run overtaking server0") auto
  moreover have "map_option halted (server_run overtaking server0) = Some False" by code_simp
  ultimately show ?thesis
    using overtaking_run reach_run [OF reach.start [of server_init, OF server0_init] run] by auto
qed

definition before_cross :: "vact list" where
  "before_cross = connect_one 5 @ [VArrive 5 ''a''] @ add_one 5 @ take_one 0 @ [VTask 0, VHangup 5]
     @ add_one 5 @ take_one 1 @ [VTask 1, VTask 1]"

definition crossing :: "vact list" where
  "crossing = connect_one 5 @ [VTask 0]"

lemma before_cross_run:
  "map_option (\<lambda>v. (trace (kern v), 5 \<in> set (opened (kern v)))) (server_run before_cross server0) =
     Some ([Closed 5], False)"
  "map_option (\<lambda>v. (trace (kern v), 5 \<in> set (opened (kern v)), arrived v 5)) (server_run (before_cross @ crossing) server0) =
     Some ([Closed 5, Sent 5 ''a''], True, ''a'')"
  by code_simp+

text \<open>C3: A worker that has read from a connection writes to whatever has its descriptor then: another worker may have
  closed the connection in between and the number been given to a new client, which then receives bytes that another
  client sent.\<close>

theorem server_crosses_connections:
  "\<exists>u v. reach server_init (lstep server_exec) u \<and> 5 \<notin> set (opened (kern u)) \<and> trace (kern u) = [Closed 5]
     \<and> server_run ([VConn 5, VPoll [slfd u], VEvent] @ [VTask 0]) u = Some v
     \<and> 5 \<in> set (opened (kern v)) \<and> arrived v 5 = arrived u 5 \<and> trace (kern v) = [Closed 5, Sent 5 ''a'']"
proof -
  obtain u where u: "server_run before_cross server0 = Some u"
    using before_cross_run(1) by (cases "server_run before_cross server0") auto
  obtain v where v: "server_run crossing u = Some v" "arrived v 5 = ''a''" "5 \<in> set (opened (kern v))"
      "trace (kern v) = [Closed 5, Sent 5 ''a'']"
    using before_cross_run(2) u by (auto simp: run_actions_append split: option.splits)
  have "map_option (\<lambda>v. (slfd v, arrived v 5)) (server_run before_cross server0) = Some (3, ''a'')" by code_simp
  then have "slfd u = 3" "arrived u 5 = ''a''" using u by simp_all
  then show ?thesis
    using v u before_cross_run(1) reach_run [OF reach.start [of server_init, OF server0_init] u]
    by (intro exI [of _ u] exI [of _ v]) (simp add: crossing_def connect_one_def)
qed

subsection \<open>One silent client\<close>

text \<open>
  All workers wait in \<^verbatim>\<open>read\<close> for connection \<open>f\<close>, on which there is nothing to read.
\<close>

definition all_wait :: "fd \<Rightarrow> server \<Rightarrow> bool" where
  "all_wait f v \<longleftrightarrow> f \<in> set (opened (kern v)) \<and> ofile (kern v) f = None \<and> \<not> nonblk (kern v) f \<and> rdq (kern v) f = []
     \<and> length (sworkers (pool v)) = length (tpcs v)
     \<and> (\<forall>i < length (tpcs v). tpcs v ! i = TRead \<and> (\<exists>t. sworkers (pool v) ! i = (SRun, Some t) \<and> jfd t = f))"

fun serves :: "fd \<Rightarrow> vact \<Rightarrow> bool" where
  "serves f (VArrive g bs) = (g = f)"
| "serves f (VHangup g) = (g = f)"
| "serves f _ = False"

lemma sp_exec_workers:
  assumes "sp_exec a p = Some p'" "\<And>i c. a \<noteq> SWork i c"
  shows "sworkers p' = sworkers p"
  using assms
  by (cases a) (auto simp: sp_exec_def addtask_step_def destroy_step_def put_ca_def push_job_def Let_def
      split: if_splits apc.splits kpc.splits)

definition quiet :: "fd \<Rightarrow> sysev list \<Rightarrow> world \<Rightarrow> bool" where
  "quiet f T w \<longleftrightarrow> f \<in> set (opened w) \<and> ofile w f = None \<and> \<not> nonblk w f \<and> rdq w f = [] \<and> trace w = T"

lemma quiet_calls:
  "keeps (quiet f T) (sys_epoll_ctl ep op g ev d)" "keeps (quiet f T) (sys_epoll_wait ep n)"
  "keeps (quiet f T) (Accept l)"
proof -
  show "keeps (quiet f T) (Accept l)"
    unfolding keeps_def
  proof (intro allI impI)
    fix w
    assume "quiet f T w"
    then show "quiet f T (snd (Accept l w))"
      by (cases rule: Accept_cases [of l w]) (auto simp: quiet_def)
  qed
qed (auto simp: keeps_def quiet_def sys_epoll_ctl_def sys_epoll_wait_def fail_with_def Let_def
    split: epop.splits list.splits ep_res.splits)

lemmas quiet_loop = keeps_main_wait [OF quiet_calls(2)] keeps_dispatch [OF quiet_calls(3,1)]

lemma all_wait_quiet: "all_wait f v \<Longrightarrow> quiet f (trace (kern v)) (kern v)"
  by (simp add: all_wait_def quiet_def)

lemma all_wait_kern:
  assumes "all_wait f v" "quiet f (trace (kern v)) w"
  shows "all_wait f (v\<lparr>kern := w\<rparr>)" "trace w = trace (kern v)"
  using assms by (simp_all add: all_wait_def quiet_def)

lemma all_wait_fields [simp]:
  "all_wait f (v\<lparr>todo := es\<rparr>) = all_wait f v" "all_wait f (v\<lparr>halted := b\<rparr>) = all_wait f v"
  by (simp_all add: all_wait_def)

lemma all_wait_pool:
  assumes "all_wait f v" "sp_exec a (pool v) = Some p" "\<And>i c. a \<noteq> SWork i c"
  shows "all_wait f (v\<lparr>pool := p\<rparr>)"
  using assms(1) sp_exec_workers [OF assms(2,3)] by (simp add: all_wait_def)

lemma all_wait_after:
  assumes "all_wait f v" "after (m w) (\<lambda>x v. v\<lparr>todo := g x\<rparr>) v = Some v'"
    "keeps (quiet f (trace (kern v))) m" "quiet f (trace (kern v)) w"
  shows "all_wait f v' \<and> trace (kern v') = trace (kern v)"
  using assms(2)
proof (cases rule: afterE)
  case (1 x w')
  with all_wait_kern [OF assms(1) keepsD [OF assms(3,4) 1(1)]] show ?thesis by simp
next
  case (2 o' w')
  with all_wait_kern [OF assms(1) keepsD [OF assms(3,4) 2(1)]] show ?thesis
    by (simp add: all_wait_def)
qed

lemma all_wait_step:
  assumes wait: "all_wait f v" and exec: "server_exec a v = Some v'" and other: "\<not> serves f a"
  shows "all_wait f v' \<and> trace (kern v') = trace (kern v)"
proof -
  have q: "quiet f (trace (kern v)) ((kern v)\<lparr>epq := r\<rparr>)" for r
    using all_wait_quiet [OF wait] by (simp add: quiet_def)
  show ?thesis
  proof (cases a)
    case VEvent
    with exec have "main_event v = Some v'" by (simp add: server_exec_def split: if_splits)
    then show ?thesis
    proof (cases rule: main_eventE)
      case (add ev d es p)
      then show ?thesis using all_wait_pool [OF wait add(2)] by simp
    next
      case (event ev d es)
      show ?thesis by (rule all_wait_after [OF wait event(3) quiet_loop(2) all_wait_quiet [OF wait]])
    qed
  next
    case (VWork i c)
    with exec wait show ?thesis by (auto simp: server_exec_def worker_pool_act_def all_wait_def split: if_splits)
  next
    case (VTask i)
    with exec wait show ?thesis
      by (auto simp: server_exec_def worker_task_def all_wait_def task_step_def andthen_def sys_read_def after_def
          split: if_splits)
  next
    case (VPoll fds)
    with exec show ?thesis
      by (auto simp: server_exec_def split: if_splits intro!: all_wait_after [OF wait _ quiet_loop(1) q])
  next
    case (VPollFail e)
    with exec show ?thesis
      by (auto simp: server_exec_def split: if_splits intro!: all_wait_after [OF wait _ quiet_loop(1) q])
  qed (use exec wait other in \<open>auto simp: server_exec_def all_wait_def deliver_def sp_exec_workers
        split: if_splits elim!: pool_actE\<close>)
qed

lemma all_wait_run:
  assumes "all_wait f v" "server_run as v = Some v'" "\<forall>a \<in> set as. \<not> serves f a"
  shows "trace (kern v') = trace (kern v)"
  using assms
proof (induction as arbitrary: v)
  case (Cons a as)
  then show ?case using all_wait_step [of f v a] by (fastforce split: option.splits)
qed simp

text \<open>Four events for one message, before a worker has read it: then all three workers are in \<^verbatim>\<open>read\<close>.\<close>

definition silence :: "vact list" where
  "silence = connect_one 5 @ connect_one 6 @ [VArrive 5 ''a''] @ concat (replicate 4 (add_one 5))
     @ take_one 0 @ [VTask 0, VTask 0, VWork 0 None] @ take_one 0 @ take_one 1 @ take_one 2 @ [VArrive 6 ''x'']"

text \<open>C2: One client that sends a single message and then nothing can stop the whole server: four events for its message
  are queued before a worker has read it, one worker echoes it, and all three then wait in \<^verbatim>\<open>read\<close> on that connection.
  Whatever the other clients send from then on, and however the threads are scheduled, nothing is sent to anybody
  until that client moves.\<close>

theorem server_one_client_stalls_all:
  "\<exists>v. reach server_init (lstep server_exec) v \<and> server_run silence server0 = Some v \<and> \<not> halted v \<and> arrived v 5 = ''a'' \<and> sent_on 5 (trace (kern v)) = ''a''
     \<and> readable 6 (kern v) \<and> arrived v 6 = ''x''
     \<and> (\<forall>as v'. server_run as v = Some v' \<longrightarrow> (\<forall>a \<in> set as. \<not> serves 5 a) \<longrightarrow> trace (kern v') = trace (kern v))"
proof -
  let ?obs = "\<lambda>v. (halted v, arrived v 5, arrived v 6, sent_on 5 (trace (kern v)))"
  let ?wait = "\<lambda>v. ((5 \<in> set (opened (kern v)), ofile (kern v) 5, nonblk (kern v) 5, rdq (kern v) 5),
      (tpcs v, sworkers (pool v)), readable 6 (kern v))"
  have run: "map_option ?obs (server_run silence server0) = Some (False, ''a'', ''x'', ''a'')"
    and wait: "map_option ?wait (server_run silence server0) = Some ((True, None, False, []),
      ([TRead, TRead, TRead], [(SRun, Some (Job 1 5)), (SRun, Some (Job 2 5)), (SRun, Some (Job 3 5))]), True)"
    by code_simp+
  then obtain v where v: "server_run silence server0 = Some v" by (cases "server_run silence server0") auto
  have "all_wait 5 v"
    using wait v by (simp add: all_wait_def less_Suc_eq)
  with run wait v all_wait_run reach_run [OF reach.start [of server_init, OF server0_init] v] show ?thesis
    by (intro exI [of _ v]) auto
qed

subsection \<open>Instances\<close>




theorem server_one_client_stalls_all_witness:
  "map_option (\<lambda>v. trace (kern v)) (server_run (silence @ add_one 6) server0) = Some [Sent 5 ''a'']"
proof -
  obtain v where v: "server_run silence server0 = Some v"
    and stall: "\<forall>as v'. server_run as v = Some v' \<longrightarrow> (\<forall>a \<in> set as. \<not> serves 5 a) \<longrightarrow> trace (kern v') = trace (kern v)"
    using server_one_client_stalls_all by blast
  have "map_option (\<lambda>v. trace (kern v)) (server_run silence server0) = Some [Sent 5 ''a'']"
    and "server_run (silence @ add_one 6) server0 \<noteq> None" by code_simp+
  moreover from this obtain v' where "server_run (add_one 6) v = Some v'"
    using v by (auto simp: run_actions_append)
  moreover have "\<forall>a \<in> set (add_one 6). \<not> serves 5 a" by (simp add: add_one_def)
  ultimately show ?thesis using v stall by (auto simp: run_actions_append)
qed

end
