(* ===== verification/SlotTable.thy ===== *)
theory SlotTable
  imports Prelude "HOL-Library.Multiset"
begin

section \<open>Tables of descriptors searched from the front\<close>

text \<open>
  The \<^verbatim>\<open>poll\<close> server, the reactor and the libevent server keep one array with an entry per connection, take
  the first vacant entry for a new connection and mark it vacant when the connection ends. They
  differ in the entries and in what marks one vacant, which are the parameters of the locale.
\<close>

locale slots =
  fixes vacant :: "'e \<Rightarrow> bool"
    and fd_of :: "'e \<Rightarrow> fd"
    and clear :: "'e \<Rightarrow> 'e"
  assumes vacant_clear: "vacant (clear e)"
begin

definition active :: "'e list \<Rightarrow> fd list" where
  "active tbl = map fd_of (filter (\<lambda>e. \<not> vacant e) tbl)"

lemma active_append [simp]: "active (xs @ ys) = active xs @ active ys"
  by (simp add: active_def)

lemma active_Cons: "active (e # es) = (if vacant e then [] else [fd_of e]) @ active es"
  by (simp add: active_def)

lemma active_at:
  assumes "i < length tbl"
  shows "active (tbl[i := e]) = active (take i tbl) @ (if vacant e then [] else [fd_of e]) @ active (drop (Suc i) tbl)"
    "active tbl = active (take i tbl) @ (if vacant (tbl ! i) then [] else [fd_of (tbl ! i)]) @ active (drop (Suc i) tbl)"
proof -
  show "active (tbl[i := e]) = active (take i tbl) @ (if vacant e then [] else [fd_of e]) @ active (drop (Suc i) tbl)"
    by (simp add: upd_conv_take_nth_drop [OF assms] active_Cons)
  have "tbl = take i tbl @ tbl ! i # drop (Suc i) tbl" by (rule id_take_nth_drop [OF assms])
  then have "active tbl = active (take i tbl @ tbl ! i # drop (Suc i) tbl)" by simp
  then show "active tbl = active (take i tbl) @ (if vacant (tbl ! i) then [] else [fd_of (tbl ! i)]) @ active (drop (Suc i) tbl)"
    by (simp add: active_Cons)
qed

text \<open>Taking a vacant entry adds its descriptor, clearing an entry removes it; nothing else changes.\<close>

lemma active_put:
  assumes "i < length tbl" "vacant (tbl ! i)" "\<not> vacant e"
  shows "mset (active (tbl[i := e])) = add_mset (fd_of e) (mset (active tbl))"
  using assms by (simp add: active_at(1) active_at(2) [OF assms(1)])

lemma active_clear:
  assumes "i < length tbl" "\<not> vacant (tbl ! i)"
  shows "add_mset (fd_of (tbl ! i)) (mset (active (tbl[i := clear (tbl ! i)]))) = mset (active tbl)"
  using assms by (simp add: active_at(1) active_at(2) [OF assms(1)] vacant_clear)

lemma active_nth: "i < length tbl \<Longrightarrow> \<not> vacant (tbl ! i) \<Longrightarrow> fd_of (tbl ! i) \<in> set (active tbl)"
  by (simp add: active_at(2))

text \<open>The first vacant entry: found unless the table is full.\<close>

lemma first_vacant:
  assumes "first_index vacant tbl < length tbl"
  shows "vacant (tbl ! first_index vacant tbl)"
  using assms by (rule first_index_hit)

lemma full_iff: "first_index vacant tbl = length tbl \<longleftrightarrow> length (active tbl) = length tbl"
proof
  assume "first_index vacant tbl = length tbl"
  then show "length (active tbl) = length tbl" by (simp add: first_index_none active_def)
next
  assume "length (active tbl) = length tbl"
  then have "filter (\<lambda>e. \<not> vacant e) tbl = tbl"
    by (simp add: active_def) (metis filter_True length_filter_less nat_neq_iff)
  then show "first_index vacant tbl = length tbl"
    by (metis (no_types, lifting) filter_id_conv first_index_none)
qed

end

end
