(* ===== verification/MuxServers.thy ===== *)
theory MuxServers
  imports Wrap SlotTable
begin

section \<open>The multiplexing echo servers (1\_select.c, 2\_poll.c, 3\_epoll.c, 4\_epoll\_et.c)\<close>

text \<open>
  \<^verbatim>\<open>concurrence_linux/9_epoll_select\<close>. Each server's variables are fields of a record that extends the kernel;
  its \<^verbatim>\<open>while (1)\<close> is \<open>rounds\<close> of one turn of the loop. What \<^verbatim>\<open>select\<close> and \<^verbatim>\<open>poll\<close> report is scripted by the same
  queue as \<^verbatim>\<open>epoll_wait\<close>.
\<close>

subsection \<open>select\<close>

definition FD_SETSIZE :: int where "FD_SETSIZE = 1024"

text \<open>\<^verbatim>\<open>select\<close> on the read set \<open>fds\<close>: the number of ready descriptors and the set of them.\<close>

definition sys_select :: "fd \<Rightarrow> fd list \<Rightarrow> ('z world_scheme, int \<times> fd list) io" where
  "sys_select maxfd fds w =
     (if \<not> set fds \<subseteq> set (opened w) then fail_with EBADF (-1, []) w
      else case epq w of
        [] \<Rightarrow> (Blocked, w)
      | EpReady rs # q \<Rightarrow>
          (let ready = filter (\<lambda>f. f \<le> maxfd \<and> (\<exists>e \<in> set rs. fst e = f \<and> EPOLLIN \<in> snd e)) fds
           in (Ret (int (length ready), ready), w\<lparr>epq := q\<rparr>))
      | EpFail e # q \<Rightarrow> fail_with e (-1, []) (w\<lparr>epq := q\<rparr>))"

record select_world = world +
  oldset :: "fd list"
  maxfd :: fd

text \<open>\<^verbatim>\<open>FD_SET\<close> of a descriptor the set has no bit for writes outside of it.\<close>

definition FD_SET :: "fd \<Rightarrow> ('z select_world_scheme, unit) io" where
  "FD_SET f w =
     (if f < 0 \<or> FD_SETSIZE \<le> f then (Undef, w)
      else (Ret (), w\<lparr>oldset := List.insert f (oldset w)\<rparr>))"

definition FD_CLR :: "fd \<Rightarrow> ('z select_world_scheme, unit) io" where
  "FD_CLR f = modify (\<lambda>w. w\<lparr>oldset := removeAll f (oldset w)\<rparr>)"

text \<open>One pass of the \<^verbatim>\<open>for\<close> body, for descriptor \<open>i\<close>; \<open>rset\<close> is the set \<^verbatim>\<open>select\<close> returned.\<close>

definition select_client :: "fd list \<Rightarrow> fd \<Rightarrow> ('z select_world_scheme, unit) io" where
  "select_client rset i =
     (if i \<in> set rset then
        andthen (sys_read i 1500) (\<lambda>r.
          if fst r < 0 then FD_CLR i
          else if fst r = 0 then FD_CLR i
          else andthen (sys_write 1 (snd r)) (\<lambda>_. andthen (sys_write i (snd r)) (\<lambda>_. ret ())))
      else ret ())"

text \<open>\<^verbatim>\<open>for (i = fd + 1; i <= maxfd; i++)\<close>\<close>

definition select_clients :: "fd list \<Rightarrow> fd \<Rightarrow> ('z select_world_scheme, unit) io" where
  "select_clients rset fd =
     andthen (gets maxfd) (\<lambda>mx. foreach (select_client rset) [fd + 1 .. mx])"

definition select_accept :: "fd \<Rightarrow> ('z select_world_scheme, unit) io" where
  "select_accept fd =
     andthen (Accept fd) (\<lambda>cfd.
     andthen (FD_SET cfd) (\<lambda>_.
     modify (\<lambda>w. if cfd > maxfd w then w\<lparr>maxfd := cfd\<rparr> else w)))"

text \<open>One turn of the loop; \<^verbatim>\<open>break\<close> leads to the final \<^verbatim>\<open>Close(fd)\<close> and the end of the program.\<close>

definition select_round :: "fd \<Rightarrow> ('z select_world_scheme, unit) io" where
  "select_round fd =
     andthen (gets maxfd) (\<lambda>mx.
     andthen (gets oldset) (\<lambda>fds.
     andthen (sys_select mx fds) (\<lambda>r.
       if fst r < 0 then andthen (Close fd) (\<lambda>_. exit_with 0)
       else if fst r = 0 then ret ()
       else if fd \<in> set (snd r) then
         andthen (select_accept fd) (\<lambda>_.
           if fst r - 1 = 0 then ret () else select_clients (snd r) fd)
       else select_clients (snd r) fd)))"

definition select_main :: "16 word option \<Rightarrow> nat \<Rightarrow> ('z select_world_scheme, unit) io" where
  "select_main port n =
     (case port of
        None \<Rightarrow> exit_with 1
      | Some p \<Rightarrow>
          andthen (tcp4bind p None) (\<lambda>fd.
          andthen (Listen fd 128) (\<lambda>_.
          andthen (modify (\<lambda>w. w\<lparr>maxfd := fd, oldset := []\<rparr>)) (\<lambda>_.
          andthen (FD_SET fd) (\<lambda>_.
          rounds n (select_round fd))))))"

subsection \<open>poll\<close>

definition OPEN_MAX :: nat where "OPEN_MAX = 1024"

text \<open>
  \<^verbatim>\<open>struct pollfd client[]\<close> as two arrays: the descriptors and the returned events, which \<^verbatim>\<open>main\<close> does not
  initialise.
\<close>

record poll_world = world +
  client_fd :: "fd list"
  revents :: "epmask list"
  maxi :: nat

definition poll_result :: "(fd \<times> epmask) list \<Rightarrow> fd \<Rightarrow> epmask" where
  "poll_result rs f =
     (if f < 0 then {} else \<Union> (snd ` {e \<in> set rs. fst e = f}) \<inter> {EPOLLIN, EPOLLERR, EPOLLHUP})"

text \<open>\<^verbatim>\<open>poll(client, nfds, -1)\<close>: it writes the \<^verbatim>\<open>revents\<close> of the first \<open>nfds\<close> entries, unless it fails.\<close>

definition sys_poll :: "nat \<Rightarrow> ('z poll_world_scheme, int) io" where
  "sys_poll nfds w =
     (case epq w of
        [] \<Rightarrow> (Blocked, w)
      | EpReady rs # q \<Rightarrow>
          (let new = map (poll_result rs) (take nfds (client_fd w))
           in (Ret (count_if (\<lambda>m. m \<noteq> {}) new), w\<lparr>revents := new @ drop nfds (revents w), epq := q\<rparr>))
      | EpFail e # q \<Rightarrow> fail_with e (-1) (w\<lparr>epq := q\<rparr>))"

definition set_client :: "nat \<Rightarrow> fd \<Rightarrow> ('z poll_world_scheme, unit) io" where
  "set_client i f = modify (\<lambda>w. w\<lparr>client_fd := (client_fd w)[i := f]\<rparr>)"

text \<open>The index the search loop \<^verbatim>\<open>for (i = 1; i < OPEN_MAX; i++)\<close> ends with.\<close>

definition free_client :: "fd list \<Rightarrow> nat" where
  "free_client fds = 1 + first_index (\<lambda>f. f < 0) (drop 1 fds)"

definition poll_accept :: "fd \<Rightarrow> ('z poll_world_scheme, unit) io" where
  "poll_accept listenfd =
     andthen (Accept listenfd) (\<lambda>connfd.
     andthen (gets client_fd) (\<lambda>fds.
       let i = free_client fds in
       if i = OPEN_MAX then perr_exit ''too many clients''
       else andthen (set_client i connfd) (\<lambda>_.
            modify (\<lambda>w. if i > maxi w then w\<lparr>maxi := i\<rparr> else w))))"

definition poll_client :: "fd \<Rightarrow> nat \<Rightarrow> ('z poll_world_scheme, unit) io" where
  "poll_client sockfd i =
     andthen (sys_read sockfd 128) (\<lambda>r.
       if fst r < 0 then
         andthen (gets cerrno) (\<lambda>e.
           if e = ECONNRESET then andthen (Close sockfd) (\<lambda>_. set_client i (-1))
           else perr_exit ''read error'')
       else if fst r = 0 then andthen (Close sockfd) (\<lambda>_. set_client i (-1))
       else andthen (sys_write 1 (snd r)) (\<lambda>_. andthen (sys_write sockfd (snd r)) (\<lambda>_. ret ())))"

text \<open>\<^verbatim>\<open>for (i = 1; i <= maxi; i++)\<close>, with the countdown of \<^verbatim>\<open>nready\<close>.\<close>

fun poll_scan :: "nat list \<Rightarrow> int \<Rightarrow> ('z poll_world_scheme, unit) io" where
  "poll_scan [] nready = ret ()"
| "poll_scan (i # is) nready =
     andthen (gets (\<lambda>w. (client_fd w ! i, revents w ! i))) (\<lambda>e.
       if fst e < 0 then poll_scan is nready
       else if EPOLLIN \<in> snd e then
         andthen (poll_client (fst e) i) (\<lambda>_.
           if nready - 1 \<le> 0 then ret () else poll_scan is (nready - 1))
       else poll_scan is nready)"

definition poll_round :: "fd \<Rightarrow> ('z poll_world_scheme, unit) io" where
  "poll_round listenfd =
     andthen (gets maxi) (\<lambda>mx.
     andthen (sys_poll (mx + 1)) (\<lambda>nready.
     andthen (gets (\<lambda>w. EPOLLIN \<in> revents w ! 0)) (\<lambda>ready.
       if ready then
         andthen (poll_accept listenfd) (\<lambda>_.
           if nready - 1 \<le> 0 then ret ()
           else andthen (gets maxi) (\<lambda>mx'. poll_scan [1..<Suc mx'] (nready - 1)))
       else poll_scan [1..<Suc mx] nready)))"

definition poll_main :: "epmask list \<Rightarrow> nat \<Rightarrow> ('z poll_world_scheme, unit) io" where
  "poll_main junk n =
     andthen (tcp4bind 8080 None) (\<lambda>listenfd.
     andthen (Listen listenfd 128) (\<lambda>_.
     andthen (modify (\<lambda>w. w\<lparr>client_fd := listenfd # replicate (OPEN_MAX - 1) (-1),
                            revents := junk, maxi := 0\<rparr>)) (\<lambda>_.
     rounds n (poll_round listenfd))))"

subsection \<open>epoll, level-triggered and edge-triggered\<close>

text \<open>
  The third argument of \<^verbatim>\<open>epoll_wait\<close> is \<^verbatim>\<open>sizeof(evs)\<close>, 12288 bytes, where the array has 1024 entries: more than
  that many events are written past its end.
\<close>

definition EVS_LEN :: int where "EVS_LEN = 1024"
definition EVS_SIZEOF :: nat where "EVS_SIZEOF = 12 * 1024"

definition epoll_accept :: "fd \<Rightarrow> fd \<Rightarrow> ('z world_scheme, unit) io" where
  "epoll_accept epfd fd =
     andthen (Accept fd) (\<lambda>cfd.
     andthen (sys_epoll_ctl epfd EPOLL_CTL_ADD cfd {EPOLLIN} cfd) (\<lambda>_. ret ()))"

definition drop_client :: "fd \<Rightarrow> fd \<Rightarrow> ('z world_scheme, unit) io" where
  "drop_client epfd f =
     andthen (Close f) (\<lambda>_.
     andthen (sys_epoll_ctl epfd EPOLL_CTL_DEL f {EPOLLIN} f) (\<lambda>_. ret ()))"

definition epoll_client :: "fd \<Rightarrow> fd \<Rightarrow> ('z world_scheme, unit) io" where
  "epoll_client epfd f =
     andthen (sys_read f 1024) (\<lambda>r.
       if fst r < 0 then drop_client epfd f
       else if fst r = 0 then drop_client epfd f
       else andthen (sys_write 1 (snd r)) (\<lambda>_. andthen (sys_write f (snd r)) (\<lambda>_. ret ())))"

definition epoll_event :: "fd \<Rightarrow> fd \<Rightarrow> epmask \<times> int \<Rightarrow> ('z world_scheme, unit) io" where
  "epoll_event epfd fd e =
     (if snd e = fd \<and> EPOLLIN \<in> fst e then epoll_accept epfd fd
      else if EPOLLIN \<in> fst e then epoll_client epfd (snd e)
      else ret ())"

text \<open>One turn of the loop both programs have, with what they do for an event.\<close>

definition epoll_turn ::
  "(epmask \<times> int \<Rightarrow> ('z world_scheme, unit) io) \<Rightarrow> fd \<Rightarrow> fd \<Rightarrow> ('z world_scheme, unit) io" where
  "epoll_turn handle epfd fd =
     andthen (sys_epoll_wait epfd EVS_SIZEOF) (\<lambda>r.
       if fst r < 0 then andthen (sys_close fd) (\<lambda>_. exit_with 0)
       else if fst r > EVS_LEN then undef
       else foreach handle (snd r))"

definition epoll_round :: "fd \<Rightarrow> fd \<Rightarrow> ('z world_scheme, unit) io" where
  "epoll_round epfd fd = epoll_turn (epoll_event epfd fd) epfd fd"

definition epoll_setup :: "('z world_scheme, fd \<times> fd) io" where
  "epoll_setup =
     andthen (tcp4bind 8080 None) (\<lambda>fd.
     andthen (Listen fd 128) (\<lambda>_.
     andthen sys_epoll_create (\<lambda>epfd.
     andthen (sys_epoll_ctl epfd EPOLL_CTL_ADD fd {EPOLLIN} fd) (\<lambda>_. ret (epfd, fd)))))"

definition epoll_main :: "nat \<Rightarrow> ('z world_scheme, unit) io" where
  "epoll_main n = andthen epoll_setup (\<lambda>s. rounds n (epoll_round (fst s) (snd s)))"

text \<open>The edge-triggered server: non-blocking connections, read four bytes at a time until \<^verbatim>\<open>EAGAIN\<close>.\<close>

definition et_accept :: "fd \<Rightarrow> fd \<Rightarrow> ('z world_scheme, unit) io" where
  "et_accept epfd fd =
     andthen (Accept fd) (\<lambda>cfd.
     andthen (set_nonblock cfd) (\<lambda>_.
     andthen (sys_epoll_ctl epfd EPOLL_CTL_ADD cfd {EPOLLIN, EPOLLET} cfd) (\<lambda>_. ret ())))"

function et_drain :: "fd \<Rightarrow> fd \<Rightarrow> ('z world_scheme, unit) io" where
  "et_drain epfd f w =
     andthen (sys_read f 4) (\<lambda>r w1.
       if fst r < 0 then
         (if cerrno w1 = EAGAIN then ret () w1 else drop_client epfd f w1)
       else if fst r = 0 then drop_client epfd f w1
       else andthen (sys_write 1 (snd r)) (\<lambda>_ w2.
            andthen (sys_write f (snd r)) (\<lambda>_ w3. et_drain epfd f w3) w2) w1) w"
  by pat_completeness auto
termination
proof (relation "measure (\<lambda>(epfd, f, w). pending_size f w)", goal_cases)
  case (2 epfd f w r w1 u w2 v w3)
  then show ?case
    using sys_read_pending [of f 4 w r w1] sys_write_pending [of 1 "snd r" w1 "Ret u" w2 f]
      sys_write_pending [of f "snd r" w2 "Ret v" w3 f]
    by simp
qed simp

declare et_drain.simps [simp del]

definition et_event :: "fd \<Rightarrow> fd \<Rightarrow> epmask \<times> int \<Rightarrow> ('z world_scheme, unit) io" where
  "et_event epfd fd e =
     (if snd e = fd \<and> EPOLLIN \<in> fst e then et_accept epfd fd
      else if EPOLLIN \<in> fst e then et_drain epfd (snd e)
      else ret ())"

definition et_round :: "fd \<Rightarrow> fd \<Rightarrow> ('z world_scheme, unit) io" where
  "et_round epfd fd = epoll_turn (et_event epfd fd) epfd fd"

definition et_main :: "nat \<Rightarrow> ('z world_scheme, unit) io" where
  "et_main n = andthen epoll_setup (\<lambda>s. rounds n (et_round (fst s) (snd s)))"

subsection \<open>Properties of the select server\<close>

text \<open>No descriptor but \<open>l\<close> has been closed: the ones in \<open>X\<close> are still open.\<close>

definition unclosed :: "fd \<Rightarrow> (fd \<Rightarrow> nat) \<Rightarrow> fd set \<Rightarrow> 'z world_scheme \<Rightarrow> bool" where
  "unclosed l k X w \<longleftrightarrow>
     (\<forall>f. f \<noteq> l \<longrightarrow> close_count f (trace w) = k f \<and> (f \<in> X \<longrightarrow> f \<in> set (opened w)))"

lemma unclosed_Accept: "unclosed l k X w \<Longrightarrow> unclosed l k X (snd (Accept g w))"
  by (cases g w rule: Accept_cases) (auto simp: unclosed_def)

lemma unclosed_read: "unclosed l k X w \<Longrightarrow> unclosed l k X (snd (sys_read g n w))"
  using sys_read_frame(1,2) [of g n w "fst (sys_read g n w)" "snd (sys_read g n w)"]
  by (simp add: unclosed_def)

lemma unclosed_calls [intro!]:
  "keeps (unclosed l k X) (sys_read g n)" "keeps (unclosed l k X) (sys_write g bs)"
  "keeps (unclosed l k X) (Accept g)" "keeps (unclosed l k X) (sys_select mx fds)"
  "keeps (unclosed l k X) (FD_SET g)" "keeps (unclosed l k X) (FD_CLR g)"
  "keeps (unclosed l k X) (Close l)"
proof -
  show "keeps (unclosed l k X) (sys_read g n)"
    unfolding keeps_def using unclosed_read by blast
  show "keeps (unclosed l k X) (Accept g)"
    unfolding keeps_def using unclosed_Accept by blast
qed (auto simp: keeps_def unclosed_def sys_write_def sys_select_def FD_SET_def FD_CLR_def Let_def
      Close_def sys_close_def perr_exit_def andthen_def
      split: list.splits wr_res.splits ep_res.splits if_splits)

lemma select_round_unclosed: "keeps (unclosed fd k X) (select_round fd)"
proof -
  have "keeps (unclosed fd k X) (select_client rset i)" for rset i
    unfolding select_client_def by (auto intro!: keeps_andthen)
  then have clients: "keeps (unclosed fd k X) (select_clients rset fd)" for rset
    unfolding select_clients_def by (auto intro!: keeps_andthen keeps_foreach)
  have "keeps (unclosed fd k X) (modify (\<lambda>w. if cfd > maxfd w then w\<lparr>maxfd := cfd\<rparr> else w))" for cfd
    by (rule keeps_modify) (simp add: unclosed_def)
  then have "keeps (unclosed fd k X) (select_accept fd)"
    unfolding select_accept_def by (auto intro!: keeps_andthen)
  with clients show ?thesis
    unfolding select_round_def by (auto intro!: keeps_andthen keeps_if)
qed

text \<open>The select server leaks every connection: over any number of turns, whatever the peers do, it never
  closes a client's descriptor, so each stays open even after its peer has closed, until
  \<^verbatim>\<open>select\<close>'s sets have no room for a new one.\<close>

theorem select_server_leaks:
  assumes "rounds n (select_round fd) w = (r, w')" "f \<in> set (opened w)" "f \<noteq> fd"
  shows "f \<in> set (opened w') \<and> close_count f (trace w') = close_count f (trace w)"
proof -
  have "unclosed fd (\<lambda>g. close_count g (trace w)) (set (opened w)) w" by (simp add: unclosed_def)
  from keepsD [OF keeps_rounds [OF select_round_unclosed] this assms(1)] assms(2,3)
  show ?thesis by (simp add: unclosed_def)
qed

lemma filter_this_one: "distinct xs \<Longrightarrow> x \<in> set xs \<Longrightarrow> filter (\<lambda>y. y = x) xs = [x]"
  by (induction xs) (auto simp: filter_empty_conv)

text \<open>A turn of the select server in which one client is ready echoes what one \<^verbatim>\<open>read\<close> of that client returns
  to standard output and to the client, and reads from no other descriptor; at end of file it stops
  watching the client.\<close>

theorem select_round_one_client:
  assumes "epq w = EpReady [(f, {EPOLLIN})] # q" "f \<in> set (oldset w)" "distinct (oldset w)"
    "set (oldset w) \<subseteq> set (opened w)" "fd < f" "f \<le> maxfd w"
    "ofile w f = None" "rdq w f = RData bs # rs" "length bs \<le> 1500" "wrq w 1 = []" "wrq w f = []"
    "1 \<in> set (opened w)"
  shows "\<exists>w'. select_round fd w = (Ret (), w') \<and> rdq w' = (rdq w)(f := rs)
     \<and> (if bs = [] then oldset w' = removeAll f (oldset w) \<and> trace w' = trace w
        else oldset w' = oldset w \<and> trace w' = trace w @ [Sent 1 bs, Sent f bs])"
proof -
  let ?w1 = "w\<lparr>epq := q\<rparr>"
  have "filter (\<lambda>g. g = f) (oldset w) = [f]"
    using assms(3,2) by (rule filter_this_one)
  then have ready: "filter (\<lambda>g. g \<le> maxfd w \<and> g = f) (oldset w) = [f]"
    using assms(6) by (metis (mono_tags, lifting) filter_cong)
  have sel: "sys_select (maxfd w) (oldset w) w = (Ret (1, [f]), ?w1)"
    using assms(1,4) ready by (simp add: sys_select_def Let_def eq_commute [of f])
  have other: "foreach (select_client [f]) is v = (Ret (), v)" if "f \<notin> set is" for "is" v
    using that by (induction "is") (auto simp: select_client_def)
  have "[fd + 1..maxfd w] = [fd + 1..f - 1] @ f # [f + 1..maxfd w]"
    using assms(5,6) upto_split2 [of "fd + 1" f "maxfd w"] upto_split3 [of "fd + 1" f "maxfd w"] by simp
  moreover have "foreach g (xs @ ys) = andthen (foreach g xs) (\<lambda>_. foreach g ys)"
    for g :: "fd \<Rightarrow> ('a select_world_scheme, unit) io" and xs ys
    by (induction xs) (simp_all add: andthen_assoc)
  ultimately have "foreach (select_client [f]) [fd + 1..maxfd w] ?w1 =
      andthen (select_client [f] f) (\<lambda>_. foreach (select_client [f]) [f + 1..maxfd w]) ?w1"
    by (simp add: other)
  then show ?thesis
    using assms sel
    by (cases "bs = []")
       (simp_all add: select_round_def select_clients_def other select_client_def sys_read_def
         FD_CLR_def sys_write_def andthen_assoc subset_iff)
qed

subsection \<open>Properties of the poll server\<close>

interpretation poll_slots: slots "\<lambda>f :: fd. f < 0" "\<lambda>f. f" "\<lambda>_. -1"
  by unfold_locales simp

text \<open>
  The table has its 1024 entries with the listener first, none in use beyond \<^verbatim>\<open>maxi\<close>, and the entries in use are
  different open descriptors.
\<close>

definition poll_inv :: "fd \<Rightarrow> 'z poll_world_scheme \<Rightarrow> bool" where
  "poll_inv l w \<longleftrightarrow> length (client_fd w) = OPEN_MAX \<and> client_fd w ! 0 = l \<and> 0 \<le> l
     \<and> maxi w < OPEN_MAX \<and> (\<forall>i. maxi w < i \<and> i < OPEN_MAX \<longrightarrow> client_fd w ! i < 0)
     \<and> distinct (poll_slots.active (client_fd w))
     \<and> set (poll_slots.active (client_fd w)) \<subseteq> set (opened w)"

lemma poll_inv_read: "keeps (poll_inv l) (sys_read g n)"
  by (auto simp: keeps_def poll_inv_def sys_read_def split: option.splits list.splits rd_res.splits)

lemma poll_inv_write: "keeps (poll_inv l) (sys_write g bs)"
  by (auto simp: keeps_def poll_inv_def sys_write_def split: list.splits wr_res.splits)

lemma poll_inv_poll: "keeps (poll_inv l) (sys_poll n)"
  by (auto simp: keeps_def poll_inv_def sys_poll_def Let_def split: list.splits ep_res.splits)

lemma free_client_props:
  assumes "length fds = OPEN_MAX" "free_client fds \<noteq> OPEN_MAX"
  shows "free_client fds < OPEN_MAX" "fds ! free_client fds < 0" "0 < free_client fds"
proof -
  have "first_index (\<lambda>f. f < 0) (drop 1 fds) \<le> length (drop 1 fds)" by (rule first_index_le)
  then have less: "first_index (\<lambda>f. f < 0) (drop 1 fds) < length (drop 1 fds)"
    using assms by (simp add: free_client_def OPEN_MAX_def)
  then show "free_client fds < OPEN_MAX" using assms(1) by (simp add: free_client_def OPEN_MAX_def)
  from first_index_hit [OF less] less show "fds ! free_client fds < 0" by (simp add: free_client_def)
qed (simp add: free_client_def)

lemma poll_inv_put:
  assumes "poll_inv l w" "free_client (client_fd w) \<noteq> OPEN_MAX" "0 \<le> c" "c \<notin> set (opened w)"
    "w' = w\<lparr>accq := x, cerrno := e, opened := c # opened w, nonblk := y, ofile := z,
            client_fd := (client_fd w)[free_client (client_fd w) := c],
            maxi := max (maxi w) (free_client (client_fd w))\<rparr>"
  shows "poll_inv l w'"
proof -
  let ?i = "free_client (client_fd w)"
  have i: "?i < OPEN_MAX" "client_fd w ! ?i < 0" "0 < ?i"
    using free_client_props [of "client_fd w"] assms(1,2) by (simp_all add: poll_inv_def)
  have "mset (poll_slots.active ((client_fd w)[?i := c])) = add_mset c (mset (poll_slots.active (client_fd w)))"
    using i assms(1,3) by (intro poll_slots.active_put) (simp_all add: poll_inv_def)
  moreover have "c \<notin> set (poll_slots.active (client_fd w))" using assms(1,4) by (auto simp: poll_inv_def)
  ultimately have "distinct (poll_slots.active ((client_fd w)[?i := c]))"
    "set (poll_slots.active ((client_fd w)[?i := c])) = insert c (set (poll_slots.active (client_fd w)))"
    using assms(1) unfolding poll_inv_def
    by (metis distinct.simps(2) mset.simps(2) mset_eq_imp_distinct_iff,
        metis list.simps(15) mset.simps(2) mset_eq_setD)
  with i assms(1,5) show ?thesis by (auto simp: poll_inv_def nth_list_update)
qed

lemma poll_inv_accept: "poll_inv l w \<Longrightarrow> poll_inv l (snd (poll_accept l w))"
proof (cases l w rule: Accept_cases)
  case (conn c q e)
  let ?w1 = "w\<lparr>accq := (accq w)(l := q), cerrno := e, opened := c # opened w,
      nonblk := (nonblk w)(c := False), ofile := (ofile w)(c := None)\<rparr>"
  assume inv: "poll_inv l w"
  then have inv1: "poll_inv l ?w1" by (auto simp: poll_inv_def)
  show ?thesis
  proof (cases "free_client (client_fd w) = OPEN_MAX")
    case True
    with conn inv1 show ?thesis by (simp add: poll_accept_def perr_exit_def)
  next
    case False
    then have "snd (poll_accept l w) = ?w1\<lparr>
        client_fd := (client_fd w)[free_client (client_fd w) := c],
        maxi := max (maxi w) (free_client (client_fd w))\<rparr>"
      using conn(1) by (simp add: poll_accept_def Let_def set_client_def max_def)
    then show ?thesis by (rule poll_inv_put [OF inv False conn(2,3)]) 
  qed
next
  case (stop r q e)
  assume "poll_inv l w"
  with stop show ?thesis by (auto simp: poll_accept_def poll_inv_def andthen_def)
qed

lemma poll_inv_drop:
  assumes "poll_inv l w" "0 < i" "i < OPEN_MAX" "0 \<le> client_fd w ! i"
  shows "\<exists>w'. andthen (Close (client_fd w ! i)) (\<lambda>_. set_client i (-1)) w = (Ret (), w') \<and> poll_inv l w'"
proof -
  let ?f = "client_fd w ! i"
  have inv: "length (client_fd w) = OPEN_MAX" "distinct (poll_slots.active (client_fd w))"
    "set (poll_slots.active (client_fd w)) \<subseteq> set (opened w)" using assms(1) by (simp_all add: poll_inv_def)
  have fo: "?f \<in> set (opened w)" using poll_slots.active_nth [of i "client_fd w"] inv assms(3,4) by auto
  have "add_mset ?f (mset (poll_slots.active ((client_fd w)[i := -1]))) = mset (poll_slots.active (client_fd w))"
    using poll_slots.active_clear [of i "client_fd w"] inv(1) assms(3,4) by simp
  then have "distinct (?f # poll_slots.active ((client_fd w)[i := -1]))"
    "set (?f # poll_slots.active ((client_fd w)[i := -1])) = set (poll_slots.active (client_fd w))"
    using inv(2) by (metis mset.simps(2) mset_eq_imp_distinct_iff, metis mset.simps(2) mset_eq_setD)
  with inv(3) assms fo show ?thesis
    by (auto simp: Close_def sys_close_def set_client_def poll_inv_def nth_list_update)
qed

lemma poll_inv_client:
  assumes "poll_inv l w" "0 < i" "i < OPEN_MAX" "0 \<le> client_fd w ! i"
  shows "poll_inv l (snd (poll_client (client_fd w ! i) i w))"
proof -
  let ?f = "client_fd w ! i"
  obtain r w1 where r: "sys_read ?f 128 w = (r, w1)" by force
  have inv1: "poll_inv l w1" using keepsD [OF poll_inv_read assms(1) r] .
  have same: "client_fd w1 = client_fd w"
    using r by (auto simp: sys_read_def split: if_splits option.splits list.splits rd_res.splits)
  from poll_inv_drop [OF inv1 assms(2,3)] assms(4) same obtain w2 where w2:
    "andthen (Close ?f) (\<lambda>_. set_client i (-1)) w1 = (Ret (), w2)" "poll_inv l w2" by auto
  have "keeps (poll_inv l) (andthen (sys_write 1 bs) (\<lambda>_. andthen (sys_write ?f bs) (\<lambda>_. ret ())))" for bs
    by (intro keeps_andthen poll_inv_write keeps_basic)
  then have wr: "poll_inv l (snd (andthen (sys_write 1 bs) (\<lambda>_. andthen (sys_write ?f bs) (\<lambda>_. ret ())) w1))"
    for bs using inv1 unfolding keeps_def by blast
  show ?thesis
  proof (cases r)
    case (Ret x)
    then show ?thesis using r w2 wr [of "snd x"] inv1
      by (simp add: poll_client_def perr_exit_def)
  qed (use r inv1 in \<open>simp_all add: poll_client_def\<close>)
qed

lemma poll_inv_scan:
  "poll_inv l w \<Longrightarrow> \<forall>i \<in> set is. 0 < i \<and> i < OPEN_MAX \<Longrightarrow> poll_inv l (snd (poll_scan is nready w))"
proof (induction "is" nready arbitrary: w rule: poll_scan.induct)
  case (2 i "is" nready)
  consider "client_fd w ! i < 0" | "\<not> client_fd w ! i < 0" "EPOLLIN \<notin> revents w ! i"
    | (ready) "\<not> client_fd w ! i < 0" "EPOLLIN \<in> revents w ! i" by blast
  then show ?case
  proof cases
    case ready
    obtain r w1 where r: "poll_client (client_fd w ! i) i w = (r, w1)" by force
    have "poll_inv l w1" using poll_inv_client [of l w i] 2(4,5) ready r by simp
    with 2(2) 2(5) ready r show ?thesis by (cases r) auto
  qed (use 2 in auto)
qed simp

lemma poll_inv_round: "keeps (poll_inv l) (poll_round l)"
  unfolding keeps_def
proof (intro allI impI)
  fix w :: "'a poll_world_scheme" assume inv: "poll_inv l w"
  obtain r w1 where r: "sys_poll (maxi w + 1) w = (r, w1)" by force
  have inv1: "poll_inv l w1" using keepsD [OF poll_inv_poll inv r] .
  have same: "maxi w1 = maxi w"
    using r by (auto simp: sys_poll_def Let_def split: list.splits ep_res.splits)
  have scan: "poll_inv l (snd (poll_scan [1..<Suc (maxi v)] k v))" if "poll_inv l v"
    for k and v :: "'a poll_world_scheme"
    using that by (intro poll_inv_scan) (auto simp: poll_inv_def)
  obtain r2 w2 where r2: "poll_accept l w1 = (r2, w2)" by force
  then have inv2: "poll_inv l w2" using poll_inv_accept [OF inv1] by simp
  show "poll_inv l (snd (poll_round l w))"
    using r r2 inv1 inv2 scan [OF inv1] scan [OF inv2] same
    by (cases r; cases r2) (auto simp: poll_round_def simp del: upt_Suc)
qed

lemma tcp4bind_Ret:
  "tcp4bind p None w = (Ret l, w') \<Longrightarrow> 0 \<le> l \<and> l \<in> set (opened w')"
  by (auto simp: tcp4bind_def Socket_def Bind_def sys_socket_def sys_bind_def net_verdict_def
      sys_set_reuseaddr_def Let_def andthen_def fresh_fd_def perr_exit_def
      split: list.splits option.splits if_splits)

lemma Listen_Ret: "Listen l b w = (Ret r, w') \<Longrightarrow> opened w' = opened w"
  by (auto simp: Listen_def sys_listen_def net_verdict_def andthen_def perr_exit_def
      split: list.splits option.splits if_splits)

lemma poll_inv_start:
  assumes "0 \<le> l" "l \<in> set (opened w)"
  shows "poll_inv l (w\<lparr>client_fd := l # replicate (OPEN_MAX - 1) (-1), revents := junk, maxi := 0\<rparr>)"
proof -
  have "poll_slots.active (l # replicate (OPEN_MAX - 1) (-1)) = [l]"
    using assms(1) by (simp add: poll_slots.active_def)
  with assms show ?thesis by (auto simp: poll_inv_def OPEN_MAX_def nth_Cons split: nat.split)
qed

text \<open>C18: The poll server never leaves its table, however many clients connect and however they behave: after
  any number of turns all indices are within the 1024 entries, no entry beyond \<^verbatim>\<open>maxi\<close> is in use, and
  the entries in use are different open descriptors, the listener first.\<close>

theorem poll_server_table:
  assumes "poll_main junk n w = (Ret (), w')"
  shows "\<exists>l. poll_inv l w'"
proof -
  from assms obtain l w1 where l: "tcp4bind 8080 None w = (Ret l, w1)"
    "andthen (Listen l 128) (\<lambda>_.
       andthen (modify (\<lambda>w. w\<lparr>client_fd := l # replicate (OPEN_MAX - 1) (-1), revents := junk, maxi := 0\<rparr>))
         (\<lambda>_. rounds n (poll_round l))) w1 = (Ret (), w')"
    by (auto simp: poll_main_def dest!: andthen_RetD)
  from andthen_RetD [OF l(2)] obtain r w2 where w2: "Listen l 128 w1 = (Ret r, w2)"
    "rounds n (poll_round l) (w2\<lparr>client_fd := l # replicate (OPEN_MAX - 1) (-1), revents := junk, maxi := 0\<rparr>)
      = (Ret (), w')" by auto
  have "poll_inv l (w2\<lparr>client_fd := l # replicate (OPEN_MAX - 1) (-1), revents := junk, maxi := 0\<rparr>)"
    using tcp4bind_Ret [OF l(1)] Listen_Ret [OF w2(1)] by (intro poll_inv_start) simp_all
  then show ?thesis using keepsD [OF keeps_rounds [OF poll_inv_round] _ w2(2)] by blast
qed

subsection \<open>Properties of the epoll servers\<close>

text \<open>Both epoll servers tell \<^verbatim>\<open>epoll_wait\<close> the size of their event array in bytes: as soon as more than 1024
  descriptors are ready at once, a turn writes past the end of the array.\<close>

theorem epoll_events_overflow:
  assumes "epq w = EpReady rs # q" "1024 < length (ep_report w epfd rs)"
  shows "fst (epoll_round epfd fd w) = Undef \<and> fst (et_round epfd fd w) = Undef"
  using assms
  by (simp add: epoll_round_def et_round_def epoll_turn_def sys_epoll_wait_def Let_def
      EVS_SIZEOF_def EVS_LEN_def)

text \<open>C17: The edge-triggered server leaves nothing unread: woken once, it reads a non-blocking connection until
  \<^verbatim>\<open>EAGAIN\<close> and echoes all that has arrived, in order and in whatever pieces it came; the connection
  stays open.\<close>

theorem et_drain_echoes_all:
  assumes "f \<in> set (opened w)" "1 \<in> set (opened w)" "f \<noteq> 1" "ofile w f = None" "nonblk w f"
    "rdq w f = map RData cs" "[] \<notin> set cs" "wrq w f = []" "wrq w 1 = []"
  shows "\<exists>w'. et_drain epfd f w = (Ret (), w') \<and> rdq w' f = [] \<and> f \<in> set (opened w')
     \<and> sent_on f (trace w') = sent_on f (trace w) @ concat cs"
  using assms
proof (induction "script_size (rdq w f)" arbitrary: w cs rule: less_induct)
  case less
  show ?case
  proof (cases cs)
    case Nil
    with less.prems show ?thesis
      by (simp add: et_drain.simps [of epfd f w] sys_read_def)
  next
    case (Cons c cs')
    let ?cs = "if length c \<le> 4 then cs' else drop 4 c # cs'"
    let ?w = "w\<lparr>rdq := (rdq w)(f := map RData ?cs),
        trace := trace w @ [Sent 1 (take 4 c), Sent f (take 4 c)]\<rparr>"
    have c: "c \<noteq> []" using Cons less.prems(7) by auto
    then have step: "et_drain epfd f w = et_drain epfd f ?w"
      using Cons less.prems by (simp add: et_drain.simps [of epfd f w] sys_read_def sys_write_def)
    have "script_size (rdq ?w f) < script_size (rdq w f)"
      using less.prems(6) Cons c by (auto simp: neq_Nil_conv)
    then have "\<exists>w'. et_drain epfd f ?w = (Ret (), w') \<and> rdq w' f = [] \<and> f \<in> set (opened w')
        \<and> sent_on f (trace w') = sent_on f (trace ?w) @ concat ?cs"
      by (rule less.hyps) (use less.prems Cons in auto)
    moreover have "take 4 c @ concat ?cs = concat cs" using Cons by simp
    ultimately show ?thesis using step less.prems(3) by auto
  qed
qed

text \<open>The level-triggered server echoes what one \<^verbatim>\<open>read\<close> of a ready client returns; when the client has closed or
  the read fails for any reason, an interrupting signal included, it closes the connection, once, and the
  connection is in no epoll set any more.\<close>

theorem epoll_client_serves:
  assumes "f \<in> set (opened w)" "1 \<in> set (opened w)" "f \<noteq> 1" "ofile w f = None" "rdq w f = r # rs"
    "wrq w f = []" "wrq w 1 = []" "\<forall>bs. r = RData bs \<longrightarrow> length bs \<le> 1024"
  shows "\<exists>w'. epoll_client epfd f w = (Ret (), w') \<and>
     (case r of
        RData bs \<Rightarrow> if bs = [] then trace w' = trace w @ [Closed f] \<and> epoll w' ep f = None
                   else trace w' = trace w @ [Sent 1 bs, Sent f bs] \<and> epoll w' = epoll w
      | RFail e \<Rightarrow> trace w' = trace w @ [Closed f] \<and> epoll w' ep f = None)"
proof -
  have drop: "\<exists>w'. drop_client epfd f v = (Ret (), w') \<and> trace w' = trace v @ [Closed f] \<and> epoll w' ep f = None"
    if "f \<in> set (opened v)" for v :: "'a world_scheme"
    using that by (simp add: drop_client_def Close_def sys_close_def sys_epoll_ctl_def)
  show ?thesis
  proof (cases r)
    case (RFail e)
    with assms have "sys_read f 1024 w = (Ret (-1, []), w\<lparr>rdq := (rdq w)(f := rs), cerrno := e\<rparr>)"
      by (simp add: sys_read_def)
    with drop [of "w\<lparr>rdq := (rdq w)(f := rs), cerrno := e\<rparr>"] assms(1) RFail show ?thesis
      by (simp add: epoll_client_def)
  next
    case (RData bs)
    with assms have r: "sys_read f 1024 w = (Ret (int (length bs), bs), w\<lparr>rdq := (rdq w)(f := rs)\<rparr>)"
      by (simp add: sys_read_def)
    show ?thesis
    proof (cases "bs = []")
      case True
      with r drop [of "w\<lparr>rdq := (rdq w)(f := rs)\<rparr>"] assms(1) RData show ?thesis
        by (simp add: epoll_client_def)
    next
      case False
      with r assms RData show ?thesis by (simp add: epoll_client_def sys_write_def)
    qed
  qed
qed

subsection \<open>Instances\<close>

definition select_world0 :: select_world where
  "select_world0 = world.extend ((conn_world 5 [RData ''hi''])\<lparr>epq := [EpReady [(5, {EPOLLIN})]],
     opened := [5, 3, 0, 1, 2]\<rparr>) \<lparr>oldset = [3, 5], maxfd = 5\<rparr>"

theorem select_server_leaks_witness:
  "5 \<in> set (opened (snd (rounds 1 (select_round 3) select_world0)))"
  using select_server_leaks [of 1 3 select_world0 "fst (rounds 1 (select_round 3) select_world0)"
      "snd (rounds 1 (select_round 3) select_world0)" 5]
  by (simp add: select_world0_def world.defs)

theorem select_round_one_client_witness:
  "\<exists>w'. select_round 3 select_world0 = (Ret (), w') \<and> trace w' = [Sent 1 ''hi'', Sent 5 ''hi'']"
  using select_round_one_client [of select_world0 5 "[]" 3 "''hi''" "[]"]
  by (auto simp: select_world0_def world.defs conn_world_def world0_def)

theorem poll_server_table_witness:
  "\<exists>w' l. poll_main (replicate 1024 {}) 0 (world.extend world0 \<lparr>client_fd = [], revents = [], maxi = 0\<rparr>)
     = (Ret (), w') \<and> poll_inv l w'"
proof -
  let ?w = "world.extend world0 \<lparr>client_fd = [], revents = [], maxi = 0\<rparr>"
  have "\<exists>w'. poll_main (replicate 1024 {}) 0 ?w = (Ret (), w')"
    by (simp add: poll_main_def tcp4bind_def Socket_def Bind_def sys_socket_def sys_bind_def
        net_verdict_def sys_set_reuseaddr_def Listen_def sys_listen_def Let_def world0_def world.defs
        andthen_def fresh_fd_def)
  then obtain w' where w': "poll_main (replicate 1024 {}) 0 ?w = (Ret (), w')" by blast
  with poll_server_table [OF w'] show ?thesis by blast
qed

definition busy_world :: world where
  "busy_world = world0\<lparr>epoll := (\<lambda>_ f. Some ({EPOLLIN}, f)),
     epq := [EpReady (map (\<lambda>k. (int k, {EPOLLIN})) [0..<1025])]\<rparr>"

lemma busy_report: "length (ep_report busy_world ep (map (\<lambda>k. (int k, {EPOLLIN})) ks)) = length ks"
  by (induction ks) (simp_all add: ep_report_def busy_world_def map_filter_simps)

theorem epoll_events_overflow_witness:
  "fst (epoll_round 3 4 busy_world) = Undef \<and> fst (et_round 3 4 busy_world) = Undef"
proof (rule epoll_events_overflow)
  show "epq busy_world = EpReady (map (\<lambda>k. (int k, {EPOLLIN})) [0..<1025]) # []"
    by (simp add: busy_world_def)
  show "1024 < length (ep_report busy_world 3 (map (\<lambda>k. (int k, {EPOLLIN})) [0..<1025]))"
    by (simp only: busy_report) simp
qed

theorem et_drain_echoes_all_witness:
  "\<exists>w'. et_drain 9 5 ((conn_world 5 [RData ''abcdef'', RData ''g''])\<lparr>nonblk := (\<lambda>_. True)\<rparr>) = (Ret (), w')
     \<and> sent_on 5 (trace w') = ''abcdefg''"
  using et_drain_echoes_all [of 5 "(conn_world 5 [RData ''abcdef'', RData ''g''])\<lparr>nonblk := (\<lambda>_. True)\<rparr>"
      "[''abcdef'', ''g'']" 9]
  by (auto simp: conn_world_def world0_def)

theorem epoll_client_serves_witness:
  "\<exists>w'. epoll_client 9 5 (conn_world 5 [RFail EINTR]) = (Ret (), w') \<and> trace w' = [Closed 5]"
  using epoll_client_serves [of 5 "conn_world 5 [RFail EINTR]" "RFail EINTR" "[]" 9 9]
  by (auto simp: conn_world_def world0_def)

end
