(* ===== verification/Reactor.thy ===== *)
theory Reactor
  imports Wrap SlotTable
begin

section \<open>The epoll reactor (5\_reactor.c)\<close>

text \<open>
  \<^verbatim>\<open>concurrence_linux/9_epoll_select/5_reactor.c\<close>: every descriptor has an entry of \<^verbatim>\<open>events_g\<close> with the callback
  to run, and the epoll registration carries a pointer to that entry, here its index. Entry 1024 is the listener's.
  A store outside of the entry's buffer is undefined behaviour.
\<close>

definition BUF_LEN :: nat where "BUF_LEN = 1024"
definition EVENT_SIZE :: nat where "EVENT_SIZE = 1024"

datatype callback = InitAccept | ReadData | SendData

record xevents =
  xfd :: fd
  xmask :: epmask
  xcall :: "callback option"
  xbuf :: "byte list"
  xbuflen :: int

record rworld = world +
  events_g :: "xevents list"
  epfd_g :: fd

definition set_entry :: "nat \<Rightarrow> (xevents \<Rightarrow> xevents) \<Rightarrow> ('z rworld_scheme, unit) io" where
  "set_entry i h = modify (\<lambda>w. w\<lparr>events_g := (events_g w)[i := h (events_g w ! i)]\<rparr>)"

definition reactor_ctl :: "epop \<Rightarrow> fd \<Rightarrow> epmask \<Rightarrow> int \<Rightarrow> ('z rworld_scheme, unit) io" where
  "reactor_ctl op fd events data =
     andthen (gets epfd_g) (\<lambda>ep. andthen (sys_epoll_ctl ep op fd events data) (\<lambda>_. ret ()))"

definition eventadd :: "fd \<Rightarrow> epmask \<Rightarrow> callback \<Rightarrow> nat \<Rightarrow> ('z rworld_scheme, unit) io" where
  "eventadd fd events cb i =
     andthen (set_entry i (\<lambda>e. e\<lparr>xfd := fd, xmask := events, xcall := Some cb\<rparr>)) (\<lambda>_.
     reactor_ctl EPOLL_CTL_ADD fd events (int i))"

definition eventset :: "fd \<Rightarrow> epmask \<Rightarrow> callback \<Rightarrow> nat \<Rightarrow> ('z rworld_scheme, unit) io" where
  "eventset fd events cb i =
     andthen (set_entry i (\<lambda>e. e\<lparr>xfd := fd, xmask := events, xcall := Some cb\<rparr>)) (\<lambda>_.
     reactor_ctl EPOLL_CTL_MOD fd events (int i))"

definition cleared :: "xevents \<Rightarrow> xevents" where
  "cleared e = e\<lparr>xfd := 0, xmask := {}, xcall := None, xbuf := replicate BUF_LEN NUL\<rparr>"

definition eventdel :: "nat \<Rightarrow> fd \<Rightarrow> epmask \<Rightarrow> ('z rworld_scheme, unit) io" where
  "eventdel i fd events =
     andthen (set_entry i cleared) (\<lambda>_. reactor_ctl EPOLL_CTL_DEL fd events 0)"

definition sendData :: "fd \<Rightarrow> epmask \<Rightarrow> nat \<Rightarrow> ('z rworld_scheme, unit) io" where
  "sendData fd events i =
     andthen (gets (\<lambda>w. take (nat (xbuflen (events_g w ! i))) (xbuf (events_g w ! i)))) (\<lambda>bs.
     andthen (sys_write fd bs) (\<lambda>n.
       if n \<le> 0 then andthen (Close fd) (\<lambda>_. eventdel i fd events)
       else eventset fd {EPOLLIN} ReadData i))"

definition readData :: "fd \<Rightarrow> epmask \<Rightarrow> nat \<Rightarrow> ('z rworld_scheme, unit) io" where
  "readData fd events i =
     andthen (sys_read fd BUF_LEN) (\<lambda>r.
     andthen (set_entry i (\<lambda>e. e\<lparr>xbuflen := fst r, xbuf := snd r @ drop (length (snd r)) (xbuf e)\<rparr>)) (\<lambda>_.
       if fst r < 0 \<or> int BUF_LEN \<le> fst r then undef
       else andthen (set_entry i (\<lambda>e. e\<lparr>xbuf := (xbuf e)[nat (fst r) := NUL]\<rparr>)) (\<lambda>_.
         if fst r \<le> 0 then andthen (Close fd) (\<lambda>_. eventdel i fd events)
         else eventset fd {EPOLLOUT} SendData i)))"

text \<open>The search loop of \<^verbatim>\<open>initAccept\<close> ends with 1024 when no entry is free.\<close>

definition free_entry :: "xevents list \<Rightarrow> nat" where
  "free_entry tbl = first_index (\<lambda>e. xfd e = 0) (take EVENT_SIZE tbl)"

definition initAccept :: "fd \<Rightarrow> epmask \<Rightarrow> ('z rworld_scheme, unit) io" where
  "initAccept fd events =
     andthen (Accept fd) (\<lambda>cfd.
     andthen (gets (\<lambda>w. free_entry (events_g w))) (\<lambda>i. eventadd cfd events ReadData i))"

definition call_back :: "callback option \<Rightarrow> fd \<Rightarrow> epmask \<Rightarrow> nat \<Rightarrow> ('z rworld_scheme, unit) io" where
  "call_back cb fd events i =
     (case cb of
        None \<Rightarrow> undef
      | Some InitAccept \<Rightarrow> initAccept fd events
      | Some ReadData \<Rightarrow> readData fd events i
      | Some SendData \<Rightarrow> sendData fd events i)"

text \<open>The body of the loop of \<^verbatim>\<open>main\<close> over the reported events.\<close>

definition reactor_event :: "epmask \<times> int \<Rightarrow> ('z rworld_scheme, unit) io" where
  "reactor_event ev =
     andthen (gets (\<lambda>w. events_g w ! nat (snd ev))) (\<lambda>xe.
       if xmask xe \<inter> fst ev \<noteq> {} then call_back (xcall xe) (xfd xe) (xmask xe) (nat (snd ev))
       else ret ())"

definition reactor_round :: "('z rworld_scheme, unit) io" where
  "reactor_round =
     andthen (gets epfd_g) (\<lambda>ep.
     andthen (sys_epoll_wait ep EVENT_SIZE) (\<lambda>r.
       if fst r < 0 then perr_exit ''epoll_wait failed''
       else if fst r > 0 then foreach reactor_event (snd r)
       else ret ()))"

definition initsocket :: "('z world_scheme, int) io" where
  "initsocket =
     andthen (Socket AF_INET SOCK_STREAM 0) (\<lambda>lfd.
     andthen (sys_set_reuseaddr lfd) (\<lambda>_.
     andthen (Bind lfd \<lparr>sin_family = AF_INET, sin_port = htons 8888, sin_addr = htonl INADDR_ANY\<rparr>) (\<lambda>_.
     andthen (Listen lfd 128) (\<lambda>_. ret lfd))))"

definition reactor_main :: "nat \<Rightarrow> ('z rworld_scheme, unit) io" where
  "reactor_main n =
     andthen initsocket (\<lambda>lfd.
     andthen sys_epoll_create (\<lambda>ep.
     andthen (modify (\<lambda>w. w\<lparr>epfd_g := ep\<rparr>)) (\<lambda>_.
     andthen (eventadd lfd {EPOLLIN} InitAccept EVENT_SIZE) (\<lambda>_.
     rounds n reactor_round))))"

subsection \<open>The entries\<close>

interpretation reactor_slots: slots "\<lambda>e. xfd e = 0" xfd cleared
  by unfold_locales (simp add: cleared_def)

lemma free_entry_props:
  assumes "length tbl = Suc EVENT_SIZE" "free_entry tbl < EVENT_SIZE"
  shows "xfd (tbl ! free_entry tbl) = 0"
  using assms first_index_hit [of "\<lambda>e. xfd e = 0" "take EVENT_SIZE tbl"]
  by (simp add: free_entry_def)

lemma free_entry_full:
  assumes "length tbl = Suc EVENT_SIZE"
  shows "free_entry tbl = EVENT_SIZE \<longleftrightarrow> (\<forall>e \<in> set (take EVENT_SIZE tbl). xfd e \<noteq> 0)"
proof -
  have "length (take EVENT_SIZE tbl) = EVENT_SIZE" using assms by simp
  then show ?thesis using first_index_none [of "\<lambda>e. xfd e = 0" "take EVENT_SIZE tbl"]
    unfolding free_entry_def by simp
qed

subsection \<open>Properties\<close>

text \<open>A new connection of the reactor gets an entry of its own: when the table has a free one, the
  descriptors in use become the ones there were and the new one, no other entry changes, and
  the connection is registered for the listener's events with that entry's index.\<close>

theorem reactor_accept_takes_free_entry:
  assumes "Accept lfd w = (Ret c, w1)" "length (events_g w) = Suc EVENT_SIZE"
    "free_entry (events_g w) < EVENT_SIZE" "c \<noteq> 0" "epfd_g w \<in> set (opened w)"
    "epoll w (epfd_g w) c = None" "events \<noteq> {}"
  shows "\<exists>w'. initAccept lfd events w = (Ret (), w')
     \<and> mset (reactor_slots.active (events_g w')) = add_mset c (mset (reactor_slots.active (events_g w)))
     \<and> (\<forall>k. k \<noteq> free_entry (events_g w) \<longrightarrow> events_g w' ! k = events_g w ! k)
     \<and> epoll w' (epfd_g w') c = Some (events, int (free_entry (events_g w)))"
proof -
  let ?i = "free_entry (events_g w)"
  let ?e = "(events_g w ! ?i)\<lparr>xfd := c, xmask := events, xcall := Some ReadData\<rparr>"
  from assms(1) obtain q er where w1: "w1 = w\<lparr>accq := (accq w)(lfd := q), cerrno := er,
      opened := c # opened w, nonblk := (nonblk w)(c := False), ofile := (ofile w)(c := None)\<rparr>"
    by (cases lfd w rule: Accept_cases) auto
  have "mset (reactor_slots.active ((events_g w)[?i := ?e])) =
      add_mset (xfd ?e) (mset (reactor_slots.active (events_g w)))"
    using assms(2-4) free_entry_props [of "events_g w"] by (intro reactor_slots.active_put) simp_all
  with assms(1,5,6) w1 show ?thesis
    by (simp add: initAccept_def eventadd_def set_entry_def reactor_ctl_def sys_epoll_ctl_def
        andthen_assoc)
qed

text \<open>When all 1024 entries are in use the reactor stores the next connection over the listener's entry, while
  the listener stays registered with that entry: its next event runs \<^verbatim>\<open>readData\<close> on the client, and
  no connection is accepted any more.\<close>

theorem reactor_full_table_loses_listener:
  assumes "length (events_g w) = Suc EVENT_SIZE" "\<forall>e \<in> set (take EVENT_SIZE (events_g w)). xfd e \<noteq> 0"
    "events_g w ! EVENT_SIZE = \<lparr>xfd = lfd, xmask = {EPOLLIN}, xcall = Some InitAccept, xbuf = b, xbuflen = l\<rparr>"
    "Accept lfd w = (Ret c, w1)" "epfd_g w \<in> set (opened w)" "epoll w (epfd_g w) c = None"
    "epoll w (epfd_g w) lfd = Some ({EPOLLIN}, int EVENT_SIZE)" "lfd \<noteq> c"
  shows "\<exists>w'. reactor_event ({EPOLLIN}, int EVENT_SIZE) w = (Ret (), w')
     \<and> epoll w' (epfd_g w') lfd = Some ({EPOLLIN}, int EVENT_SIZE)
     \<and> reactor_event ({EPOLLIN}, int EVENT_SIZE) w' = readData c {EPOLLIN} EVENT_SIZE w'"
proof -
  have i: "free_entry (events_g w) = EVENT_SIZE" using assms(1,2) by (simp add: free_entry_full)
  from assms(4) obtain q er where w1: "w1 = w\<lparr>accq := (accq w)(lfd := q), cerrno := er,
      opened := c # opened w, nonblk := (nonblk w)(c := False), ofile := (ofile w)(c := None)\<rparr>"
    by (cases lfd w rule: Accept_cases) auto
  with assms i show ?thesis
    by (simp add: reactor_event_def call_back_def initAccept_def eventadd_def set_entry_def
        reactor_ctl_def sys_epoll_ctl_def andthen_assoc)
qed

text \<open>\<^verbatim>\<open>readData\<close> terminates what it received before looking at how much that was: a full buffer and a
  failed \<^verbatim>\<open>recv\<close> both make it write outside of the buffer.\<close>

theorem reactor_read_out_of_bounds:
  assumes "fd \<in> set (opened w)" "ofile w fd = None" "rdq w fd = r # rs"
    "case r of RData bs \<Rightarrow> BUF_LEN \<le> length bs | RFail e \<Rightarrow> True"
  shows "fst (readData fd events i w) = Undef"
  using assms
  by (cases r) (simp_all add: readData_def sys_read_def set_entry_def BUF_LEN_def)

text \<open>One round trip of a connection: \<^verbatim>\<open>readData\<close> stores what arrived and waits until it can write, \<^verbatim>\<open>sendData\<close> then
  sends it and waits for input again. If the kernel takes only \<open>k\<close> bytes, the rest is dropped.\<close>

theorem reactor_echo_cycle:
  assumes "fd \<in> set (opened w)" "ofile w fd = None" "rdq w fd = RData bs # rs" "bs \<noteq> []"
    "length bs < BUF_LEN" "i < length (events_g w)" "length (xbuf (events_g w ! i)) = BUF_LEN"
    "epfd_g w \<in> set (opened w)" "epoll w (epfd_g w) fd = Some (ev, int i)"
    "wrq w fd = WTake k # ws" "0 < k"
  shows "\<exists>w1 w2. readData fd {EPOLLIN} i w = (Ret (), w1)
     \<and> epoll w1 (epfd_g w1) fd = Some ({EPOLLOUT}, int i) \<and> xcall (events_g w1 ! i) = Some SendData
     \<and> sendData fd {EPOLLOUT} i w1 = (Ret (), w2)
     \<and> trace w2 = trace w @ [Sent fd (take k bs)]
     \<and> epoll w2 (epfd_g w2) fd = Some ({EPOLLIN}, int i) \<and> xcall (events_g w2 ! i) = Some ReadData"
  using assms
  by (simp add: readData_def sendData_def sys_read_def sys_write_def set_entry_def eventset_def
      reactor_ctl_def sys_epoll_ctl_def BUF_LEN_def andthen_assoc list_update_append min_def)

subsection \<open>Instances\<close>

definition entry0 :: xevents where
  "entry0 = \<lparr>xfd = 0, xmask = {}, xcall = None, xbuf = replicate BUF_LEN NUL, xbuflen = 0\<rparr>"

definition reactor0 :: "fd \<Rightarrow> world \<Rightarrow> rworld" where
  "reactor0 f v = world.extend (v\<lparr>opened := [3, 4, 5, 0, 1, 2],
       epoll := (\<lambda>_ _. None)(4 := [3 \<mapsto> ({EPOLLIN}, 1024), 5 \<mapsto> ({EPOLLIN}, 0)]),
       accq := (\<lambda>_. [AConn 7])\<rparr>)
     \<lparr>events_g = replicate 1024 (entry0\<lparr>xfd := f\<rparr>) @ [entry0\<lparr>xfd := 3, xmask := {EPOLLIN}, xcall := Some InitAccept\<rparr>],
      epfd_g = 4\<rparr>"

lemma reactor0_sel:
  "length (events_g (reactor0 f v)) = Suc EVENT_SIZE"
  "set (take EVENT_SIZE (events_g (reactor0 f v))) = {entry0\<lparr>xfd := f\<rparr>}"
  "events_g (reactor0 f v) ! EVENT_SIZE = entry0\<lparr>xfd := 3, xmask := {EPOLLIN}, xcall := Some InitAccept\<rparr>"
  "events_g (reactor0 f v) ! 0 = entry0\<lparr>xfd := f\<rparr>"
  "opened (reactor0 f v) = [3, 4, 5, 0, 1, 2]" "epfd_g (reactor0 f v) = 4"
  "epoll (reactor0 f v) 4 = [3 \<mapsto> ({EPOLLIN}, int EVENT_SIZE), 5 \<mapsto> ({EPOLLIN}, 0)]"
  "rdq (reactor0 f v) = rdq v" "wrq (reactor0 f v) = wrq v" "ofile (reactor0 f v) = ofile v"
  "trace (reactor0 f v) = trace v"
  by (simp_all add: reactor0_def EVENT_SIZE_def world.defs nth_append)

lemma reactor0_accept: "\<exists>w1. Accept 3 (reactor0 f v) = (Ret 7, w1)"
  by (simp add: Accept.simps sys_accept_def reactor0_def world.defs new_fd_def)

theorem reactor_accept_takes_free_entry_witness:
  "\<exists>w'. initAccept 3 {EPOLLIN} (reactor0 0 world0) = (Ret (), w')
     \<and> epoll w' (epfd_g w') 7 = Some ({EPOLLIN}, int (free_entry (events_g (reactor0 0 world0))))"
proof -
  obtain w1 where "Accept 3 (reactor0 0 world0) = (Ret 7, w1)" using reactor0_accept by blast
  moreover have "free_entry (events_g (reactor0 0 world0)) < EVENT_SIZE"
    by (simp add: free_entry_def reactor0_def world.defs EVENT_SIZE_def entry0_def numeral_eq_Suc)
  ultimately show ?thesis
    using reactor_accept_takes_free_entry [of 3 "reactor0 0 world0" 7 w1 "{EPOLLIN}"]
    by (auto simp: reactor0_sel)
qed

theorem reactor_full_table_loses_listener_witness:
  "\<exists>w'. reactor_event ({EPOLLIN}, int EVENT_SIZE) (reactor0 9 world0) = (Ret (), w')
     \<and> reactor_event ({EPOLLIN}, int EVENT_SIZE) w' = readData 7 {EPOLLIN} EVENT_SIZE w'"
proof -
  obtain w1 where "Accept 3 (reactor0 9 world0) = (Ret 7, w1)" using reactor0_accept by blast
  then show ?thesis
    using reactor_full_table_loses_listener [of "reactor0 9 world0" 3 "replicate BUF_LEN NUL" 0 7 w1]
    by (auto simp: reactor0_sel entry0_def)
qed

theorem reactor_read_out_of_bounds_witness:
  "fst (readData 5 {EPOLLIN} 0 (reactor0 5 (conn_world 5 [RData (replicate 1024 (CHR ''x''))]))) = Undef"
  by (rule reactor_read_out_of_bounds [of _ _ "RData (replicate 1024 (CHR ''x''))" "[]"])
     (simp_all add: reactor0_sel BUF_LEN_def)

theorem reactor_echo_cycle_witness:
  "\<exists>w1 w2. readData 5 {EPOLLIN} 0 (reactor0 5 ((conn_world 5 [RData ''abc''])\<lparr>wrq := (\<lambda>_. [WTake 2])\<rparr>)) = (Ret (), w1)
     \<and> sendData 5 {EPOLLOUT} 0 w1 = (Ret (), w2) \<and> trace w2 = [Sent 5 ''ab'']"
  using reactor_echo_cycle [of 5 "reactor0 5 ((conn_world 5 [RData ''abc''])\<lparr>wrq := (\<lambda>_. [WTake 2])\<rparr>)"
      "''abc''" "[]" 0 "{EPOLLIN}" 2 "[]"]
  by (auto simp: reactor0_sel entry0_def BUF_LEN_def)

end
