(* ===== verification/Pub.thy ===== *)
theory Pub
  imports Io
begin

section \<open>The web servers' string functions (pub.c)\<close>

text \<open>
  \<^verbatim>\<open>concurrence_linux/13_libevent_web/pub.c\<close>: MIME types by file suffix, reading a request line, and
  percent-encoding. Strings are byte lists without their NUL. \<open>strdecode\<close> is also modelled on the
  memory it runs in (\<open>strdecode_mem\<close>), because the servers call it with both arguments equal.
\<close>

subsection \<open>get\_mime\_type\<close>

fun strrchr :: "byte \<Rightarrow> byte list \<Rightarrow> byte list option" where
  "strrchr c [] = None"
| "strrchr c (x # xs) =
     (case strrchr c xs of
        Some t \<Rightarrow> Some t
      | None \<Rightarrow> if x = c then Some (x # xs) else None)"

definition get_mime_type :: "byte list \<Rightarrow> byte list" where
  "get_mime_type name =
     (case strrchr (CHR ''.'') name of
        None \<Rightarrow> ''text/plain; charset=utf-8''
      | Some dot \<Rightarrow>
          if dot = ''.html'' \<or> dot = ''.htm'' then ''text/html; charset=utf-8''
          else if dot = ''.jpg'' \<or> dot = ''.jpeg'' then ''image/jpeg''
          else if dot = ''.gif'' then ''image/gif''
          else if dot = ''.png'' then ''image/png''
          else if dot = ''.css'' then ''text/css''
          else if dot = ''.au'' then ''audio/basic''
          else if dot = ''.wav'' then ''audio/wav''
          else if dot = ''.avi'' then ''video/x-msvideo''
          else if dot = ''.mov'' \<or> dot = ''.qt'' then ''video/quicktime''
          else if dot = ''.mpeg'' \<or> dot = ''.mpe'' then ''video/mpeg''
          else if dot = ''.vrml'' \<or> dot = ''.wrl'' then ''model/vrml''
          else if dot = ''.midi'' \<or> dot = ''.mid'' then ''audio/midi''
          else if dot = ''.mp3'' then ''audio/mpeg''
          else if dot = ''.ogg'' then ''application/ogg''
          else if dot = ''.pac'' then ''application/x-ns-proxy-autoconfig''
          else ''text/plain; charset=utf-8'')"

lemma strrchr_None: "c \<notin> set s \<Longrightarrow> strrchr c s = None"
  by (induction s) auto

lemma strrchr_last: "c \<notin> set t \<Longrightarrow> strrchr c (s @ c # t) = Some (c # t)"
  by (induction s) (auto simp: strrchr_None)

subsection \<open>get\_line\<close>

abbreviation CR :: byte where "CR \<equiv> CHR 0x0D"
abbreviation LF :: byte where "LF \<equiv> CHR 0x0A"

text \<open>What follows a carriage return: look at the next byte, and take it when it is a line feed.\<close>

definition after_cr :: "fd \<Rightarrow> ('z world_scheme, byte) io" where
  "after_cr sock =
     andthen (sys_peek sock 1) (\<lambda>p.
       if fst p > 0 \<and> hd (snd p) = LF
       then andthen (sys_read sock 1) (\<lambda>q. ret (if fst q > 0 then hd (snd q) else LF))
       else ret LF)"

text \<open>The loop of \<^verbatim>\<open>get_line\<close>; \<open>buf\<close> holds \<^verbatim>\<open>buf[0..i)\<close> and \<open>c\<close> the last byte stored.\<close>

function get_line_loop ::
  "fd \<Rightarrow> int \<Rightarrow> byte \<Rightarrow> byte list \<Rightarrow> ('z world_scheme, int \<times> byte list) io" where
  "get_line_loop sock sz c buf w =
     (if int (length buf) < sz - 1 \<and> c \<noteq> LF then
        andthen (sys_read sock 1) (\<lambda>r w1.
          if fst r > 0 then
            andthen (if hd (snd r) = CR then after_cr sock else ret (hd (snd r)))
              (\<lambda>c2 w2. get_line_loop sock sz c2 (buf @ [c2]) w2) w1
          else get_line_loop sock sz LF buf w1) w
      else ret (int (length buf), buf) w)"
  by pat_completeness auto
termination
  by (relation "measure (\<lambda>(sock, sz, c, buf, w).
        if c = LF then 0 else Suc (nat (sz - 1 - int (length buf))))") auto

declare get_line_loop.simps [simp del]

definition get_line :: "fd \<Rightarrow> int \<Rightarrow> ('z world_scheme, int \<times> byte list) io" where
  "get_line sock sz = get_line_loop sock sz NUL []"

subsection \<open>hexit, strdecode, strencode\<close>

text \<open>The value of a (signed) \<^verbatim>\<open>char\<close>, and the C-locale character classes.\<close>

definition uchar :: "byte \<Rightarrow> nat" where
  "uchar c = of_char c"

definition schar :: "byte \<Rightarrow> int" where
  "schar c = (if uchar c < 128 then int (uchar c) else int (uchar c) - 256)"

definition isxdigit :: "byte \<Rightarrow> bool" where
  "isxdigit c \<longleftrightarrow> 48 \<le> uchar c \<and> uchar c \<le> 57 \<or> 97 \<le> uchar c \<and> uchar c \<le> 102
                \<or> 65 \<le> uchar c \<and> uchar c \<le> 70"

definition isalnum :: "byte \<Rightarrow> bool" where
  "isalnum c \<longleftrightarrow> 48 \<le> uchar c \<and> uchar c \<le> 57 \<or> 97 \<le> uchar c \<and> uchar c \<le> 122
               \<or> 65 \<le> uchar c \<and> uchar c \<le> 90"

definition hexit :: "byte \<Rightarrow> int" where
  "hexit c =
     (if schar CHR ''0'' \<le> schar c \<and> schar c \<le> schar CHR ''9'' then schar c - schar CHR ''0''
      else if schar CHR ''a'' \<le> schar c \<and> schar c \<le> schar CHR ''f'' then schar c - schar CHR ''a'' + 10
      else if schar CHR ''A'' \<le> schar c \<and> schar c \<le> schar CHR ''F'' then schar c - schar CHR ''A'' + 10
      else 0)"

text \<open>\<^verbatim>\<open>*to = hexit(from[1])*16 + hexit(from[2])\<close>: the value is truncated to a byte.\<close>

definition unhex :: "byte \<Rightarrow> byte \<Rightarrow> byte" where
  "unhex a b = char_of (nat (hexit a * 16 + hexit b))"

fun strdecode :: "byte list \<Rightarrow> byte list" where
  "strdecode (c # a # b # s) =
     (if c = NUL then []
      else if c = CHR ''%'' \<and> isxdigit a \<and> isxdigit b then unhex a b # strdecode s
      else c # strdecode (a # b # s))"
| "strdecode (c # s) = (if c = NUL then [] else c # strdecode s)"
| "strdecode [] = []"

text \<open>
  The same loop on the memory \<open>mem\<close> that holds both strings, at offsets \<open>to\<close> and \<open>from\<close>; \<open>None\<close> is an
  access outside of \<open>mem\<close>. \<^verbatim>\<open>&&\<close> reads \<^verbatim>\<open>from[2]\<close> only after \<^verbatim>\<open>from[1]\<close> was a hex digit.
\<close>

definition at :: "byte list \<Rightarrow> nat \<Rightarrow> byte option" where
  "at mem i = (if i < length mem then Some (mem ! i) else None)"

definition is_escape :: "byte list \<Rightarrow> nat \<Rightarrow> bool option" where
  "is_escape mem i =
     Option.bind (at mem i) (\<lambda>c. if c \<noteq> CHR ''%'' then Some False
       else Option.bind (at mem (i + 1)) (\<lambda>a. if \<not> isxdigit a then Some False
         else Option.bind (at mem (i + 2)) (\<lambda>b. Some (isxdigit b))))"

function strdecode_mem :: "byte list \<Rightarrow> nat \<Rightarrow> nat \<Rightarrow> byte list option" where
  "strdecode_mem mem to from =
     (if from < length mem \<and> to < length mem then
        if mem ! from = NUL then Some (mem[to := NUL])
        else case is_escape mem from of
          None \<Rightarrow> None
        | Some True \<Rightarrow>
            strdecode_mem (mem[to := unhex (mem ! (from + 1)) (mem ! (from + 2))]) (to + 1) (from + 3)
        | Some False \<Rightarrow> strdecode_mem (mem[to := mem ! from]) (to + 1) (from + 1)
      else None)"
  by pat_completeness auto
termination
  by (relation "measure (\<lambda>(mem, to, from). length mem - from)") auto

declare strdecode_mem.simps [simp del]

definition hexdigit :: "nat \<Rightarrow> byte" where
  "hexdigit n = (if n < 10 then char_of (48 + n) else char_of (87 + n))"

text \<open>The characters \<^verbatim>\<open>strencode\<close> leaves alone, and what it prints with \<^verbatim>\<open>%%%02x\<close> for the others.\<close>

definition url_safe :: "byte \<Rightarrow> bool" where
  "url_safe c \<longleftrightarrow> isalnum c \<or> c \<in> set ''/_.-~''"

definition escape :: "byte \<Rightarrow> byte list" where
  "escape c = [CHR ''%'', hexdigit (uchar c div 16), hexdigit (uchar c mod 16)]"

fun strencode :: "nat \<Rightarrow> nat \<Rightarrow> byte list \<Rightarrow> byte list" where
  "strencode tosize tolen [] = []"
| "strencode tosize tolen (c # from) =
     (if c \<noteq> NUL \<and> tolen + 4 < tosize then
        if url_safe c then c # strencode tosize (tolen + 1) from
        else escape c @ strencode tosize (tolen + 3) from
      else [])"

subsection \<open>Encoding and decoding\<close>

lemma uchar_char_of: "n < 256 \<Longrightarrow> uchar (char_of n) = n"
  by (simp add: uchar_def)

lemma uchar_less [simp]: "uchar c < 256"
  by (simp add: uchar_def)

lemma schar_lits:
  "schar CHR ''0'' = 48" "schar CHR ''9'' = 57" "schar CHR ''a'' = 97" "schar CHR ''f'' = 102"
  "schar CHR ''A'' = 65" "schar CHR ''F'' = 70"
  by (simp_all add: schar_def uchar_def)

lemma char_of_uchar [simp]: "char_of (uchar c) = c"
  by (simp add: uchar_def)

lemma hexit_hexdigit: "n < 16 \<Longrightarrow> hexit (hexdigit n) = int n"
  by (auto simp: hexit_def schar_lits hexdigit_def schar_def [of "char_of _"] uchar_char_of)

lemma isxdigit_hexdigit: "n < 16 \<Longrightarrow> isxdigit (hexdigit n)"
  by (auto simp: isxdigit_def hexdigit_def uchar_char_of)

lemma unhex_escape: "unhex (hexdigit (uchar c div 16)) (hexdigit (uchar c mod 16)) = c"
proof -
  have "uchar c div 16 < 16" by (simp add: less_mult_imp_div_less)
  then have "nat (hexit (hexdigit (uchar c div 16)) * 16 + hexit (hexdigit (uchar c mod 16))) = uchar c"
    by (simp add: hexit_hexdigit nat_add_distrib nat_mult_distrib)
  then show ?thesis by (simp add: unhex_def)
qed

lemma strdecode_escape [simp]: "strdecode (escape c @ s) = c # strdecode s"
proof -
  have "uchar c div 16 < 16" by (simp add: less_mult_imp_div_less)
  then show ?thesis by (simp add: escape_def isxdigit_hexdigit unhex_escape)
qed

lemma strdecode_plain: "c \<noteq> CHR ''%'' \<Longrightarrow> c \<noteq> NUL \<Longrightarrow> strdecode (c # s) = c # strdecode s"
  by (cases s rule: strdecode.cases) auto

lemma url_safe_not_percent: "url_safe c \<Longrightarrow> c \<noteq> CHR ''%''"
  by (auto simp: url_safe_def isalnum_def uchar_def)

lemma strdecode_strencode_prefix: "prefix (strdecode (strencode m n s)) (cstr s)"
  by (induction m n s rule: strencode.induct)
     (auto simp: strdecode_plain url_safe_not_percent)

lemma strdecode_strencode_all:
  "NUL \<notin> set s \<Longrightarrow> n + 3 * length s + 1 < m \<Longrightarrow> strdecode (strencode m n s) = s"
  by (induction m n s rule: strencode.induct)
     (auto simp: strdecode_plain url_safe_not_percent)

text \<open>
  C15: Percent-encoding a string that fits its buffer and decoding the result gives the string back,
  for every byte a C string can hold.
\<close>

theorem strdecode_strencode:
  assumes "NUL \<notin> set s" "3 * length s + 1 < tosize"
  shows "strdecode (strencode tosize 0 s) = s"
  using assms by (intro strdecode_strencode_all) auto

lemma length_escape [simp]: "length (escape c) = 3"
  by (simp add: escape_def)

lemma strencode_fits: "n < m \<Longrightarrow> n + length (strencode m n s) < m"
  by (induction m n s rule: strencode.induct) auto

lemma hexdigit_safe: "n < 16 \<Longrightarrow> url_safe (hexdigit n)"
  by (auto simp: url_safe_def isalnum_def hexdigit_def uchar_char_of)

lemma strencode_safe: "c \<in> set (strencode m n s) \<Longrightarrow> url_safe c \<or> c = CHR ''%''"
proof (induction m n s rule: strencode.induct)
  case (2 m n d s)
  have "uchar d div 16 < 16" by (simp add: less_mult_imp_div_less)
  with 2 show ?case by (auto simp: escape_def hexdigit_safe split: if_splits)
qed simp

text \<open>
  \<^verbatim>\<open>strencode\<close> never writes outside its buffer, terminating NUL included, whatever the input
  and the size; what it writes consists of URL-safe characters and percent signs only; and when the
  buffer is too small, what it wrote still decodes to an initial part of the input.
\<close>

theorem strencode_bounded:
  assumes "0 < tosize"
  shows "length (strencode tosize 0 s) + 1 \<le> tosize
       \<and> list_all (\<lambda>c. url_safe c \<or> c = CHR ''%'') (strencode tosize 0 s)
       \<and> prefix (strdecode (strencode tosize 0 s)) (cstr s)"
  using strencode_fits [of 0 tosize s] assms strdecode_strencode_prefix strencode_safe
  by (auto simp: list_all_iff)

subsection \<open>Decoding in place\<close>

lemma strdecode_step:
  "strdecode (c # t) =
     (if c = NUL then []
      else if c = CHR ''%'' \<and> 2 \<le> length t \<and> isxdigit (t ! 0) \<and> isxdigit (t ! 1)
      then unhex (t ! 0) (t ! 1) # strdecode (drop 2 t)
      else c # strdecode t)"
  by (cases "c # t" rule: strdecode.cases) auto

lemma write_step:
  assumes "i < length mem" "length mem' = length mem" "take (i + 1) mem' = take (i + 1) (mem[i := v])"
  shows "take i mem' = take i mem" "drop i mem' = v # drop (i + 1) mem'"
proof -
  from assms(3) have "take i (take (i + 1) mem') = take i (take (i + 1) (mem[i := v]))"
    by simp
  then show "take i mem' = take i mem" by (simp add: min_def)
  from assms(3) have "take (i + 1) mem' ! i = take (i + 1) (mem[i := v]) ! i"
    by simp
  then have "mem' ! i = v" using assms(1,2) by simp
  then show "drop i mem' = v # drop (i + 1) mem'"
    using assms(1,2) Cons_nth_drop_Suc [of i mem'] by simp
qed

lemma isxdigit_not_NUL: "isxdigit c \<Longrightarrow> c \<noteq> NUL"
  by (auto simp: isxdigit_def uchar_def)

lemma is_escape_eq:
  assumes "NUL \<in> set (drop i mem)"
  shows "is_escape mem i = Some (mem ! i = CHR ''%'' \<and> i + 2 < length mem
           \<and> isxdigit (mem ! (i + 1)) \<and> isxdigit (mem ! (i + 2)))"
proof -
  obtain k where k: "i + k < length mem" "mem ! (i + k) = NUL"
    using assms by (auto simp: in_set_conv_nth less_diff_conv add.commute)
  consider "k = 0" | "k = 1" | "2 \<le> k" by linarith
  then show ?thesis
    using k isxdigit_not_NUL by cases (auto simp: is_escape_def at_def)
qed

lemma NUL_further:
  assumes "NUL \<in> set (drop i mem)" "\<forall>j < k. mem ! (i + j) \<noteq> NUL"
  shows "NUL \<in> set (drop (i + k) mem)"
proof -
  obtain j where j: "i + j < length mem" "mem ! (i + j) = NUL"
    using assms(1) by (auto simp: in_set_conv_nth less_diff_conv add.commute)
  with assms(2) have "k \<le> j" by (meson not_le)
  then obtain d where "j = k + d" using le_Suc_ex by blast
  with j show ?thesis by (auto simp: in_set_conv_nth add.assoc intro!: exI [of _ d])
qed

text \<open>
  With the write position not ahead of the read position, overwriting decoded input never disturbs
  the input still to be read.
\<close>

lemma strdecode_mem_refines:
  assumes "to \<le> from" "NUL \<in> set (drop from mem)"
  shows "\<exists>mem'. strdecode_mem mem to from = Some mem' \<and> length mem' = length mem
           \<and> take to mem' = take to mem
           \<and> prefix (strdecode (drop from mem) @ [NUL]) (drop to mem')"
  using assms
proof (induction mem to "from" rule: strdecode_mem.induct)
  case (1 mem to "from")
  have len: "from < length mem" "to < length mem"
    using "1.prems" by (auto intro: ccontr)
  have S: "drop from mem = mem ! from # drop (from + 1) mem"
    using Cons_nth_drop_Suc [OF len(1)] by simp
  note unf = strdecode_mem.simps [of mem to "from"]
  show ?case
  proof (cases "mem ! from = NUL")
    case True
    with len S show ?thesis
      by (auto simp: unf strdecode_step Cons_nth_drop_Suc [of to, symmetric])
  next
    case False
    define esc where "esc \<longleftrightarrow> mem ! from = CHR ''%'' \<and> from + 2 < length mem
           \<and> isxdigit (mem ! (from + 1)) \<and> isxdigit (mem ! (from + 2))"
    have ie: "is_escape mem from = Some esc"
      using is_escape_eq [OF "1.prems"(2)] by (simp add: esc_def)
    show ?thesis
    proof (cases esc)
      case True
      have ieT: "is_escape mem from = Some True" using ie True by simp
      let ?m = "mem[to := unhex (mem ! (from + 1)) (mem ! (from + 2))]"
      have "\<forall>j < 3. mem ! (from + j) \<noteq> NUL"
        using True False isxdigit_not_NUL
        by (auto simp: esc_def numeral_3_eq_3 numeral_2_eq_2 less_Suc_eq)
      then have "NUL \<in> set (drop (from + 3) mem)" using "1.prems"(2) by (rule NUL_further [rotated])
      moreover have "drop (from + 3) ?m = drop (from + 3) mem" using "1.prems"(1) by simp
      ultimately obtain mem' where m': "strdecode_mem ?m (to + 1) (from + 3) = Some mem'"
        "length mem' = length mem" "take (to + 1) mem' = take (to + 1) ?m"
        "prefix (strdecode (drop (from + 3) mem) @ [NUL]) (drop (to + 1) mem')"
        using "1.IH"(1) [OF _ False ieT] len "1.prems"(1) by force
      note ws = write_step [OF len(2) m'(2,3)]
      have "strdecode (drop from mem) =
          unhex (mem ! (from + 1)) (mem ! (from + 2)) # strdecode (drop (from + 3) mem)"
        unfolding S using True False
        by (auto simp: strdecode_step esc_def add.commute numeral_3_eq_3)
      with m' ws len False ie True show ?thesis by (simp add: unf)
    next
      case nesc: False
      have ieF: "is_escape mem from = Some False" using ie nesc by simp
      let ?m = "mem[to := mem ! from]"
      have "NUL \<in> set (drop (from + 1) mem)"
        using "1.prems"(2) by (rule NUL_further) (simp add: False)
      moreover have "drop (from + 1) ?m = drop (from + 1) mem" using "1.prems"(1) by simp
      ultimately obtain mem' where m': "strdecode_mem ?m (to + 1) (from + 1) = Some mem'"
        "length mem' = length mem" "take (to + 1) mem' = take (to + 1) ?m"
        "prefix (strdecode (drop (from + 1) mem) @ [NUL]) (drop (to + 1) mem')"
        using "1.IH"(2) [OF _ False ieF] len "1.prems"(1) by force
      note ws = write_step [OF len(2) m'(2,3)]
      have "strdecode (drop from mem) = mem ! from # strdecode (drop (from + 1) mem)"
        unfolding S using nesc False by (auto simp: strdecode_step esc_def add.commute)
      with m' ws len False ie nesc show ?thesis by (simp add: unf)
    qed
  qed
qed

text \<open>
  C16: Called with both arguments pointing to the same NUL-terminated string, as the servers do,
  \<^verbatim>\<open>strdecode\<close> stays inside that string's memory and leaves there exactly the decoded string.
\<close>

theorem strdecode_in_place:
  assumes "NUL \<in> set (drop p mem)"
  shows "\<exists>mem'. strdecode_mem mem p p = Some mem' \<and> length mem' = length mem
           \<and> take p mem' = take p mem
           \<and> prefix (strdecode (drop p mem) @ [NUL]) (drop p mem')"
  using assms by (intro strdecode_mem_refines) auto

subsection \<open>Request lines\<close>

text \<open>A connection whose reads are not interrupted: data in any segmentation, then the end of file.\<close>

fun steady :: "rd_res list \<Rightarrow> bool" where
  "steady [] = False"
| "steady (RData bs # rs) = (bs = [] \<or> steady rs)"
| "steady (RFail e # rs) = False"

definition steady_conn :: "fd \<Rightarrow> 'z world_scheme \<Rightarrow> bool" where
  "steady_conn fd w \<longleftrightarrow> fd \<in> set (opened w) \<and> ofile w fd = None \<and> steady (rdq w fd)"

lemma steady_read1:
  assumes "steady_conn fd w" "arriving fd w = b # bs"
  shows "\<exists>w'. sys_read fd 1 w = (Ret (1, [b]), w') \<and> steady_conn fd w' \<and> arriving fd w' = bs"
proof (cases "rdq w fd")
  case Nil
  with assms show ?thesis by (simp add: steady_conn_def)
next
  case (Cons r rs)
  with assms obtain ds where r: "r = RData ds" "ds \<noteq> []"
    by (cases r) (auto simp: steady_conn_def arriving_def split: if_splits)
  then obtain d ds' where "ds = d # ds'" by (cases ds) auto
  with Cons r assms show ?thesis
    by (cases ds') (auto simp: sys_read_def steady_conn_def arriving_def)
qed

lemma steady_eof:
  assumes "steady_conn fd w" "arriving fd w = []"
  shows "\<exists>w'. sys_read fd 1 w = (Ret (0, []), w')" "sys_peek fd 1 w = (Ret (0, []), w)"
  using assms
  by (cases "rdq w fd"; auto simp: sys_read_def sys_peek_def steady_conn_def arriving_def
      split: rd_res.splits if_splits)+

lemma steady_peek:
  assumes "steady_conn fd w" "arriving fd w = b # bs"
  shows "sys_peek fd 1 w = (Ret (1, [b]), w)"
proof (cases "rdq w fd")
  case Nil
  with assms show ?thesis by (simp add: steady_conn_def)
next
  case (Cons r rs)
  with assms obtain ds where r: "r = RData ds" "ds \<noteq> []"
    by (cases r) (auto simp: steady_conn_def arriving_def split: if_splits)
  then obtain d ds' where "ds = d # ds'" by (cases ds) auto
  with Cons r assms show ?thesis
    by (auto simp: sys_peek_def steady_conn_def arriving_def)
qed

definition skip_lf :: "byte list \<Rightarrow> byte list" where
  "skip_lf bs = (case bs of b # t \<Rightarrow> if b = LF then t else bs | [] \<Rightarrow> [])"

lemma after_cr_steady:
  assumes "steady_conn fd w"
  shows "\<exists>w'. after_cr fd w = (Ret LF, w') \<and> steady_conn fd w' \<and> arriving fd w' = skip_lf (arriving fd w)"
proof (cases "arriving fd w")
  case Nil
  with assms steady_eof(2) [OF assms] show ?thesis
    by (auto simp: after_cr_def skip_lf_def)
next
  case (Cons b bs)
  with steady_read1 [OF assms Cons] steady_peek [OF assms Cons] assms show ?thesis
    by (cases "b = LF") (auto simp: after_cr_def skip_lf_def)
qed

text \<open>A line of a request: ended by LF, CR or CRLF, which are all stored as LF; at most \<open>k\<close> bytes. Also what is left.\<close>

fun http_line :: "nat \<Rightarrow> byte list \<Rightarrow> byte list \<times> byte list" where
  "http_line 0 bs = ([], bs)"
| "http_line (Suc k) [] = ([], [])"
| "http_line (Suc k) (b # bs) =
     (if b = LF then ([LF], bs)
      else if b = CR then ([LF], skip_lf bs)
      else (b # fst (http_line k bs), snd (http_line k bs)))"

lemma get_line_loop_done: "get_line_loop sock sz LF buf w = (Ret (int (length buf), buf), w)"
  by (simp add: get_line_loop.simps [of sock sz LF buf w])

lemma get_line_loop_steady:
  assumes "steady_conn sock w" "c \<noteq> LF" "int (length buf) + int k = sz - 1"
  shows "\<exists>w'. get_line_loop sock sz c buf w =
           (Ret (int (length buf + length (fst (http_line k (arriving sock w)))),
                 buf @ fst (http_line k (arriving sock w))), w')
         \<and> (LF \<in> set (fst (http_line k (arriving sock w)))
              \<or> length (fst (http_line k (arriving sock w))) = k \<longrightarrow>
              steady_conn sock w' \<and> arriving sock w' = snd (http_line k (arriving sock w)))"
  using assms
proof (induction k arbitrary: c buf w)
  case 0
  then show ?case by (simp add: get_line_loop.simps [of sock sz c buf w])
next
  case (Suc k)
  note unf = get_line_loop.simps [of sock sz c buf w]
  have guard: "int (length buf) < sz - 1 \<and> c \<noteq> LF" using Suc.prems by simp
  show ?case
  proof (cases "arriving sock w")
    case Nil
    with steady_eof(1) [OF Suc.prems(1)] obtain w' where "sys_read sock 1 w = (Ret (0, []), w')"
      by blast
    with guard Nil show ?thesis by (simp add: unf get_line_loop_done)
  next
    case (Cons b bs)
    with steady_read1 [OF Suc.prems(1)] obtain w1 where
      w1: "sys_read sock 1 w = (Ret (1, [b]), w1)" "steady_conn sock w1" "arriving sock w1 = bs"
      by blast
    consider "b = LF" | "b = CR" | "b \<noteq> LF" "b \<noteq> CR" by blast
    then show ?thesis
    proof cases
      case 1
      with w1 guard Cons show ?thesis by (simp add: unf get_line_loop_done)
    next
      case 2
      from after_cr_steady [OF w1(2)] obtain w2 where
        "after_cr sock w1 = (Ret LF, w2)" "steady_conn sock w2" "arriving sock w2 = skip_lf bs"
        using w1(3) by auto
      with 2 w1 guard Cons show ?thesis by (simp add: unf get_line_loop_done)
    next
      case 3
      from Suc.IH [OF w1(2) 3(1), of "buf @ [b]"] Suc.prems(3) w1(3) obtain w' where
        "get_line_loop sock sz b (buf @ [b]) w1 =
           (Ret (int (length (buf @ [b]) + length (fst (http_line k bs))),
                 (buf @ [b]) @ fst (http_line k bs)), w')"
        "LF \<in> set (fst (http_line k bs)) \<or> length (fst (http_line k bs)) = k \<longrightarrow>
           steady_conn sock w' \<and> arriving sock w' = snd (http_line k bs)"
        by auto
      with 3 w1 guard Cons show ?thesis by (auto simp: unf)
    qed
  qed
qed

text \<open>
  \<^verbatim>\<open>get_line\<close> stores the next line of the connection with its terminator (LF, CR or CRLF) turned into
  one LF, cut to what fits in the buffer, returns its length, and leaves what follows on the connection.
\<close>

theorem get_line_next_line:
  assumes "steady_conn sock w" "0 < sz"
  shows "\<exists>w'. get_line sock sz w =
           (Ret (int (length (fst (http_line (nat (sz - 1)) (arriving sock w)))),
                 fst (http_line (nat (sz - 1)) (arriving sock w))), w')
         \<and> (LF \<in> set (fst (http_line (nat (sz - 1)) (arriving sock w))) \<longrightarrow>
              steady_conn sock w' \<and>
              arriving sock w' = snd (http_line (nat (sz - 1)) (arriving sock w)))"
  using get_line_loop_steady [OF assms(1), of NUL "[]" "nat (sz - 1)" sz] assms(2)
  by (auto simp: get_line_def)

lemma get_line_loop_bounds:
  assumes "get_line_loop sock sz c buf w = (Ret (i, buf'), w')"
    "LF \<in> set buf \<longrightarrow> c = LF" "LF \<notin> set (butlast buf)" "int (length buf) \<le> max 0 (sz - 1)"
  shows "i = int (length buf') \<and> int (length buf') \<le> max 0 (sz - 1) \<and> LF \<notin> set (butlast buf')"
  using assms
proof (induction sock sz c buf w rule: get_line_loop.induct)
  case (1 sock sz c buf w)
  note unf = get_line_loop.simps [of sock sz c buf w]
  show ?case
  proof (cases "int (length buf) < sz - 1 \<and> c \<noteq> LF")
    case False
    with "1.prems" show ?thesis by (auto simp: unf)
  next
    case True
    with "1.prems"(1) obtain r w1 where r: "sys_read sock 1 w = (Ret r, w1)"
      and rest: "(if fst r > 0 then
            andthen (if hd (snd r) = CR then after_cr sock else ret (hd (snd r)))
              (\<lambda>c2 w2. get_line_loop sock sz c2 (buf @ [c2]) w2) w1
          else get_line_loop sock sz LF buf w1) = (Ret (i, buf'), w')"
      by (auto simp: unf dest: andthen_RetD)
    show ?thesis
    proof (cases "fst r > 0")
      case False
      with rest "1.prems" "1.IH"(2) [OF True r] show ?thesis by auto
    next
      case pos: True
      with rest obtain c2 w2 where
        c2: "(if hd (snd r) = CR then after_cr sock else ret (hd (snd r))) w1 = (Ret c2, w2)"
        and go: "get_line_loop sock sz c2 (buf @ [c2]) w2 = (Ret (i, buf'), w')"
        by (auto dest: andthen_RetD)
      from True "1.prems" have "LF \<notin> set buf" by auto
      with "1.IH"(1) [OF True r pos c2 go] True show ?thesis by (auto simp: butlast_append)
    qed
  qed
qed

text \<open>
  Whatever the peer sends and however its reads fail, \<^verbatim>\<open>get_line\<close> stays inside a buffer of \<open>sz\<close> bytes
  (its NUL included), returns the length of what it stored, and stores at most one LF, as the last byte.
\<close>

theorem get_line_in_bounds:
  assumes "get_line sock sz w = (Ret (i, buf), w')" "0 < sz"
  shows "i = int (length buf) \<and> int (length buf) + 1 \<le> sz \<and> LF \<notin> set (butlast buf)"
  using get_line_loop_bounds [of sock sz NUL "[]" w i buf w'] assms by (auto simp: get_line_def)

subsection \<open>Instances\<close>

theorem strdecode_strencode_witness: "strdecode (strencode 100 0 ''a b%'') = ''a b%''"
  by (rule strdecode_strencode) simp_all

theorem strencode_bounded_witness:
  "length (strencode 5 0 ''a b c'') + 1 \<le> 5 \<and> prefix (strdecode (strencode 5 0 ''a b c'')) (cstr ''a b c'')"
  using strencode_bounded [of 5 "''a b c''"] by simp

theorem strdecode_in_place_witness:
  "\<exists>mem'. strdecode_mem (''/%41'' @ [NUL]) 1 1 = Some mem' \<and> length mem' = 5"
proof -
  have "NUL \<in> set (drop 1 (''/%41'' @ [NUL]))" by simp
  from strdecode_in_place [OF this] show ?thesis by auto
qed

theorem get_line_next_line_witness:
  "\<exists>w'. get_line 5 100 (conn_world 5 [RData ''ab'', RData [CHR 0x0D, CHR 0x0A, CHR ''x''], RData []]) =
     (Ret (3, ''ab'' @ [LF]), w')"
proof -
  have "steady_conn 5 (conn_world 5 [RData ''ab'', RData [CHR 0x0D, CHR 0x0A, CHR ''x''], RData []])"
    by (simp add: steady_conn_def)
  from get_line_next_line [OF this, of 100] show ?thesis
    by (auto simp: arriving_def numeral_eq_Suc)
qed

theorem get_line_in_bounds_witness:
  "\<exists>i buf w'. get_line 5 3 (conn_world 5 [RData ''abcdef'', RData []]) = (Ret (i, buf), w') \<and> int (length buf) + 1 \<le> 3"
proof -
  have "steady_conn 5 (conn_world 5 [RData ''abcdef'', RData []])" by (simp add: steady_conn_def)
  from get_line_next_line [OF this, of 3] obtain i buf w' where
    "get_line 5 3 (conn_world 5 [RData ''abcdef'', RData []]) = (Ret (i, buf), w')" by auto
  with get_line_in_bounds [OF this] show ?thesis by auto
qed

end
