(* ===== verification/EpollWeb.thy ===== *)
theory EpollWeb
  imports Wrap Pub "HOL-Library.Char_ord" "HOL-Library.List_Lexorder"
begin

section \<open>The epoll web server (01\_epoll\_web.c)\<close>

text \<open>
  \<^verbatim>\<open>concurrence_linux/13_libevent_web/01_epoll_web.c\<close>: one request per connection, answered from the directory
  \<^verbatim>\<open>$PWD/web-http\<close>, which is the file system \<open>fsys\<close> of the modelled kernel. Strings are byte lists without their NUL;
  a store or a read outside of an array is undefined behaviour. \<^verbatim>\<open>sscanf\<close> with the three scansets
  is modelled by \<open>scan_request\<close>, \<^verbatim>\<open>sprintf\<close> by concatenation.
\<close>

subsection \<open>Library functions the server uses\<close>

definition isspace :: "byte \<Rightarrow> bool" where
  "isspace c \<longleftrightarrow> c = CHR '' '' \<or> c = CHR 0x09 \<or> c = CHR 0x0A \<or> c = CHR 0x0B \<or> c = CHR 0x0C \<or> c = CHR 0x0D"

text \<open>
  \<^verbatim>\<open>sscanf(buf, "%[^ ] %[^ ] %[^ \r\n]", ...)\<close>: the strings stored, fewer than three when a scanset
  matches nothing.
\<close>

definition scan_request :: "byte list \<Rightarrow> byte list list" where
  "scan_request buf =
     (let s = cstr buf;
          a = takeWhile (\<lambda>c. c \<noteq> CHR '' '') s;
          s1 = dropWhile isspace (dropWhile (\<lambda>c. c \<noteq> CHR '' '') s);
          b = takeWhile (\<lambda>c. c \<noteq> CHR '' '') s1;
          s2 = dropWhile isspace (dropWhile (\<lambda>c. c \<noteq> CHR '' '') s1);
          p = takeWhile (\<lambda>c. c \<noteq> CHR '' '' \<and> c \<noteq> CR \<and> c \<noteq> LF) s2
      in if a = [] then [] else if b = [] then [a] else if p = [] then [a, b] else [a, b, p])"

definition tolower :: "byte \<Rightarrow> byte" where
  "tolower c = (if 65 \<le> uchar c \<and> uchar c \<le> 90 then char_of (uchar c + 32) else c)"

definition strcaseeq :: "byte list \<Rightarrow> byte list \<Rightarrow> bool" where
  "strcaseeq a b \<longleftrightarrow> map tolower a = map tolower b"

text \<open>Directory entries in the order of \<^verbatim>\<open>alphasort\<close>: by the bytes of the name.\<close>

fun dtype_code :: "dtype \<Rightarrow> nat" where
  "dtype_code DT_DIR = 4"
| "dtype_code DT_REG = 8"
| "dtype_code DT_OTHER = 0"

lemma dtype_code_inj: "dtype_code a = dtype_code b \<longleftrightarrow> a = b"
  by (cases a; cases b) simp_all

instantiation dirent :: linorder
begin

definition less_eq_dirent :: "dirent \<Rightarrow> dirent \<Rightarrow> bool" where
  "less_eq_dirent x y \<longleftrightarrow> d_name x < d_name y
     \<or> d_name x = d_name y \<and> dtype_code (d_type x) \<le> dtype_code (d_type y)"

definition less_dirent :: "dirent \<Rightarrow> dirent \<Rightarrow> bool" where
  "less_dirent x y \<longleftrightarrow> x \<le> y \<and> \<not> y \<le> (x :: dirent)"

instance
proof
  fix x y z :: dirent
  show "x < y \<longleftrightarrow> x \<le> y \<and> \<not> y \<le> x" by (rule less_dirent_def)
  show "x \<le> x" by (simp add: less_eq_dirent_def)
  show "x \<le> y \<Longrightarrow> y \<le> z \<Longrightarrow> x \<le> z" by (auto simp: less_eq_dirent_def)
  show "x \<le> y \<Longrightarrow> y \<le> x \<Longrightarrow> x = y"
    by (cases x; cases y) (auto simp: less_eq_dirent_def dtype_code_inj [symmetric])
  show "x \<le> y \<or> y \<le> x" by (auto simp: less_eq_dirent_def)
qed

end

text \<open>\<^verbatim>\<open>scandir(path, &namelist, NULL, alphasort)\<close>: no entries when it fails.\<close>

definition scandir :: "byte list \<Rightarrow> 'z world_scheme \<Rightarrow> dirent list" where
  "scandir path w = (case fsys w path of Some (DirNode es) \<Rightarrow> sort es | _ \<Rightarrow> [])"

subsection \<open>Sending\<close>

definition CRLF :: "byte list" where "CRLF = [CR, LF]"

definition send_bytes :: "fd \<Rightarrow> byte list \<Rightarrow> ('z world_scheme, unit) io" where
  "send_bytes cfd bs = andthen (sys_write cfd bs) (\<lambda>_. ret ())"

definition send_header ::
  "fd \<Rightarrow> nat \<Rightarrow> byte list \<Rightarrow> byte list \<Rightarrow> int \<Rightarrow> ('z world_scheme, unit) io" where
  "send_header cfd code status mimeType len =
     andthen (send_bytes cfd (''HTTP/1.1 '' @ dec code @ '' '' @ status @ CRLF)) (\<lambda>_.
     andthen (send_bytes cfd (''Content-Type:'' @ mimeType @ CRLF)) (\<lambda>_.
     andthen (if len > 0 then send_bytes cfd (''Content-length:'' @ dec (nat len) @ CRLF) else ret ()) (\<lambda>_.
     send_bytes cfd CRLF)))"

text \<open>The inner \<^verbatim>\<open>while(true)\<close> of \<^verbatim>\<open>send_file\<close>.\<close>

function send_loop :: "fd \<Rightarrow> fd \<Rightarrow> ('z world_scheme, unit) io" where
  "send_loop fd cfd w =
     andthen (sys_read fd 1024) (\<lambda>r w1.
       if fst r \<le> 0 then ret () w1
       else andthen (sys_write cfd (snd r)) (\<lambda>_ w2. send_loop fd cfd w2) w1) w"
  by pat_completeness auto
termination
proof (relation "measure (\<lambda>(fd, cfd, w). pending_size fd w)", goal_cases)
  case (2 fd cfd w r w1 u w2)
  then show ?case
    using sys_read_pending [of fd 1024 w r w1] sys_write_pending [of cfd "snd r" w1 "Ret u" w2 fd] by simp
qed simp

declare send_loop.simps [simp del]

definition send_file :: "fd \<Rightarrow> fd \<Rightarrow> byte list \<Rightarrow> bool \<Rightarrow> ('z world_scheme, unit) io" where
  "send_file epfd cfd path flags =
     andthen (sys_open path) (\<lambda>fd.
     andthen (if fd < 0 then ret () else send_loop fd cfd) (\<lambda>_.
     andthen (sys_close fd) (\<lambda>_.
       if flags then
         andthen (Close cfd) (\<lambda>_.
         andthen (sys_epoll_ctl epfd EPOLL_CTL_DEL cfd {EPOLLIN} cfd) (\<lambda>_. ret ()))
       else ret ())))"

subsection \<open>Handling a request\<close>

definition dir_line :: "dirent \<Rightarrow> byte list" where
  "dir_line e =
     (if d_type e = DT_DIR
      then ''<li><a href='' @ d_name e @ ''/ >'' @ d_name e @ ''</a></li><br>''
      else ''<li><a href='' @ d_name e @ '' >'' @ d_name e @ ''</a></li><br>'')"

definition serve_dir :: "fd \<Rightarrow> fd \<Rightarrow> byte list \<Rightarrow> ('z world_scheme, unit) io" where
  "serve_dir epfd cfd str =
     andthen (send_header cfd 200 ''OK'' (get_mime_type ''*.html'') 0) (\<lambda>_.
     andthen (send_file epfd cfd ''dir_header.html'' False) (\<lambda>_.
     andthen (gets (scandir str)) (\<lambda>names.
     andthen (foreach (\<lambda>e. send_bytes cfd (dir_line e)) names) (\<lambda>_.
     send_file epfd cfd ''dir_tail.html'' True))))"

definition serve_path :: "fd \<Rightarrow> fd \<Rightarrow> byte list \<Rightarrow> ('z world_scheme, unit) io" where
  "serve_path epfd cfd str =
     andthen (gets (\<lambda>w. fsys w str)) (\<lambda>s.
       case s of
         None \<Rightarrow>
           andthen (send_header cfd 404 ''Not Found'' (get_mime_type ''.html'') 0) (\<lambda>_.
           send_file epfd cfd ''error.html'' True)
       | Some (DirNode es) \<Rightarrow> serve_dir epfd cfd str
       | Some (RegFile c) \<Rightarrow>
           andthen (send_header cfd 200 ''OK'' (get_mime_type str) 0) (\<lambda>_.
           send_file epfd cfd str True)
       | Some SpecialNode \<Rightarrow> ret ())"

text \<open>The file a request line asks for: \<^verbatim>\<open>content + 1\<close>, decoded in place, or the current directory.\<close>

definition requested :: "byte list \<Rightarrow> byte list" where
  "requested content =
     (let str = cstr (strdecode (drop 1 content)) in if str = [] then ''./'' else str)"

text \<open>\<^verbatim>\<open>while(recv(fd, temp, sizeof(temp), 0) > 0);\<close>\<close>

function discard_rest :: "fd \<Rightarrow> ('z world_scheme, unit) io" where
  "discard_rest f w =
     andthen (sys_read f 1024) (\<lambda>r w1. if fst r > 0 then discard_rest f w1 else ret () w1) w"
  by pat_completeness auto
termination
proof (relation "measure (\<lambda>(f, w). pending_size f w)", goal_cases)
  case (2 f w r w1)
  then show ?case using sys_read_pending [of f 1024 w r w1] by simp
qed simp

declare discard_rest.simps [simp del]

text \<open>
  The buffer has 256 bytes, all of which \<^verbatim>\<open>recv\<close> may fill; then there is no NUL for \<^verbatim>\<open>printf\<close> and \<^verbatim>\<open>sscanf\<close> to
  stop at.
\<close>

definition process_http_request :: "fd \<Rightarrow> fd \<Rightarrow> ('z world_scheme, unit) io" where
  "process_http_request epfd f =
     andthen (sys_read f 256) (\<lambda>r.
       if fst r \<le> 0 then
         andthen (Close f) (\<lambda>_.
         andthen (sys_epoll_ctl epfd EPOLL_CTL_DEL f {EPOLLIN} f) (\<lambda>_. ret ()))
       else if fst r = 256 \<and> NUL \<notin> set (snd r) then undef
       else
         andthen (discard_rest f) (\<lambda>_.
           let fields = scan_request (snd r);
               method = (if length fields > 0 then fields ! 0 else []);
               content = (if length fields > 1 then fields ! 1 else [])
           in if strcaseeq method ''get'' then serve_path epfd f (requested content) else ret ()))"

subsection \<open>The main program\<close>

text \<open>\<^verbatim>\<open>change_word_dir\<close>: the directory it changes to.\<close>

definition change_word_dir :: "byte list option \<Rightarrow> byte list outcome" where
  "change_word_dir pwd =
     (case pwd of
        None \<Rightarrow> Undef
      | Some p \<Rightarrow> if 256 \<le> length p + length ''/web-http'' then Undef else Ret (p @ ''/web-http''))"

definition web_event :: "fd \<Rightarrow> fd \<Rightarrow> epmask \<times> int \<Rightarrow> ('z world_scheme, unit) io" where
  "web_event epfd lfd e =
     (if lfd = snd e \<and> EPOLLIN \<in> fst e then
        andthen (Accept lfd) (\<lambda>cfd.
        andthen (set_nonblock cfd) (\<lambda>_.
        andthen (sys_epoll_ctl epfd EPOLL_CTL_ADD cfd {EPOLLIN} cfd) (\<lambda>_. ret ())))
      else if EPOLLIN \<in> fst e then process_http_request epfd (snd e)
      else ret ())"

definition web_round :: "fd \<Rightarrow> fd \<Rightarrow> ('z world_scheme, unit) io" where
  "web_round epfd lfd =
     andthen (sys_epoll_wait epfd 1024) (\<lambda>r.
       if fst r < 0 then andthen (Close lfd) (\<lambda>_. exit_with 0)
       else foreach (web_event epfd lfd) (snd r))"

definition web_main :: "byte list option \<Rightarrow> nat \<Rightarrow> ('z world_scheme, unit) io" where
  "web_main pwd n =
     (case change_word_dir pwd of
        Ret d \<Rightarrow>
          andthen (tcp4bind 8888 None) (\<lambda>lfd.
          andthen (Listen lfd 128) (\<lambda>_.
          andthen sys_epoll_create (\<lambda>epfd.
          andthen (sys_epoll_ctl epfd EPOLL_CTL_ADD lfd {EPOLLIN} lfd) (\<lambda>_.
          rounds n (web_round epfd lfd)))))
      | _ \<Rightarrow> undef)"

subsection \<open>What a request is answered with\<close>

text \<open>The response as a function of the file system and the path, without the calls that send it.\<close>

definition http_head :: "nat \<Rightarrow> byte list \<Rightarrow> byte list \<Rightarrow> byte list" where
  "http_head code status mime =
     ''HTTP/1.1 '' @ dec code @ '' '' @ status @ CRLF @ ''Content-Type:'' @ mime @ CRLF @ CRLF"

definition file_bytes :: "(byte list \<Rightarrow> inode option) \<Rightarrow> byte list \<Rightarrow> byte list" where
  "file_bytes fs path = (case fs path of Some (RegFile c) \<Rightarrow> c | _ \<Rightarrow> [])"

definition response :: "(byte list \<Rightarrow> inode option) \<Rightarrow> byte list \<Rightarrow> byte list" where
  "response fs path =
     (case fs path of
        None \<Rightarrow> http_head 404 ''Not Found'' (get_mime_type ''.html'') @ file_bytes fs ''error.html''
      | Some (RegFile c) \<Rightarrow> http_head 200 ''OK'' (get_mime_type path) @ c
      | Some (DirNode es) \<Rightarrow>
          http_head 200 ''OK'' (get_mime_type ''*.html'') @ file_bytes fs ''dir_header.html''
          @ concat (map dir_line (sort es)) @ file_bytes fs ''dir_tail.html''
      | Some SpecialNode \<Rightarrow> [])"

text \<open>A connection whose peer takes everything at once, over the file system \<open>fs\<close>.\<close>

definition ready :: "fd \<Rightarrow> (byte list \<Rightarrow> inode option) \<Rightarrow> 'z world_scheme \<Rightarrow> bool" where
  "ready cfd fs w \<longleftrightarrow> cfd \<in> set (opened w) \<and> wrq w cfd = [] \<and> fsys w = fs \<and> -1 \<notin> set (opened w)"

text \<open>A call that sends \<open>bs\<close> and leaves the connection open.\<close>

definition emits ::
  "fd \<Rightarrow> (byte list \<Rightarrow> inode option) \<Rightarrow> ('z world_scheme, unit) io \<Rightarrow> byte list \<Rightarrow> bool" where
  "emits cfd fs m bs \<longleftrightarrow> (\<forall>w. ready cfd fs w \<longrightarrow> (\<exists>w' ts. m w = (Ret (), w') \<and> ready cfd fs w'
     \<and> trace w' = trace w @ ts \<and> sent_on cfd ts = bs \<and> close_count cfd ts = 0))"

lemma emits_ret: "emits cfd fs (ret ()) []"
  by (auto simp: emits_def intro: exI [of _ "[]"])

lemma emits_andthen:
  fixes m n :: "('z world_scheme, unit) io"
  assumes "emits cfd fs m bs" "emits cfd fs n cs"
  shows "emits cfd fs (andthen m (\<lambda>_. n)) (bs @ cs)"
  unfolding emits_def
proof (intro allI impI)
  fix w :: "'z world_scheme" assume "ready cfd fs w"
  with assms(1) obtain w1 ts where 1: "m w = (Ret (), w1)" "ready cfd fs w1" "trace w1 = trace w @ ts"
    "sent_on cfd ts = bs" "close_count cfd ts = 0" unfolding emits_def by blast
  with assms(2) obtain w2 us where 2: "n w1 = (Ret (), w2)" "ready cfd fs w2" "trace w2 = trace w1 @ us"
    "sent_on cfd us = cs" "close_count cfd us = 0" unfolding emits_def by blast
  with 1 show "\<exists>w' ts. andthen m (\<lambda>_. n) w = (Ret (), w') \<and> ready cfd fs w'
      \<and> trace w' = trace w @ ts \<and> sent_on cfd ts = bs @ cs \<and> close_count cfd ts = 0"
    by (intro exI [of _ w2] exI [of _ "ts @ us"]) simp
qed

lemma emits_send_bytes: "emits cfd fs (send_bytes cfd bs) bs"
  by (auto simp: emits_def ready_def send_bytes_def sys_write_def intro: exI [of _ "[Sent cfd bs]"])

lemma emits_send_header:
  "emits cfd fs (send_header cfd code status mime 0) (http_head code status mime)"
proof -
  have "emits cfd fs (send_header cfd code status mime 0)
     ((''HTTP/1.1 '' @ dec code @ '' '' @ status @ CRLF) @ (''Content-Type:'' @ mime @ CRLF) @ [] @ CRLF)"
    unfolding send_header_def
    by (intro emits_andthen emits_send_bytes) (simp add: emits_ret)
  then show ?thesis by (simp add: http_head_def)
qed

lemma emits_gets:
  "(\<And>w. ready cfd fs w \<Longrightarrow> g w = x) \<Longrightarrow> emits cfd fs (f x) bs \<Longrightarrow> emits cfd fs (andthen (gets g) f) bs"
  unfolding emits_def by simp

lemma emits_foreach: "(\<And>x. emits cfd fs (f x) (g x)) \<Longrightarrow> emits cfd fs (foreach f xs) (concat (map g xs))"
  by (induction xs) (auto intro: emits_ret emits_andthen)

text \<open>The loop of \<^verbatim>\<open>send_file\<close> sends the rest of the file, whatever its length.\<close>

lemma send_loop_sends:
  assumes "fd \<in> set (opened w)" "ofile w fd = Some c" "fd \<noteq> cfd" "cfd \<in> set (opened w)" "wrq w cfd = []"
  shows "\<exists>w' ts. send_loop fd cfd w = (Ret (), w') \<and> trace w' = trace w @ ts \<and> sent_on cfd ts = c
     \<and> (\<forall>g. close_count g ts = 0) \<and> opened w' = opened w \<and> wrq w' = wrq w \<and> fsys w' = fsys w"
  using assms
proof (induction "length c" arbitrary: w c rule: less_induct)
  case less
  show ?case
  proof (cases "c = []")
    case True
    with less.prems show ?thesis
      by (auto simp: send_loop.simps [of fd cfd w] sys_read_def intro: exI [of _ "[]"])
  next
    case False
    let ?w = "w\<lparr>ofile := (ofile w)(fd := Some (drop 1024 c)), trace := trace w @ [Sent cfd (take 1024 c)]\<rparr>"
    have step: "send_loop fd cfd w = send_loop fd cfd ?w"
      using less.prems False
      by (cases c) (simp_all add: send_loop.simps [of fd cfd w] sys_read_def sys_write_def)
    have "length (drop 1024 c) < length c" using False by simp
    from less.hyps [OF this, of ?w] less.prems obtain w' ts where
      "send_loop fd cfd ?w = (Ret (), w')" "trace w' = trace ?w @ ts" "sent_on cfd ts = drop 1024 c"
      "\<forall>g. close_count g ts = 0" "opened w' = opened w" "wrq w' = wrq w" "fsys w' = fsys w" by auto
    then show ?thesis using step
      by (intro exI [of _ w'] exI [of _ "Sent cfd (take 1024 c) # ts"]) simp
  qed
qed

lemma send_opened_file:
  assumes "ready cfd fs w" "fs path \<noteq> Some SpecialNode"
  shows "\<exists>w' ts. andthen (sys_open path) (\<lambda>fd. andthen (if fd < 0 then ret () else send_loop fd cfd) (\<lambda>_.
       andthen (sys_close fd) (\<lambda>_. ret ()))) w = (Ret (), w') \<and> ready cfd fs w'
     \<and> trace w' = trace w @ ts \<and> sent_on cfd ts = file_bytes fs path \<and> close_count cfd ts = 0"
proof (cases "fs path")
  case None
  let ?w = "w\<lparr>cerrno := EBADF\<rparr>"
  have o: "sys_open path w = (Ret (-1), w\<lparr>cerrno := ENOENT\<rparr>)"
    using assms(1) None by (simp add: ready_def sys_open_def)
  have c: "sys_close (-1) (w\<lparr>cerrno := ENOENT\<rparr>) = (Ret (-1), ?w)"
    using assms(1) by (simp add: ready_def sys_close_def)
  have "andthen (sys_open path) (\<lambda>fd. andthen (if fd < 0 then ret () else send_loop fd cfd) (\<lambda>_.
      andthen (sys_close fd) (\<lambda>_. ret ()))) w = (Ret (), ?w)"
    by (simp add: o c)
  moreover have "ready cfd fs ?w" using assms(1) by (simp add: ready_def)
  moreover have "trace ?w = trace w @ []" by simp
  moreover have "sent_on cfd [] = file_bytes fs path" "close_count cfd [] = 0"
    using None by (simp_all add: file_bytes_def)
  ultimately show ?thesis by blast
next
  case (Some node)
  let ?fd = "fresh_fd (opened w)"
  have fd: "?fd \<notin> set (opened w)" "?fd \<noteq> cfd" "\<not> ?fd < 0"
    using fresh_fd_notin assms(1) by (auto simp: ready_def fresh_fd_def)
  have closed: "removeAll ?fd (opened w) = opened w" using fd(1) by simp
  show ?thesis
  proof (cases node)
    case (RegFile c)
    let ?w = "w\<lparr>opened := ?fd # opened w, nonblk := (nonblk w)(?fd := False),
        rdq := (rdq w)(?fd := rdq w ?fd), ofile := (ofile w)(?fd := Some c)\<rparr>"
    have o: "sys_open path w = (Ret ?fd, ?w)"
      using Some RegFile assms(1) by (simp add: ready_def sys_open_def Let_def)
    have "\<exists>w' ts. send_loop ?fd cfd ?w = (Ret (), w') \<and> trace w' = trace ?w @ ts \<and> sent_on cfd ts = c
        \<and> (\<forall>g. close_count g ts = 0) \<and> opened w' = opened ?w \<and> wrq w' = wrq ?w \<and> fsys w' = fsys ?w"
      using assms(1) fd by (intro send_loop_sends) (auto simp: ready_def)
    then obtain w1 ts where l: "send_loop ?fd cfd ?w = (Ret (), w1)" "trace w1 = trace w @ ts"
      "sent_on cfd ts = c" "\<forall>g. close_count g ts = 0" "opened w1 = ?fd # opened w" "wrq w1 = wrq w"
      "fsys w1 = fsys w" by auto
    obtain w2 where c: "sys_close ?fd w1 = (Ret 0, w2)" "opened w2 = opened w" "wrq w2 = wrq w1"
      "fsys w2 = fsys w1" "trace w2 = trace w1 @ [Closed ?fd]"
      using closed l(5) by (simp add: sys_close_def)
    have "andthen (sys_open path) (\<lambda>fd. andthen (if fd < 0 then ret () else send_loop fd cfd) (\<lambda>_.
       andthen (sys_close fd) (\<lambda>_. ret ()))) w = (Ret (), w2)"
      using o fd(3) l(1) c(1) by simp
    moreover have "ready cfd fs w2" using c(2-4) l(6,7) assms(1) by (simp add: ready_def)
    moreover have "trace w2 = trace w @ (ts @ [Closed ?fd])" using c(5) l(2) by simp
    moreover have "sent_on cfd (ts @ [Closed ?fd]) = file_bytes fs path" "close_count cfd (ts @ [Closed ?fd]) = 0"
      using l(3,4) fd(2) Some RegFile by (simp_all add: file_bytes_def)
    ultimately show ?thesis by blast
  next
    case (DirNode es)
    let ?w = "w\<lparr>opened := ?fd # opened w, nonblk := (nonblk w)(?fd := False),
        rdq := (rdq w)(?fd := [RFail EISDIR]), ofile := (ofile w)(?fd := None)\<rparr>"
    let ?w1 = "?w\<lparr>rdq := (rdq w)(?fd := []), cerrno := EISDIR\<rparr>"
    have o: "sys_open path w = (Ret ?fd, ?w)"
      using Some DirNode assms(1) by (simp add: ready_def sys_open_def Let_def)
    have "sys_read ?fd 1024 ?w = (Ret (-1, []), ?w1)" by (simp add: sys_read_def)
    then have l: "send_loop ?fd cfd ?w = (Ret (), ?w1)" by (simp add: send_loop.simps [of ?fd cfd ?w])
    obtain w2 where c: "sys_close ?fd ?w1 = (Ret 0, w2)" "opened w2 = opened w" "wrq w2 = wrq w"
      "fsys w2 = fsys w" "trace w2 = trace w @ [Closed ?fd]"
      using closed by (simp add: sys_close_def)
    have "andthen (sys_open path) (\<lambda>fd. andthen (if fd < 0 then ret () else send_loop fd cfd) (\<lambda>_.
       andthen (sys_close fd) (\<lambda>_. ret ()))) w = (Ret (), w2)"
      using o fd(3) l c(1) by simp
    moreover have "ready cfd fs w2" "sent_on cfd [Closed ?fd] = file_bytes fs path" "close_count cfd [Closed ?fd] = 0"
      using c assms(1) fd(2) Some DirNode by (simp_all add: ready_def file_bytes_def)
    ultimately show ?thesis using c(5) by blast
  next
    case SpecialNode
    with Some assms(2) show ?thesis by simp
  qed
qed

lemma emits_send_file: "fs path \<noteq> Some SpecialNode \<Longrightarrow> emits cfd fs (send_file epfd cfd path False) (file_bytes fs path)"
  using send_opened_file [of cfd fs _ path] unfolding emits_def send_file_def if_False by blast

lemma send_file_and_close:
  assumes "ready cfd fs w" "fs path \<noteq> Some SpecialNode"
  shows "\<exists>w' ts. send_file epfd cfd path True w = (Ret (), w') \<and> trace w' = trace w @ ts
     \<and> sent_on cfd ts = file_bytes fs path \<and> close_count cfd ts = 1
     \<and> cfd \<notin> set (opened w') \<and> epoll w' ep cfd = None"
proof -
  from send_opened_file [OF assms] obtain w1 ts where 1: "andthen (sys_open path) (\<lambda>fd.
      andthen (if fd < 0 then ret () else send_loop fd cfd) (\<lambda>_. andthen (sys_close fd) (\<lambda>_. ret ()))) w =
      (Ret (), w1)" "ready cfd fs w1" "trace w1 = trace w @ ts" "sent_on cfd ts = file_bytes fs path"
    "close_count cfd ts = 0" by blast
  let ?fin = "andthen (Close cfd) (\<lambda>_. andthen (sys_epoll_ctl epfd EPOLL_CTL_DEL cfd {EPOLLIN} cfd) (\<lambda>_. ret ()))"
  have "send_file epfd cfd path True w = andthen (andthen (sys_open path) (\<lambda>fd.
      andthen (if fd < 0 then ret () else send_loop fd cfd) (\<lambda>_. andthen (sys_close fd) (\<lambda>_. ret ())))) (\<lambda>_. ?fin) w"
    by (simp add: send_file_def andthen_assoc)
  also have "\<dots> = ?fin w1" using 1(1) by simp
  finally show ?thesis using 1(2-5)
    by (intro exI [of _ "snd (?fin w1)"] exI [of _ "ts @ [Closed cfd]"])
       (simp add: ready_def Close_def sys_close_def sys_epoll_ctl_def)
qed

text \<open>Every answer to a \<^verbatim>\<open>GET\<close> that names a file or a directory, or nothing.\<close>

lemma serve_path_response:
  assumes "ready cfd fs w" "fs path \<noteq> Some SpecialNode"
    "\<forall>p \<in> {''error.html'', ''dir_header.html'', ''dir_tail.html''}. fs p \<noteq> Some SpecialNode"
  shows "\<exists>w' ts. serve_path epfd cfd path w = (Ret (), w') \<and> trace w' = trace w @ ts
     \<and> sent_on cfd ts = response fs path \<and> close_count cfd ts = 1
     \<and> cfd \<notin> set (opened w') \<and> epoll w' ep cfd = None"
proof -
  have fin: "\<exists>w' ts. andthen m (\<lambda>_. send_file epfd cfd p True) w = (Ret (), w') \<and> trace w' = trace w @ ts
     \<and> sent_on cfd ts = bs @ file_bytes fs p \<and> close_count cfd ts = 1
     \<and> cfd \<notin> set (opened w') \<and> epoll w' ep cfd = None"
    if m: "emits cfd fs m bs" and p: "fs p \<noteq> Some SpecialNode" for m bs p
  proof -
    from m assms(1) obtain w1 ts where 1: "m w = (Ret (), w1)" "ready cfd fs w1" "trace w1 = trace w @ ts"
      "sent_on cfd ts = bs" "close_count cfd ts = 0" unfolding emits_def by blast
    from send_file_and_close [OF 1(2) p, of epfd ep] obtain w2 us where
      "send_file epfd cfd p True w1 = (Ret (), w2)" "trace w2 = trace w1 @ us"
      "sent_on cfd us = file_bytes fs p" "close_count cfd us = 1" "cfd \<notin> set (opened w2)"
      "epoll w2 ep cfd = None" by blast
    with 1 show ?thesis by (intro exI [of _ w2] exI [of _ "ts @ us"]) simp
  qed
  have fs: "fsys w = fs" using assms(1) by (simp add: ready_def)
  show ?thesis
  proof (cases "fs path")
    case None
    with fin [OF emits_send_header, of "''error.html''" 404 "''Not Found''" "get_mime_type ''.html''"] assms(3) fs
    show ?thesis by (simp add: serve_path_def response_def)
  next
    case (Some node)
    show ?thesis
    proof (cases node)
      case (RegFile c)
      with fin [OF emits_send_header, of path 200 "''OK''" "get_mime_type path"] Some fs
      show ?thesis by (simp add: serve_path_def response_def file_bytes_def)
    next
      case (DirNode es)
      have "emits cfd fs (andthen (gets (scandir path)) (\<lambda>names. foreach (\<lambda>e. send_bytes cfd (dir_line e)) names))
          (concat (map dir_line (sort es)))"
        by (rule emits_gets, use Some DirNode in \<open>simp add: scandir_def ready_def\<close>)
           (intro emits_foreach emits_send_bytes)
      then have "emits cfd fs (andthen (send_header cfd 200 ''OK'' (get_mime_type ''*.html'') 0) (\<lambda>_.
          andthen (send_file epfd cfd ''dir_header.html'' False) (\<lambda>_.
          andthen (gets (scandir path)) (\<lambda>names. foreach (\<lambda>e. send_bytes cfd (dir_line e)) names))))
          (http_head 200 ''OK'' (get_mime_type ''*.html'') @ file_bytes fs ''dir_header.html''
            @ concat (map dir_line (sort es)))"
        using assms(3) by (intro emits_andthen emits_send_header emits_send_file) simp_all
      from fin [OF this, of "''dir_tail.html''"] assms(3) Some DirNode fs
      show ?thesis by (simp add: serve_path_def serve_dir_def response_def andthen_assoc)
    next
      case SpecialNode
      with Some assms(2) show ?thesis by simp
    qed
  qed
qed

subsection \<open>Properties\<close>

lemma discard_rest_all:
  "f \<in> set (opened w) \<Longrightarrow> ofile w f = None \<Longrightarrow> nonblk w f \<Longrightarrow> rdq w f = map RData cs \<Longrightarrow> [] \<notin> set cs \<Longrightarrow>
     \<exists>w'. discard_rest f w = (Ret (), w') \<and> opened w' = opened w \<and> wrq w' = wrq w \<and> fsys w' = fsys w
        \<and> trace w' = trace w"
proof (induction "script_size (rdq w f)" arbitrary: w cs rule: less_induct)
  case less
  show ?case
  proof (cases cs)
    case Nil
    with less.prems show ?thesis by (simp add: discard_rest.simps [of f w] sys_read_def)
  next
    case (Cons c cs')
    let ?cs = "if length c \<le> 1024 then cs' else drop 1024 c # cs'"
    let ?w = "w\<lparr>rdq := (rdq w)(f := map RData ?cs)\<rparr>"
    have c: "c \<noteq> []" using Cons less.prems(5) by auto
    then have step: "discard_rest f w = discard_rest f ?w"
      using Cons less.prems by (simp add: discard_rest.simps [of f w] sys_read_def)
    have "script_size (rdq ?w f) < script_size (rdq w f)"
      using less.prems(4) Cons c by (auto simp: neq_Nil_conv)
    then have "\<exists>w'. discard_rest f ?w = (Ret (), w') \<and> opened w' = opened ?w \<and> wrq w' = wrq ?w
        \<and> fsys w' = fsys ?w \<and> trace w' = trace ?w"
      by (rule less.hyps) (use less.prems Cons in \<open>auto split: if_splits\<close>)
    with step show ?thesis by simp
  qed
qed

text \<open>C20: A \<^verbatim>\<open>GET\<close> request is answered with the response the file system determines, for every path: the
  file with its type, the listing of a directory in alphabetical order, or the error page; then the
  connection is closed, exactly once, and is in no epoll set. The rest of the request is discarded, in whatever
  pieces it arrives.\<close>

theorem web_get_response:
  assumes "f \<in> set (opened w)" "ofile w f = None" "nonblk w f" "wrq w f = []" "-1 \<notin> set (opened w)"
    "rdq w f = RData req # map RData cs" "[] \<notin> set cs" "length req < 256" "req \<noteq> []"
    "scan_request req = [m, content, proto]" "strcaseeq m ''get''"
    "\<forall>p \<in> {requested content, ''error.html'', ''dir_header.html'', ''dir_tail.html''}.
       fsys w p \<noteq> Some SpecialNode"
  shows "\<exists>w' ts. process_http_request epfd f w = (Ret (), w') \<and> trace w' = trace w @ ts
     \<and> sent_on f ts = response (fsys w) (requested content) \<and> close_count f ts = 1
     \<and> f \<notin> set (opened w') \<and> epoll w' ep f = None"
proof -
  let ?w1 = "w\<lparr>rdq := (rdq w)(f := map RData cs)\<rparr>"
  have r: "sys_read f 256 w = (Ret (int (length req), req), ?w1)"
    using assms by (simp add: sys_read_def)
  obtain w2 where d: "discard_rest f ?w1 = (Ret (), w2)" "opened w2 = opened w" "wrq w2 = wrq w"
    "fsys w2 = fsys w" "trace w2 = trace w"
    using discard_rest_all [of f ?w1 cs] assms by auto
  have "ready f (fsys w) w2" using d assms by (simp add: ready_def)
  from serve_path_response [OF this, of "requested content" epfd ep] assms(12) obtain w3 ts where
    "serve_path epfd f (requested content) w2 = (Ret (), w3)" "trace w3 = trace w2 @ ts"
    "sent_on f ts = response (fsys w) (requested content)" "close_count f ts = 1"
    "f \<notin> set (opened w3)" "epoll w3 ep f = None" by auto
  with r d assms(8-11) show ?thesis
    by (intro exI [of _ w3] exI [of _ ts]) (simp add: process_http_request_def)
qed

text \<open>A request with any other method is not answered at all: nothing is sent and the connection
  stays open and registered, to be woken by nothing but more input.\<close>

theorem web_other_method_hangs:
  assumes "f \<in> set (opened w)" "ofile w f = None" "nonblk w f" "rdq w f = RData req # map RData cs"
    "[] \<notin> set cs" "length req < 256" "req \<noteq> []" "scan_request req = m # us" "\<not> strcaseeq m ''get''"
  shows "\<exists>w'. process_http_request epfd f w = (Ret (), w') \<and> trace w' = trace w \<and> opened w' = opened w"
proof -
  let ?w1 = "w\<lparr>rdq := (rdq w)(f := map RData cs)\<rparr>"
  have r: "sys_read f 256 w = (Ret (int (length req), req), ?w1)"
    using assms by (simp add: sys_read_def)
  obtain w2 where d: "discard_rest f ?w1 = (Ret (), w2)" "opened w2 = opened w" "trace w2 = trace w"
    using discard_rest_all [of f ?w1 cs] assms by auto
  with r assms(6-9) show ?thesis by (simp add: process_http_request_def Let_def)
qed

text \<open>A client that sends 256 bytes without a NUL at once makes the server read past its request buffer,
  before any parsing.\<close>

theorem web_long_request_over_read:
  assumes "f \<in> set (opened w)" "ofile w f = None" "rdq w f = RData bs # rs" "256 \<le> length bs"
    "NUL \<notin> set bs"
  shows "fst (process_http_request epfd f w) = Undef"
proof -
  have "NUL \<notin> set (take 256 bs)" using assms(5) by (auto dest: in_set_takeD)
  with assms show ?thesis by (simp add: process_http_request_def sys_read_def)
qed

subsection \<open>Instances\<close>

definition get_req :: "byte list" where
  "get_req = ''GET /a%62.txt HTTP/1.1'' @ CRLF"

definition web_world :: "byte list \<Rightarrow> world" where
  "web_world req = (conn_world 5 [RData req, RData ''Host: x''])
     \<lparr>nonblk := (\<lambda>_. True), fsys := [''ab.txt'' \<mapsto> RegFile ''hello'']\<rparr>"

lemma scan_get_req: "scan_request get_req = [''GET'', ''/a%62.txt'', ''HTTP/1.1'']"
  by code_simp

theorem web_get_response_witness:
  "\<exists>w' ts. process_http_request 9 5 (web_world get_req) = (Ret (), w') \<and> trace w' = ts
     \<and> sent_on 5 ts = http_head 200 ''OK'' (get_mime_type ''ab.txt'') @ ''hello''"
proof -
  have p: "requested ''/a%62.txt'' = ''ab.txt''" by code_simp
  have "strcaseeq ''GET'' ''get''" "length get_req < 256" "get_req \<noteq> []" by code_simp+
  then show ?thesis
    using web_get_response [of 5 "web_world get_req" get_req "[''Host: x'']" "''GET''" "''/a%62.txt''" "''HTTP/1.1''" 9 9]
      scan_get_req
    by (auto simp: web_world_def conn_world_def world0_def p response_def)
qed

theorem web_other_method_hangs_witness:
  "\<exists>w'. process_http_request 9 5 (web_world ''POST /x'') = (Ret (), w') \<and> trace w' = []"
proof -
  have "scan_request ''POST /x'' = ''POST'' # [''/x'']" "\<not> strcaseeq ''POST'' ''get''" by code_simp+
  then show ?thesis
    using web_other_method_hangs [of 5 "web_world ''POST /x''" "''POST /x''" "[''Host: x'']" "''POST''" "[''/x'']" 9]
    by (auto simp: web_world_def conn_world_def world0_def)
qed

theorem web_long_request_over_read_witness:
  "fst (process_http_request 9 5 (conn_world 5 [RData (replicate 300 (CHR ''x''))])) = Undef"
  by (rule web_long_request_over_read [of _ _ "replicate 300 (CHR ''x'')" "[]"]) simp_all

end
