(* ===== verification/Bufferevent.thy ===== *)
theory Bufferevent
  imports Wrap Pub EpollWeb
begin

section \<open>The bufferevent programs (11\_bufferevent and 02\_libevent\_web.c)\<close>

text \<open>
  Callbacks run by libevent, which is not part of the repository: its calls are arguments of the
  definitions, \<open>bread\<close> for \<^verbatim>\<open>bufferevent_read\<close>, \<open>bwrite\<close> for \<^verbatim>\<open>bufferevent_write\<close>, \<open>bfree\<close> for
  \<^verbatim>\<open>bufferevent_free\<close>. The locale \<open>bufferevent\<close> states what the documentation promises of them: a bufferevent has
  an input buffer \<open>inb\<close>, from whose front \<^verbatim>\<open>bufferevent_read\<close> takes up to as many bytes as asked for, and
  an output buffer \<open>outb\<close>, to whose end \<^verbatim>\<open>bufferevent_write\<close> appends; neither touches the
  kernel state the callbacks see, and system calls do not touch the buffers.
\<close>

definition kernel :: "'z world_scheme \<Rightarrow> world" where
  "kernel w = world.truncate w"

lemma kernel_sel [simp]:
  "fsys (kernel w) = fsys w" "opened (kernel w) = opened w" "ofile (kernel w) = ofile w"
  "rdq (kernel w) = rdq w" "trace (kernel w) = trace w" "pending_size f (kernel w) = pending_size f w"
  by (simp_all add: kernel_def world.truncate_def pending_size_def split: option.split)

locale bufferevent =
  fixes bread :: "nat \<Rightarrow> ('z world_scheme, byte list) io"
    and bwrite :: "byte list \<Rightarrow> ('z world_scheme, int) io"
    and inb :: "'z world_scheme \<Rightarrow> byte list"
    and outb :: "'z world_scheme \<Rightarrow> byte list"
  assumes bread_takes: "\<exists>w'. bread n w = (Ret (take n (inb w)), w') \<and> inb w' = drop n (inb w)
      \<and> outb w' = outb w \<and> kernel w' = kernel w"
    and bwrite_appends: "\<exists>w'. bwrite bs w = (Ret 0, w') \<and> outb w' = outb w @ bs \<and> inb w' = inb w
      \<and> kernel w' = kernel w"
    and buffers_apart: "world.more v = world.more w \<Longrightarrow> inb v = inb w \<and> outb v = outb w"

subsection \<open>11\_bufferevent: the echo server and its client\<close>

datatype bev_flag = BEV_READING | BEV_WRITING | BEV_EOF | BEV_ERROR | BEV_TIMEOUT | BEV_CONNECTED

definition MESSAGE :: "byte list" where
  "MESSAGE = ''Hello, World!'' @ [LF]"

text \<open>\<^verbatim>\<open>listener_cb\<close>: \<open>bnew\<close> is whether \<^verbatim>\<open>bufferevent_socket_new\<close> succeeds; \<^verbatim>\<open>sizeof(MESSAGE)\<close> counts the NUL. False breaks the loop.\<close>

definition echo_listener_cb :: "(byte list \<Rightarrow> ('s, int) io) \<Rightarrow> bool \<Rightarrow> ('s, bool) io" where
  "echo_listener_cb bwrite bnew =
     (if \<not> bnew then ret False else andthen (bwrite (MESSAGE @ [NUL])) (\<lambda>_. ret True))"

text \<open>
  The \<^verbatim>\<open>read_cb\<close> of \<^verbatim>\<open>01_bufferevent_server.c\<close>: \<^verbatim>\<open>buf\<close> starts with the character 0 and zero bytes; all 1500 bytes
  of it are written back. \<^verbatim>\<open>printf("%s")\<close> of a full buffer without a NUL reads past its end.
\<close>

definition initial_buf :: "byte list" where
  "initial_buf = CHR ''0'' # replicate 1499 NUL"

definition over :: "byte list \<Rightarrow> byte list \<Rightarrow> byte list" where
  "over bs buf = bs @ drop (length bs) buf"

definition echo_read_cb ::
  "(nat \<Rightarrow> ('s, byte list) io) \<Rightarrow> (byte list \<Rightarrow> ('s, int) io) \<Rightarrow> ('s, unit) io" where
  "echo_read_cb bread bwrite =
     andthen (bread 1500) (\<lambda>bs.
       let buf = over bs initial_buf in
       if NUL \<notin> set buf then undef
       else andthen (bwrite buf) (\<lambda>_. ret ()))"

text \<open>\<^verbatim>\<open>what\<close> is compared as a whole, but the connection is freed in any case.\<close>

definition echo_event_cb :: "('s, unit) io \<Rightarrow> bev_flag set \<Rightarrow> ('s, unit) io" where
  "echo_event_cb bfree what = bfree"

text \<open>\<^verbatim>\<open>write_cb\<close>: whether it reports success.\<close>

definition echo_write_cb :: "('s \<Rightarrow> byte list) \<Rightarrow> 's \<Rightarrow> bool" where
  "echo_write_cb outb s \<longleftrightarrow> length (outb s) = 0"

text \<open>The client: \<^verbatim>\<open>cmd_msg_cb\<close> sends all of its buffer, \<^verbatim>\<open>server_msg_cb\<close> terminates what it received.\<close>

definition cmd_msg_cb :: "(byte list \<Rightarrow> ('z world_scheme, int) io) \<Rightarrow> fd \<Rightarrow> ('z world_scheme, unit) io" where
  "cmd_msg_cb bwrite f =
     andthen (sys_read f 1500) (\<lambda>r.
       if fst r < 0 then exit_with (-1)
       else andthen (bwrite (over (snd r) initial_buf)) (\<lambda>_. ret ()))"

definition server_msg_cb :: "(nat \<Rightarrow> ('s, byte list) io) \<Rightarrow> ('s, byte list) io" where
  "server_msg_cb bread =
     andthen (bread 1500) (\<lambda>bs.
       if length bs = 1500 then undef
       else ret (cstr (over (bs @ [NUL]) initial_buf)))"

definition client_event_cb ::
  "('s, unit) io \<Rightarrow> ('s, unit) io \<Rightarrow> bev_flag set \<Rightarrow> ('s, unit) io" where
  "client_event_cb bfree evfree event =
     (if BEV_EOF \<notin> event \<and> BEV_ERROR \<notin> event \<and> BEV_CONNECTED \<in> event then ret ()
      else andthen bfree (\<lambda>_. andthen evfree (\<lambda>_. exit_with 0)))"

subsection \<open>02\_libevent\_web.c\<close>

definition copy_header ::
  "(byte list \<Rightarrow> ('s, int) io) \<Rightarrow> nat \<Rightarrow> byte list \<Rightarrow> byte list \<Rightarrow> int \<Rightarrow> ('s, int) io" where
  "copy_header bwrite op msg filetype filesize =
     andthen (bwrite (''HTTP/1.1 '' @ dec op @ '' '' @ msg @ CRLF @ ''Content-Type: '' @ filetype @ CRLF
       @ (if filesize \<ge> 0 then ''Content-Length:'' @ dec (nat filesize) @ CRLF else []) @ CRLF)) (\<lambda>_. ret 0)"

text \<open>
  The loop of \<^verbatim>\<open>copy_file\<close>, with fuel for the iterations (it is \<open>Blocked\<close> when that runs out). What the file can
  still deliver is enough fuel, since \<^verbatim>\<open>bufferevent_write\<close> does not touch it.
\<close>

fun copy_loop :: "(byte list \<Rightarrow> ('z world_scheme, int) io) \<Rightarrow> nat \<Rightarrow> fd \<Rightarrow> ('z world_scheme, unit) io" where
  "copy_loop bwrite 0 f = (\<lambda>w. (Blocked, w))"
| "copy_loop bwrite (Suc k) f =
     andthen (sys_read f 1024) (\<lambda>r.
       if fst r > 0 then andthen (bwrite (snd r)) (\<lambda>_. copy_loop bwrite k f) else ret ())"

definition copy_file ::
  "(byte list \<Rightarrow> ('z world_scheme, int) io) \<Rightarrow> byte list \<Rightarrow> ('z world_scheme, int) io" where
  "copy_file bwrite path =
     andthen (sys_open path) (\<lambda>f.
     andthen (gets (pending_size f)) (\<lambda>k.
     andthen (copy_loop bwrite (Suc k) f) (\<lambda>_.
     andthen (sys_close f) (\<lambda>_. ret 0))))"

text \<open>\<^verbatim>\<open>%32s\<close> and \<^verbatim>\<open>%8ld\<close> pad on the left.\<close>

definition pad_left :: "nat \<Rightarrow> byte list \<Rightarrow> byte list" where
  "pad_left n s = replicate (n - length s) (CHR '' '') @ s"

text \<open>
  The size of a directory entry is taken from \<^verbatim>\<open>stat(dent->d_name, &sb)\<close>, which looks the bare name up in the working directory;
  when that fails \<^verbatim>\<open>sb\<close> is not written, and \<open>junk\<close> is what it holds. \<open>dirsize\<close> is the size the
  kernel reports for something that is not a regular file.
\<close>

definition stat_size :: "(byte list \<Rightarrow> int) \<Rightarrow> (byte list \<Rightarrow> inode option) \<Rightarrow> byte list \<Rightarrow> int option" where
  "stat_size dirsize fs path =
     (case fs path of
        None \<Rightarrow> None
      | Some (RegFile c) \<Rightarrow> Some (int (length c))
      | Some _ \<Rightarrow> Some (dirsize path))"

definition bev_dir_line :: "int \<Rightarrow> dirent \<Rightarrow> byte list" where
  "bev_dir_line sz e =
     (case d_type e of
        DT_DIR \<Rightarrow> ''<li><a href='' @ [CHR 0x27] @ d_name e @ ''/'' @ [CHR 0x27] @ ''>'' @ pad_left 32 (d_name e)
                  @ ''</a>   '' @ pad_left 8 (show_int sz) @ ''</li>''
      | DT_REG \<Rightarrow> ''<li><a href='' @ [CHR 0x27] @ d_name e @ [CHR 0x27] @ ''>'' @ pad_left 32 (d_name e)
                  @ ''</a>     '' @ pad_left 8 (show_int sz) @ ''</li>''
      | DT_OTHER \<Rightarrow> [])"

definition send_entry ::
  "(byte list \<Rightarrow> ('z world_scheme, int) io) \<Rightarrow> (byte list \<Rightarrow> int) \<Rightarrow> int \<Rightarrow> dirent \<Rightarrow> ('z world_scheme, unit) io" where
  "send_entry bwrite dirsize junk e =
     andthen (gets (\<lambda>w. case stat_size dirsize (fsys w) (d_name e) of Some n \<Rightarrow> n | None \<Rightarrow> junk)) (\<lambda>sz.
       if d_type e = DT_OTHER then ret () else andthen (bwrite (bev_dir_line sz e)) (\<lambda>_. ret ()))"

definition send_dir ::
  "(byte list \<Rightarrow> ('z world_scheme, int) io) \<Rightarrow> (byte list \<Rightarrow> int) \<Rightarrow> int \<Rightarrow> byte list \<Rightarrow> ('z world_scheme, int) io" where
  "send_dir bwrite dirsize junk path =
     andthen (copy_file bwrite ''html/dir_header.html'') (\<lambda>_.
     andthen (gets (\<lambda>w. fsys w path)) (\<lambda>d.
       case d of
         Some (DirNode es) \<Rightarrow>
           andthen (foreach (send_entry bwrite dirsize junk) es) (\<lambda>_.
           andthen (copy_file bwrite ''html/dir_tail.html'') (\<lambda>_. ret 0))
       | _ \<Rightarrow> ret (-1)))"

text \<open>The path \<^verbatim>\<open>http_request\<close> serves: \<^verbatim>\<open>path\<close> is decoded in place, and what follows its first byte is used.\<close>

definition bev_path :: "byte list \<Rightarrow> byte list" where
  "bev_path path =
     (let p = strdecode path in
      if cstr p = ''/'' \<or> cstr p = ''/.'' then ''./'' else cstr (drop 1 p))"

definition http_request ::
  "(byte list \<Rightarrow> ('z world_scheme, int) io) \<Rightarrow> (byte list \<Rightarrow> int) \<Rightarrow> int \<Rightarrow> byte list \<Rightarrow> ('z world_scheme, int) io" where
  "http_request bwrite dirsize junk path =
     (let str = bev_path path in
      andthen (gets (\<lambda>w. fsys w str)) (\<lambda>s.
        case s of
          None \<Rightarrow>
            andthen (copy_header bwrite 404 ''NOT FOUND'' (get_mime_type ''error.html'') (-1)) (\<lambda>_.
            andthen (copy_file bwrite ''error.html'') (\<lambda>_. ret (-1)))
        | Some (DirNode es) \<Rightarrow>
            andthen (copy_header bwrite 200 ''OK'' (get_mime_type ''.html'') (dirsize str)) (\<lambda>_.
            andthen (send_dir bwrite dirsize junk str) (\<lambda>_. ret 0))
        | Some (RegFile c) \<Rightarrow>
            andthen (copy_header bwrite 200 ''OK'' (get_mime_type str) (int (length c))) (\<lambda>_.
            andthen (copy_file bwrite str) (\<lambda>_. ret 0))
        | Some SpecialNode \<Rightarrow> ret 0))"

text \<open>\<^verbatim>\<open>while ((ret = bufferevent_read(bev, bufline, sizeof(bufline))) > 0)\<close>, with fuel.\<close>

fun drain_input :: "(nat \<Rightarrow> ('z world_scheme, byte list) io) \<Rightarrow> nat \<Rightarrow> ('z world_scheme, unit) io" where
  "drain_input bread 0 = (\<lambda>w. (Blocked, w))"
| "drain_input bread (Suc k) =
     andthen (bread 256) (\<lambda>bs.
       if bs \<noteq> [] then andthen (sys_write 1 bs) (\<lambda>_. drain_input bread k) else ret ())"

text \<open>
  The \<^verbatim>\<open>read_cb\<close> of the web server: \<^verbatim>\<open>method\<close> and \<^verbatim>\<open>protocol\<close> have ten bytes, which \<^verbatim>\<open>sscanf\<close> does not know; a
  string it does not store stays uninitialised.
\<close>

definition web_read_cb ::
  "(nat \<Rightarrow> ('z world_scheme, byte list) io) \<Rightarrow> (byte list \<Rightarrow> ('z world_scheme, int) io) \<Rightarrow>
     (byte list \<Rightarrow> int) \<Rightarrow> int \<Rightarrow> nat \<Rightarrow> ('z world_scheme, unit) io" where
  "web_read_cb bread bwrite dirsize junk fuel =
     andthen (bread 256) (\<lambda>bs.
       if bs = [] then ret ()
       else if length bs = 256 \<and> NUL \<notin> set bs then undef
       else case scan_request bs of
         [] \<Rightarrow> undef
       | method # rest \<Rightarrow>
           if 10 \<le> length method \<or> (case rest of [path, protocol] \<Rightarrow> 10 \<le> length protocol | _ \<Rightarrow> False)
           then undef
           else if strcaseeq method ''get'' then
             andthen (sys_write 1 bs) (\<lambda>_.
             andthen (drain_input bread fuel) (\<lambda>_.
               case rest of
                 [] \<Rightarrow> undef
               | path # _ \<Rightarrow> andthen (http_request bwrite dirsize junk path) (\<lambda>_. ret ())))
           else ret ())"

definition web_event_cb :: "('s, unit) io \<Rightarrow> bev_flag set \<Rightarrow> ('s, unit) io" where
  "web_event_cb bfree what =
     (if BEV_EOF \<in> what then bfree else if BEV_ERROR \<in> what then bfree else ret ())"

subsection \<open>What the callbacks do over any bufferevent that keeps its contract\<close>

lemma kernel_eqD:
  assumes "kernel v = kernel w"
  shows "fsys v = fsys w" "opened v = opened w" "ofile v = ofile w" "trace v = trace w" "rdq v = rdq w"
  using assms by (metis kernel_sel(1), metis kernel_sel(2), metis kernel_sel(3), metis kernel_sel(5),
    metis kernel_sel(4))

context bufferevent
begin

text \<open>Reading an open file to its end and writing every piece appends the file's contents.\<close>

lemma copy_loop_appends:
  assumes "f \<in> set (opened w)" "ofile w f = Some c" "length c < k"
  shows "\<exists>w'. copy_loop bwrite k f w = (Ret (), w') \<and> outb w' = outb w @ c \<and> inb w' = inb w
     \<and> opened w' = opened w \<and> fsys w' = fsys w \<and> trace w' = trace w"
  using assms
proof (induction k arbitrary: w c)
  case (Suc k)
  let ?w = "w\<lparr>ofile := (ofile w)(f := Some (drop 1024 c))\<rparr>"
  have r: "sys_read f 1024 w = (Ret (int (length (take 1024 c)), take 1024 c), ?w)"
    using Suc.prems(1,2) by (simp add: sys_read_def)
  have b: "inb ?w = inb w" "outb ?w = outb w" using buffers_apart [of ?w w] by simp_all
  show ?case
  proof (cases "c = []")
    case True
    with r b show ?thesis by simp
  next
    case False
    from bwrite_appends [of "take 1024 c" ?w] obtain w1 where w1: "bwrite (take 1024 c) ?w = (Ret 0, w1)"
      "outb w1 = outb w @ take 1024 c" "inb w1 = inb w" "kernel w1 = kernel ?w" using b by auto
    have k1: "opened w1 = opened w" "ofile w1 f = Some (drop 1024 c)" "fsys w1 = fsys w" "trace w1 = trace w"
      using kernel_eqD [OF w1(4)] by simp_all
    have "length (drop 1024 c) < k" using Suc.prems(3) False by (cases c) auto
    with Suc.IH [of w1 "drop 1024 c"] Suc.prems(1) k1 obtain w2 where
      "copy_loop bwrite k f w1 = (Ret (), w2)" "outb w2 = outb w1 @ drop 1024 c" "inb w2 = inb w1"
      "opened w2 = opened w1" "fsys w2 = fsys w1" "trace w2 = trace w1" by auto
    with r w1 k1 False show ?thesis by simp
  qed
qed simp

lemma copy_file_appends:
  assumes "fsys w path = Some (RegFile c)"
  shows "\<exists>w'. copy_file bwrite path w = (Ret 0, w') \<and> outb w' = outb w @ c \<and> inb w' = inb w
     \<and> opened w' = opened w \<and> fsys w' = fsys w"
proof -
  let ?f = "fresh_fd (opened w)"
  let ?w = "w\<lparr>opened := ?f # opened w, nonblk := (nonblk w)(?f := False),
      rdq := (rdq w)(?f := rdq w ?f), ofile := (ofile w)(?f := Some c)\<rparr>"
  have o: "sys_open path w = (Ret ?f, ?w)" using assms by (simp add: sys_open_def Let_def)
  have b: "inb ?w = inb w" "outb ?w = outb w" using buffers_apart [of ?w w] by simp_all
  have k: "pending_size ?f ?w = length c" by (simp add: pending_size_def)
  obtain w1 where w1: "copy_loop bwrite (Suc (length c)) ?f ?w = (Ret (), w1)" "outb w1 = outb w @ c"
    "inb w1 = inb w" "opened w1 = ?f # opened w" "fsys w1 = fsys w"
    using copy_loop_appends [of ?f ?w c "Suc (length c)"] b by auto
  obtain w2 where w2: "sys_close ?f w1 = (Ret 0, w2)" "opened w2 = opened w" "fsys w2 = fsys w"
    "world.more w2 = world.more w1"
    using w1(4,5) fresh_fd_notin [of "opened w"] by (simp add: sys_close_def)
  have "copy_file bwrite path w = (Ret 0, w2)"
    unfolding copy_file_def using o k w1(1) w2(1) by simp
  with w1(2,3) w2 buffers_apart [OF w2(4)] show ?thesis by simp
qed

lemma copy_header_appends:
  "\<exists>w'. copy_header bwrite op msg ft n w = (Ret 0, w') \<and> kernel w' = kernel w
     \<and> outb w' = outb w @ ''HTTP/1.1 '' @ dec op @ '' '' @ msg @ CRLF @ ''Content-Type: '' @ ft @ CRLF
         @ (if n \<ge> 0 then ''Content-Length:'' @ dec (nat n) @ CRLF else []) @ CRLF"
proof -
  let ?h = "''HTTP/1.1 '' @ dec op @ '' '' @ msg @ CRLF @ ''Content-Type: '' @ ft @ CRLF
       @ (if n \<ge> 0 then ''Content-Length:'' @ dec (nat n) @ CRLF else []) @ CRLF"
  obtain w' where w': "bwrite ?h w = (Ret 0, w')" "outb w' = outb w @ ?h" "kernel w' = kernel w"
    using bwrite_appends [of ?h w] by blast
  have "copy_header bwrite op msg ft n w = (Ret 0, w')" unfolding copy_header_def using w'(1) by simp
  with w' show ?thesis by blast
qed

lemma http_request_file:
  assumes "fsys w (bev_path path) = Some (RegFile c)"
  shows "\<exists>w'. http_request bwrite dirsize junk path w = (Ret 0, w') \<and> opened w' = opened w
     \<and> outb w' = outb w @ ''HTTP/1.1 200 OK'' @ CRLF @ ''Content-Type: '' @ get_mime_type (bev_path path) @ CRLF
         @ ''Content-Length:'' @ dec (length c) @ CRLF @ CRLF @ c"
proof -
  let ?p = "bev_path path"
  obtain w1 where w1: "copy_header bwrite 200 ''OK'' (get_mime_type ?p) (int (length c)) w = (Ret 0, w1)"
    "kernel w1 = kernel w"
    "outb w1 = outb w @ ''HTTP/1.1 '' @ dec 200 @ '' '' @ ''OK'' @ CRLF @ ''Content-Type: '' @ get_mime_type ?p @ CRLF
       @ (if int (length c) \<ge> 0 then ''Content-Length:'' @ dec (nat (int (length c))) @ CRLF else []) @ CRLF"
    using copy_header_appends by blast
  have d: "dec 200 = ''200''" by code_simp
  have "fsys w1 ?p = Some (RegFile c)" using assms kernel_eqD(1) [OF w1(2)] by simp
  from copy_file_appends [OF this] obtain w2 where w2: "copy_file bwrite ?p w1 = (Ret 0, w2)"
    "outb w2 = outb w1 @ c" "opened w2 = opened w1" by blast
  have "http_request bwrite dirsize junk path w = (Ret 0, w2)"
    unfolding http_request_def Let_def using assms w1(1) w2(1) by simp
  with w1(3) w2(2,3) kernel_eqD(2) [OF w1(2)] d show ?thesis by simp
qed

lemma echo_pads:
  assumes "inb w = bs" "length bs < 1500"
  shows "\<exists>w'. echo_read_cb bread bwrite w = (Ret (), w') \<and> inb w' = []
     \<and> outb w' = outb w @ over bs initial_buf"
proof -
  obtain w1 where w1: "bread 1500 w = (Ret bs, w1)" "inb w1 = []" "outb w1 = outb w"
    using bread_takes [of 1500 w] assms by auto
  obtain w2 where w2: "bwrite (over bs initial_buf) w1 = (Ret 0, w2)" "inb w2 = inb w1"
    "outb w2 = outb w1 @ over bs initial_buf" using bwrite_appends by blast
  have "drop (length bs) initial_buf = replicate (1500 - length bs) NUL" if "bs \<noteq> []"
    using that by (cases bs) (simp_all add: initial_buf_def)
  then have "NUL \<in> set (over bs initial_buf)"
    using assms(2) by (cases "bs = []") (simp_all add: over_def initial_buf_def)
  with w1 w2 show ?thesis by (simp add: echo_read_cb_def Let_def)
qed

end

subsection \<open>A bufferevent\<close>

text \<open>The contract is met by two byte buffers beside the kernel.\<close>

record bev_world = world +
  inbuf :: "byte list"
  outbuf :: "byte list"

definition buf_read :: "nat \<Rightarrow> ('z bev_world_scheme, byte list) io" where
  "buf_read n w = (Ret (take n (inbuf w)), w\<lparr>inbuf := drop n (inbuf w)\<rparr>)"

definition buf_write :: "byte list \<Rightarrow> ('z bev_world_scheme, int) io" where
  "buf_write bs w = (Ret 0, w\<lparr>outbuf := outbuf w @ bs\<rparr>)"

interpretation two_buffers: bufferevent buf_read buf_write inbuf outbuf
proof unfold_locales
  fix v w :: "'z bev_world_scheme"
  assume "world.more v = world.more w"
  then show "inbuf v = inbuf w \<and> outbuf v = outbuf w" by (cases v; cases w) simp
qed (simp_all add: buf_read_def buf_write_def kernel_def world.truncate_def)

subsection \<open>Properties\<close>

text \<open>The libevent web server answers a request for a regular file with a header that announces the file's
  type and length, followed by exactly that many bytes, the file's, and leaves no descriptor open; this for
  every bufferevent implementation that keeps the documented contract.\<close>

theorem bev_serves_file:
  assumes "bufferevent bread bwrite inb outb" "fsys w (bev_path path) = Some (RegFile c)"
  shows "\<exists>w'. http_request bwrite dirsize junk path w = (Ret 0, w') \<and> opened w' = opened w
     \<and> outb w' = outb w @ ''HTTP/1.1 200 OK'' @ CRLF @ ''Content-Type: '' @ get_mime_type (bev_path path) @ CRLF
         @ ''Content-Length:'' @ dec (length c) @ CRLF @ CRLF @ c"
  using assms by (rule bufferevent.http_request_file)

text \<open>A request whose method is ten bytes or longer overruns the \<^verbatim>\<open>method\<close> array of the libevent web server.\<close>

theorem bev_long_method_overruns:
  assumes "bread 256 w = (Ret bs, w1)" "bs \<noteq> []" "scan_request bs = m # us" "10 \<le> length m"
  shows "fst (web_read_cb bread bwrite dirsize junk fuel w) = Undef"
  using assms by (simp add: web_read_cb_def)

text \<open>The bufferevent echo server does not echo what it received but its whole buffer: 1500 bytes, the ones
  received first, for any message shorter than that.\<close>

theorem bev_echo_pads_to_buffer:
  assumes "bufferevent bread bwrite inb outb" "inb w = bs" "length bs < 1500"
  shows "\<exists>w'. echo_read_cb bread bwrite w = (Ret (), w') \<and> inb w' = []
     \<and> outb w' = outb w @ over bs initial_buf"
  using assms by (rule bufferevent.echo_pads)

subsection \<open>Instances\<close>

definition bev0 :: "byte list \<Rightarrow> bev_world" where
  "bev0 bs = world.extend (world0\<lparr>fsys := [''a.txt'' \<mapsto> RegFile ''hello'']\<rparr>) \<lparr>inbuf = bs, outbuf = []\<rparr>"

lemma bev0_sel: "inbuf (bev0 bs) = bs" "outbuf (bev0 bs) = []" "fsys (bev0 bs) = [''a.txt'' \<mapsto> RegFile ''hello'']"
  by (simp_all add: bev0_def world.defs)

theorem bev_serves_file_witness:
  "\<exists>w'. http_request buf_write (\<lambda>_. 4096) 0 ''/a.txt'' (bev0 []) = (Ret 0, w')
     \<and> outbuf w' = ''HTTP/1.1 200 OK'' @ CRLF @ ''Content-Type: '' @ get_mime_type ''a.txt'' @ CRLF
         @ ''Content-Length:'' @ dec 5 @ CRLF @ CRLF @ ''hello''"
proof -
  have p: "bev_path ''/a.txt'' = ''a.txt''" by code_simp
  show ?thesis
    using bev_serves_file [OF two_buffers.bufferevent_axioms, of "bev0 []" "''/a.txt''" "''hello''" "\<lambda>_. 4096" 0]
    by (auto simp: bev0_sel p eval_nat_numeral)
qed

theorem bev_long_method_overruns_witness:
  "fst (web_read_cb buf_read buf_write (\<lambda>_. 0) 0 5 (bev0 ''AAAAAAAAAAAA /x'')) = Undef"
proof -
  have "scan_request ''AAAAAAAAAAAA /x'' = ''AAAAAAAAAAAA'' # [''/x'']" by code_simp
  then show ?thesis
    by (intro bev_long_method_overruns [of _ _ "''AAAAAAAAAAAA /x''" _ "''AAAAAAAAAAAA''" "[''/x'']"])
       (simp_all add: buf_read_def bev0_sel)
qed

theorem bev_echo_pads_to_buffer_witness:
  "\<exists>w'. echo_read_cb buf_read buf_write (bev0 ''hi'') = (Ret (), w') \<and> outbuf w' = over ''hi'' initial_buf"
  using bev_echo_pads_to_buffer [OF two_buffers.bufferevent_axioms, of "bev0 ''hi''" "''hi''"]
  by (auto simp: bev0_sel)

end
