(* ===== verification/BevMain.thy ===== *)
theory BevMain
  imports Bufferevent
begin

section \<open>The main functions of the bufferevent programs\<close>

text \<open>
  \<^verbatim>\<open>main\<close> of \<^verbatim>\<open>11_bufferevent/01_bufferevent_server.c\<close>, \<^verbatim>\<open>02_bufferevent_clien.c\<close> and \<^verbatim>\<open>13_libevent_web/02_libevent_web.c\<close>, with the callbacks that
  \<open>Bufferevent\<close> leaves out. The library is a record of its functions; a pointer is null, the handle of an object, or
  indeterminate (a variable without a value). The locale \<open>libevent\<close> states what is relied on: a constructor returns
  a new object or null; a destructor takes an object that exists, for anything else its behaviour is undefined;
  the calls that set an object up need it to exist; the event loop does not free what it did not make.
\<close>

datatype ptr = Null | Ptr nat | Indet

record 's evlib =
  l_base_new :: "('s, ptr) io"
  l_listener_new :: "ptr \<Rightarrow> sockaddr_in \<Rightarrow> ('s, ptr) io"
  l_signal_new :: "ptr \<Rightarrow> int \<Rightarrow> ('s, ptr) io"
  l_event_new :: "ptr \<Rightarrow> fd \<Rightarrow> ptr \<Rightarrow> ('s, ptr) io"
  l_event_add :: "ptr \<Rightarrow> ('s, int) io"
  l_bev_new :: "ptr \<Rightarrow> fd \<Rightarrow> ('s, ptr) io"
  l_bev_connect :: "ptr \<Rightarrow> sockaddr_in \<Rightarrow> ('s, int) io"
  l_bev_setcb :: "ptr \<Rightarrow> ptr \<Rightarrow> ('s, unit) io"
  l_bev_enable :: "ptr \<Rightarrow> ('s, int) io"
  l_dispatch :: "ptr \<Rightarrow> ('s, int) io"
  l_loopexit :: "ptr \<Rightarrow> nat \<Rightarrow> ('s, int) io"
  l_event_free :: "ptr \<Rightarrow> ('s, unit) io"
  l_listener_free :: "ptr \<Rightarrow> ('s, unit) io"
  l_bev_free :: "ptr \<Rightarrow> ('s, unit) io"
  l_base_free :: "ptr \<Rightarrow> ('s, unit) io"

definition any_addr :: "16 word \<Rightarrow> sockaddr_in" where
  "any_addr port = \<lparr>sin_family = AF_INET, sin_port = htons port, sin_addr = INADDR_ANY\<rparr>"

subsection \<open>01\_bufferevent\_server.c\<close>

definition bev_server_main :: "'s evlib \<Rightarrow> ('s, int) io" where
  "bev_server_main L =
     andthen (l_base_new L) (\<lambda>base.
     andthen (l_listener_new L base (any_addr 8888)) (\<lambda>listener.
       if listener = Null then ret 1
       else andthen (l_signal_new L base 2) (\<lambda>sig.
            andthen (if sig = Null then ret (-1) else l_event_add L sig) (\<lambda>added.
              if sig = Null \<or> added < 0 then ret 1
              else andthen (l_dispatch L base) (\<lambda>_.
                   andthen (l_event_free L sig) (\<lambda>_.
                   andthen (l_listener_free L listener) (\<lambda>_.
                   andthen (l_base_free L base) (\<lambda>_. ret 0))))))))"

text \<open>\<^verbatim>\<open>signal_cb\<close>: the loop ends two seconds later.\<close>

definition bev_signal_cb :: "'s evlib \<Rightarrow> ptr \<Rightarrow> ('s, unit) io" where
  "bev_signal_cb L base = andthen (l_loopexit L base 2) (\<lambda>_. ret ())"

subsection \<open>02\_bufferevent\_clien.c\<close>

text \<open>Where every \<^verbatim>\<open>break\<close> leads, with the values the variables have there.\<close>

definition bev_client_end :: "'s evlib \<Rightarrow> ptr \<Rightarrow> ptr \<Rightarrow> ptr \<Rightarrow> ('s, int) io" where
  "bev_client_end L base ev_cmd bev =
     andthen (l_event_free L ev_cmd) (\<lambda>_.
     andthen (l_bev_free L bev) (\<lambda>_.
     andthen (l_base_free L base) (\<lambda>_. ret 0)))"

text \<open>\<^verbatim>\<open>bufferevent_setcb\<close> is given \<^verbatim>\<open>ev_cmd\<close> before it has a value.\<close>

definition bev_client_main :: "'s evlib \<Rightarrow> ('s, int) io" where
  "bev_client_main L =
     andthen (l_base_new L) (\<lambda>base.
       if base = Null then bev_client_end L base Indet Indet
       else
         let sin = \<lparr>sin_family = AF_INET, sin_port = htons 8888, sin_addr = inet_addr ''127.0.0.1''\<rparr> in
         andthen (l_bev_new L base (-1)) (\<lambda>bev.
         andthen (if bev = Null then ret (-1) else l_bev_connect L bev sin) (\<lambda>r.
           if bev = Null \<or> r < 0 then bev_client_end L base Indet bev
           else
             andthen (l_bev_setcb L bev Indet) (\<lambda>_.
             andthen (l_bev_enable L bev) (\<lambda>_.
             andthen (l_event_new L base 0 bev) (\<lambda>ev_cmd.
               if ev_cmd = Null then bev_client_end L base ev_cmd bev
               else
                 andthen (l_event_add L ev_cmd) (\<lambda>_.
                 andthen (l_dispatch L base) (\<lambda>_.
                 bev_client_end L base ev_cmd bev))))))))"

text \<open>The callback for events of the connection, with the argument \<open>arg\<close> that \<^verbatim>\<open>bufferevent_setcb\<close> was given.\<close>

definition bev_client_event_cb :: "'s evlib \<Rightarrow> ptr \<Rightarrow> ptr \<Rightarrow> bev_flag set \<Rightarrow> ('s, unit) io" where
  "bev_client_event_cb L bev arg event = client_event_cb (l_bev_free L bev) (l_event_free L arg) event"

subsection \<open>02\_libevent\_web.c\<close>

text \<open>\<^verbatim>\<open>strcpy(workdir, getenv("PWD"))\<close> into 256 bytes; the result of \<^verbatim>\<open>chdir\<close> is not looked at.\<close>

definition bev_web_main :: "'s evlib \<Rightarrow> byte list option \<Rightarrow> (byte list \<Rightarrow> ('s, int) io) \<Rightarrow> ('s, int) io" where
  "bev_web_main L pwd chdir =
     (case pwd of
        None \<Rightarrow> undef
      | Some p \<Rightarrow>
          if 256 \<le> length p then undef
          else andthen (chdir p) (\<lambda>_.
               andthen (l_base_new L) (\<lambda>base.
               andthen (l_listener_new L base (any_addr 8888)) (\<lambda>listener.
               andthen (l_dispatch L base) (\<lambda>_.
               andthen (l_listener_free L listener) (\<lambda>_.
               andthen (l_base_free L base) (\<lambda>_. ret 0)))))))"

definition bev_web_listener_cb :: "'s evlib \<Rightarrow> ptr \<Rightarrow> fd \<Rightarrow> ('s, unit) io" where
  "bev_web_listener_cb L base fd =
     andthen (l_bev_new L base fd) (\<lambda>bev.
     andthen (l_bev_setcb L bev base) (\<lambda>_.
     andthen (l_bev_enable L bev) (\<lambda>_. ret ())))"

subsection \<open>What is relied on\<close>

definition makes :: "('s \<Rightarrow> nat set) \<Rightarrow> ('s, ptr) io \<Rightarrow> bool" where
  "makes live m \<longleftrightarrow> (\<forall>s p s'. m s = (Ret p, s') \<longrightarrow>
     (case p of Null \<Rightarrow> live s' = live s | Ptr x \<Rightarrow> x \<notin> live s \<and> live s' = insert x (live s) | Indet \<Rightarrow> False))"

definition destroys :: "('s \<Rightarrow> nat set) \<Rightarrow> (ptr \<Rightarrow> ('s, unit) io) \<Rightarrow> bool" where
  "destroys live f \<longleftrightarrow>
     (\<forall>x s. x \<in> live s \<longrightarrow> (\<exists>s'. f (Ptr x) s = (Ret (), s') \<and> live s' = live s - {x}))
     \<and> (\<forall>p s. (\<nexists>x. p = Ptr x \<and> x \<in> live s) \<longrightarrow> fst (f p s) = Undef)"

definition uses :: "('s \<Rightarrow> nat set) \<Rightarrow> ptr \<Rightarrow> ('s, 'a) io \<Rightarrow> bool" where
  "uses live p m \<longleftrightarrow> (\<forall>s r s'. m s = (Ret r, s') \<longrightarrow> (\<exists>x. p = Ptr x \<and> x \<in> live s) \<and> live s' = live s)"

lemma destroy_bad: "destroys live f \<Longrightarrow> (\<nexists>x. p = Ptr x) \<Longrightarrow> fst (f p s) = Undef"
  by (auto simp: destroys_def)

lemma destroy_good:
  assumes "destroys live f" "f p s = (Ret u, s')"
  obtains x where "p = Ptr x" "x \<in> live s" "live s' = live s - {x}"
proof (cases "\<exists>x. p = Ptr x \<and> x \<in> live s")
  case True
  then obtain x where x: "p = Ptr x" "x \<in> live s" by blast
  with assms(1) have "\<exists>s2. f (Ptr x) s = (Ret (), s2) \<and> live s2 = live s - {x}" unfolding destroys_def by blast
  with x assms(2) that show ?thesis by auto
next
  case False
  with assms(1) have "fst (f p s) = Undef" unfolding destroys_def by blast
  with assms(2) show ?thesis by simp
qed

lemma makes_Ptr: "makes live m \<Longrightarrow> m s = (Ret (Ptr x), s') \<Longrightarrow> x \<notin> live s \<and> live s' = insert x (live s)"
  unfolding makes_def by fastforce

locale libevent =
  fixes L :: "'s evlib" and live :: "'s \<Rightarrow> nat set"
  assumes news: "makes live (l_base_new L)" "makes live (l_listener_new L b a)" "makes live (l_signal_new L b n)"
      "makes live (l_event_new L b f p)" "makes live (l_bev_new L b f)"
    and frees: "destroys live (l_event_free L)" "destroys live (l_listener_free L)" "destroys live (l_bev_free L)"
      "destroys live (l_base_free L)"
    and set_ups: "uses live e (l_event_add L e)" "uses live v (l_bev_connect L v a)" "uses live v (l_bev_setcb L v p)"
      "uses live v (l_bev_enable L v)"
    and loop: "l_dispatch L b s = (Ret r, s') \<Longrightarrow> live s \<subseteq> live s'"
begin

text \<open>The end of the client without an event object is undefined.\<close>

lemma client_end_undefined: "(\<nexists>x. ev = Ptr x) \<Longrightarrow> fst (bev_client_end L base ev bev s) = Undef"
  unfolding bev_client_end_def by (intro andthen_Undef destroy_bad [OF frees(1)])

text \<open>Whatever fails while the client sets itself up, its cleaning up is undefined.\<close>

lemma client_setup_failure:
  assumes "l_base_new L s = (Ret base, s1)"
    "base = Null \<or> l_bev_new L base (-1) s1 = (Ret Null, s2)
     \<or> (\<exists>bev s3 r. l_bev_new L base (-1) s1 = (Ret bev, s2) \<and> bev \<noteq> Null
          \<and> l_bev_connect L bev \<lparr>sin_family = AF_INET, sin_port = htons 8888, sin_addr = inet_addr ''127.0.0.1''\<rparr> s2 = (Ret r, s3) \<and> r < 0)"
  shows "fst (bev_client_main L s) = Undef"
  using assms
  by (auto simp: bev_client_main_def client_end_undefined)

text \<open>The argument registered with the callbacks is never the event.\<close>

lemma client_eof_undefined:
  assumes "BEV_EOF \<in> event \<or> BEV_ERROR \<in> event"
  shows "fst (bev_client_event_cb L (Ptr x) Indet event s) = Undef"
proof (cases "x \<in> live s")
  case True
  then obtain s' where "l_bev_free L (Ptr x) s = (Ret (), s')" using frees(3) unfolding destroys_def by blast
  then show ?thesis using assms
    by (auto simp: bev_client_event_cb_def client_event_cb_def intro!: andthen_Undef destroy_bad [OF frees(1)])
next
  case False
  then have "fst (l_bev_free L (Ptr x) s) = Undef" using frees(3) by (auto simp: destroys_def)
  then show ?thesis using assms by (auto simp: bev_client_event_cb_def client_event_cb_def intro!: andthen_Undef)
qed

lemma web_listener_failure:
  assumes "length p < 256" "chdir p s = (Ret c, s0)" "l_base_new L s0 = (Ret base, s1)"
    "l_listener_new L base (any_addr 8888) s1 = (Ret Null, s2)" "l_dispatch L base s2 = (Ret d, s3)"
  shows "fst (bev_web_main L (Some p) chdir s) = Undef"
proof -
  have "bev_web_main L (Some p) chdir s =
      andthen (l_listener_free L Null) (\<lambda>_. andthen (l_base_free L base) (\<lambda>_. ret 0)) s3"
    using assms by (simp add: bev_web_main_def)
  then show ?thesis by (auto intro: andthen_Undef destroy_bad [OF frees(2)])
qed

text \<open>A server that returns 0 has freed what it made.\<close>

lemma server_frees:
  assumes "bev_server_main L s = (Ret 0, s')"
  shows "\<exists>b l e s1. distinct [b, l, e] \<and> {b, l, e} \<inter> live s = {} \<and> insert b (insert l (insert e (live s))) \<subseteq> live s1
    \<and> live s' = live s1 - {b, l, e}"
proof -
  obtain base s1 lis s2 sig s3 n s4 d s5 s6 s7 where run:
    "l_base_new L s = (Ret base, s1)" "l_listener_new L base (any_addr 8888) s1 = (Ret lis, s2)"
    "l_signal_new L base 2 s2 = (Ret sig, s3)" "l_event_add L sig s3 = (Ret n, s4)" "l_dispatch L base s4 = (Ret d, s5)"
    "l_event_free L sig s5 = (Ret (), s6)" "l_listener_free L lis s6 = (Ret (), s7)" "l_base_free L base s7 = (Ret (), s')"
    using assms by (auto simp: bev_server_main_def andthen_Ret ret_def split: if_splits)
  obtain e where e: "sig = Ptr e" "e \<in> live s5" "live s6 = live s5 - {e}" by (rule destroy_good [OF frees(1) run(6)])
  obtain l where l: "lis = Ptr l" "l \<in> live s6" "live s7 = live s6 - {l}" by (rule destroy_good [OF frees(2) run(7)])
  obtain b where b: "base = Ptr b" "b \<in> live s7" "live s' = live s7 - {b}" by (rule destroy_good [OF frees(4) run(8)])
  have "b \<notin> live s" "live s1 = insert b (live s)" using makes_Ptr [OF news(1) run(1) [unfolded b(1)]] by auto
  moreover have "l \<notin> live s1" "live s2 = insert l (live s1)" using makes_Ptr [OF news(2) run(2) [unfolded l(1)]] by auto
  moreover have "e \<notin> live s2" "live s3 = insert e (live s2)" using makes_Ptr [OF news(3) run(3) [unfolded e(1)]] by auto
  moreover have "live s4 = live s3" using set_ups(1) run(4) by (auto simp: uses_def)
  moreover have "live s4 \<subseteq> live s5" by (rule loop [OF run(5)])
  ultimately have new: "b \<notin> live s" "l \<notin> insert b (live s)" "e \<notin> insert l (insert b (live s))"
    and old: "insert e (insert l (insert b (live s))) \<subseteq> live s5" by simp_all
  have "distinct [b, l, e]" "{b, l, e} \<inter> live s = {}" using new by auto
  moreover have "insert b (insert l (insert e (live s))) \<subseteq> live s5" using old by blast
  moreover have "live s' = live s5 - {b, l, e}" using b(3) l(3) e(3) by blast
  ultimately show ?thesis by blast
qed

end

subsection \<open>Properties\<close>

text \<open>The server of \<^verbatim>\<open>01_bufferevent_server.c\<close> that returns 0 has freed the base, the listener and the signal event it made,
  with any library that behaves as documented.\<close>

theorem bev_server_frees_all:
  assumes "libevent L live" "bev_server_main L s = (Ret 0, s')"
  shows "\<exists>b l e s1. distinct [b, l, e] \<and> {b, l, e} \<inter> live s = {} \<and> insert b (insert l (insert e (live s))) \<subseteq> live s1
    \<and> live s' = live s1 - {b, l, e}"
  by (rule libevent.server_frees [OF assms])


text \<open>The web server does not look at the result of \<^verbatim>\<open>evconnlistener_new_bind\<close>: when its port is taken it frees a null pointer.\<close>

theorem bev_web_port_taken:
  assumes "libevent L live" "length p < 256" "chdir p s = (Ret c, s0)" "l_base_new L s0 = (Ret base, s1)"
    "l_listener_new L base (any_addr 8888) s1 = (Ret Null, s2)" "l_dispatch L base s2 = (Ret d, s3)"
  shows "fst (bev_web_main L (Some p) chdir s) = Undef"
  using libevent.web_listener_failure [OF assms(1,2), of chdir s c s0 base s1 s2 d s3] assms(3-6) by blast

subsection \<open>A library\<close>

text \<open>The contract is met by handles that are counted up: the state is the list of those in use. \<open>free\<close>: the port is free;
  \<open>up\<close>: the server to connect to is there.\<close>

definition new0 :: "bool \<Rightarrow> (nat list, ptr) io" where
  "new0 ok s = (if ok then (Ret (Ptr (Suc (foldr max s 0))), Suc (foldr max s 0) # s) else (Ret Null, s))"

definition use0 :: "ptr \<Rightarrow> 'a \<Rightarrow> (nat list, 'a) io" where
  "use0 p r s = (case p of Ptr x \<Rightarrow> (if x \<in> set s then Ret r else Undef, s) | _ \<Rightarrow> (Undef, s))"

definition free0 :: "ptr \<Rightarrow> (nat list, unit) io" where
  "free0 p s = (case p of Ptr x \<Rightarrow> if x \<in> set s then (Ret (), removeAll x s) else (Undef, s) | _ \<Rightarrow> (Undef, s))"

definition evlib0 :: "bool \<Rightarrow> bool \<Rightarrow> nat list evlib" where
  "evlib0 free up =
     \<lparr>l_base_new = new0 True, l_listener_new = (\<lambda>_ _. new0 free), l_signal_new = (\<lambda>_ _. new0 True),
      l_event_new = (\<lambda>_ _ _. new0 True), l_event_add = (\<lambda>e. use0 e 0), l_bev_new = (\<lambda>_ _. new0 True),
      l_bev_connect = (\<lambda>v _. use0 v (if up then 0 else -1)), l_bev_setcb = (\<lambda>v _. use0 v ()), l_bev_enable = (\<lambda>v. use0 v 0),
      l_dispatch = (\<lambda>_. ret 0), l_loopexit = (\<lambda>_ _. ret 0), l_event_free = free0, l_listener_free = free0,
      l_bev_free = free0, l_base_free = free0\<rparr>"

lemma foldr_max: "x \<in> set s \<Longrightarrow> x \<le> foldr max s (0 :: nat)"
  by (induction s) auto

lemma new0_makes: "makes set (new0 ok)"
  by (auto simp: makes_def new0_def dest: foldr_max split: if_splits)

lemma free0_destroys: "destroys set free0"
  by (auto simp: destroys_def free0_def split: ptr.split)

lemma use0_uses: "uses set p (use0 p r)"
  by (auto simp: uses_def use0_def split: ptr.splits if_splits)

interpretation handles: libevent "evlib0 free up" set for free up
  by unfold_locales (auto simp: evlib0_def new0_makes free0_destroys use0_uses ret_def)

subsection \<open>Instances\<close>

theorem bev_server_frees_all_witness:
  "\<exists>s'. bev_server_main (evlib0 True True) [] = (Ret 0, s') \<and> s' = []"
proof -
  have run: "bev_server_main (evlib0 True True) [] = (Ret 0, [])"
    by (simp add: bev_server_main_def evlib0_def new0_def use0_def free0_def ret_def)
  with bev_server_frees_all [OF handles.libevent_axioms run] show ?thesis by blast
qed


theorem bev_web_port_taken_witness: "fst (bev_web_main (evlib0 False True) (Some ''/srv'') (\<lambda>_. ret 0) []) = Undef"
  by (rule bev_web_port_taken [OF handles.libevent_axioms, where s = "[]" and c = 0 and ?s0.0 = "[]" and base = "Ptr 1"
        and ?s1.0 = "[1]" and ?s2.0 = "[1]" and d = 0 and ?s3.0 = "[1]"])
     (simp_all add: evlib0_def new0_def ret_def)

end
