(* ===== verification/LibeventTcp.thy ===== *)
theory LibeventTcp
  imports Wrap SlotTable
begin

section \<open>The libevent echo servers (10\_libevent)\<close>

text \<open>
  \<^verbatim>\<open>concurrence_linux/10_libevent/2_tcp_server.c\<close> and \<^verbatim>\<open>3_tcp_sever_del.c\<close>. The second keeps a table \<^verbatim>\<open>xevent\<close> from
  descriptors to the events it made for them, to delete an event when its connection ends. libevent itself is not
  part of the repository: \<open>enew\<close>, \<open>eadd\<close>, \<open>edel\<close>, \<open>efree\<close> and \<open>dispatch\<close> stand for \<^verbatim>\<open>event_new\<close>, \<^verbatim>\<open>event_add\<close>,
  \<^verbatim>\<open>event_del\<close>, \<^verbatim>\<open>free\<close> of an event and \<^verbatim>\<open>event_base_dispatch\<close>; the locale \<open>event_lib\<close> states what the code
  relies on. An event is a number, a null pointer is \<open>None\<close>. An index outside of the table is undefined behaviour.
\<close>

definition XEVENT_SIZE :: nat where "XEVENT_SIZE = 1024"

datatype ev_callback = S_cb | C_cb

record xevs =
  xe_fd :: fd
  xe_ev :: "nat option"

record lworld = world +
  xevent :: "xevs list"

definition put_xevent :: "nat \<Rightarrow> xevs \<Rightarrow> ('z lworld_scheme, unit) io" where
  "put_xevent i x = modify (\<lambda>w. w\<lparr>xevent := (xevent w)[i := x]\<rparr>)"

definition at_xevent :: "nat \<Rightarrow> (xevs \<Rightarrow> ('z lworld_scheme, 'a) io) \<Rightarrow> ('z lworld_scheme, 'a) io" where
  "at_xevent i k = andthen (gets xevent) (\<lambda>t. if i < length t then k (t ! i) else undef)"

definition init_xevent :: "('z lworld_scheme, unit) io" where
  "init_xevent = foreach (\<lambda>i. put_xevent i \<lparr>xe_fd = -1, xe_ev = None\<rparr>) [0..<XEVENT_SIZE]"

definition destroy_xevent :: "(nat option \<Rightarrow> ('z lworld_scheme, unit) io) \<Rightarrow> ('z lworld_scheme, unit) io" where
  "destroy_xevent efree =
     foreach (\<lambda>i. at_xevent i (\<lambda>x. andthen (put_xevent i (x\<lparr>xe_fd := -1\<rparr>)) (\<lambda>_.
       andthen (efree (xe_ev x)) (\<lambda>_. put_xevent i \<lparr>xe_fd = -1, xe_ev = None\<rparr>)))) [0..<XEVENT_SIZE]"

definition find_index :: "xevs list \<Rightarrow> int" where
  "find_index t = (let i = first_index (\<lambda>x. xe_fd x < 0) t in if i = length t then -1 else int i)"

definition xevent_add :: "fd \<Rightarrow> nat option \<Rightarrow> ('z lworld_scheme, unit) io" where
  "xevent_add f ev =
     andthen (gets (\<lambda>w. find_index (xevent w))) (\<lambda>i.
       if i < 0 then ret () else put_xevent (nat i) \<lparr>xe_fd = f, xe_ev = ev\<rparr>)"

text \<open>The result of an unsuccessful search is the size of the table.\<close>

definition find_fd :: "fd \<Rightarrow> xevs list \<Rightarrow> nat" where
  "find_fd f t = first_index (\<lambda>x. xe_fd x = f) t"

definition found :: "fd \<Rightarrow> (nat \<Rightarrow> xevs \<Rightarrow> ('z lworld_scheme, 'a) io) \<Rightarrow> ('z lworld_scheme, 'a) io" where
  "found f k = andthen (gets (\<lambda>w. find_fd f (xevent w))) (\<lambda>i. at_xevent i (k i))"

definition c_cb ::
  "(nat \<Rightarrow> ('z lworld_scheme, int) io) \<Rightarrow> (nat option \<Rightarrow> ('z lworld_scheme, unit) io) \<Rightarrow> fd \<Rightarrow> ('z lworld_scheme, unit) io" where
  "c_cb edel efree f =
     andthen (sys_read f 1500) (\<lambda>r.
       if fst r \<le> 0 then
         andthen (Close f) (\<lambda>_.
         andthen (found f (\<lambda>i x. case xe_ev x of None \<Rightarrow> undef | Some e \<Rightarrow> edel e)) (\<lambda>_.
         andthen (found f (\<lambda>i x. put_xevent i (x\<lparr>xe_fd := -1\<rparr>))) (\<lambda>_.
         found f (\<lambda>i x. efree (xe_ev x)))))
       else andthen (sys_write 1 (snd r)) (\<lambda>_. andthen (sys_write f (snd r)) (\<lambda>_. ret ())))"

definition s_cb ::
  "(fd \<Rightarrow> ev_callback \<Rightarrow> ('z lworld_scheme, nat option) io) \<Rightarrow> (nat \<Rightarrow> ('z lworld_scheme, int) io) \<Rightarrow>
     fd \<Rightarrow> ('z lworld_scheme, unit) io" where
  "s_cb enew eadd f =
     andthen (Accept f) (\<lambda>cfd.
     andthen (enew cfd C_cb) (\<lambda>ev.
     andthen (case ev of None \<Rightarrow> undef | Some e \<Rightarrow> eadd e) (\<lambda>_.
     xevent_add cfd ev)))"

definition del_server_main ::
  "(fd \<Rightarrow> ev_callback \<Rightarrow> ('z lworld_scheme, nat option) io) \<Rightarrow> (nat \<Rightarrow> ('z lworld_scheme, int) io) \<Rightarrow>
     (nat option \<Rightarrow> ('z lworld_scheme, unit) io) \<Rightarrow> ('z lworld_scheme, unit) io \<Rightarrow> ('z lworld_scheme, int) io" where
  "del_server_main enew eadd efree dispatch =
     andthen (tcp4bind_plain 8080 None) (\<lambda>lfd.
     andthen (Listen lfd 128) (\<lambda>_.
     andthen init_xevent (\<lambda>_.
     andthen (enew lfd S_cb) (\<lambda>ev.
     andthen (case ev of None \<Rightarrow> undef | Some e \<Rightarrow> eadd e) (\<lambda>_.
     andthen (xevent_add lfd ev) (\<lambda>_.
     andthen dispatch (\<lambda>_.
     andthen (Close lfd) (\<lambda>_.
     andthen (destroy_xevent efree) (\<lambda>_. ret 0)))))))))"

subsection \<open>2\_tcp\_server.c\<close>

definition plain_c_cb :: "fd \<Rightarrow> ('z world_scheme, unit) io" where
  "plain_c_cb f =
     andthen (sys_read f 1500) (\<lambda>r.
       if fst r \<le> 0 then andthen (Close f) (\<lambda>_. ret ())
       else andthen (sys_write 1 (snd r)) (\<lambda>_. andthen (sys_write f (snd r)) (\<lambda>_. ret ())))"

definition plain_s_cb ::
  "(fd \<Rightarrow> ev_callback \<Rightarrow> ('z world_scheme, nat option) io) \<Rightarrow> (nat \<Rightarrow> ('z world_scheme, int) io) \<Rightarrow>
     fd \<Rightarrow> ('z world_scheme, unit) io" where
  "plain_s_cb enew eadd f =
     andthen (Accept f) (\<lambda>cfd.
     andthen (enew cfd C_cb) (\<lambda>ev.
     case ev of None \<Rightarrow> undef | Some e \<Rightarrow> andthen (eadd e) (\<lambda>_. ret ())))"

definition plain_server_main ::
  "(fd \<Rightarrow> ev_callback \<Rightarrow> ('z world_scheme, nat option) io) \<Rightarrow> (nat \<Rightarrow> ('z world_scheme, int) io) \<Rightarrow>
     ('z world_scheme, unit) io \<Rightarrow> ('z world_scheme, int) io" where
  "plain_server_main enew eadd dispatch =
     andthen (tcp4bind_plain 8080 None) (\<lambda>lfd.
     andthen (Listen lfd 128) (\<lambda>_.
     andthen (enew lfd S_cb) (\<lambda>ev.
     andthen (case ev of None \<Rightarrow> undef | Some e \<Rightarrow> eadd e) (\<lambda>_.
     andthen dispatch (\<lambda>_.
     andthen (Close lfd) (\<lambda>_. ret 0))))))"

subsection \<open>What the code relies on of libevent\<close>

text \<open>
  A new event is allocated for the descriptor and callback given and is not pending; \<^verbatim>\<open>event_add\<close> makes it
  pending, \<^verbatim>\<open>event_del\<close> ends that. None of them touches the kernel state or the program's table, and the
  program's own steps do not touch the events.
\<close>

definition app_state :: "'z lworld_scheme \<Rightarrow> lworld" where
  "app_state w = lworld.truncate w"

lemma app_state_sel: "xevent (app_state w) = xevent w" "opened (app_state w) = opened w"
  by (simp_all add: app_state_def lworld.truncate_def)

locale event_lib =
  fixes enew :: "fd \<Rightarrow> ev_callback \<Rightarrow> ('z lworld_scheme, nat option) io"
    and eadd :: "nat \<Rightarrow> ('z lworld_scheme, int) io"
    and edel :: "nat \<Rightarrow> ('z lworld_scheme, int) io"
    and events_of :: "'z lworld_scheme \<Rightarrow> nat \<Rightarrow> (fd \<times> ev_callback) option"
    and pending :: "'z lworld_scheme \<Rightarrow> nat set"
  assumes enew_fresh: "enew f cb w = (Ret (Some e), w') \<Longrightarrow>
      events_of w e = None \<and> events_of w' = (events_of w)(e \<mapsto> (f, cb)) \<and> pending w' = pending w
      \<and> app_state w' = app_state w"
    and eadd_pends: "events_of w e \<noteq> None \<Longrightarrow> \<exists>w'. eadd e w = (Ret 0, w') \<and> pending w' = insert e (pending w)
      \<and> events_of w' = events_of w \<and> app_state w' = app_state w"
    and edel_ends: "events_of w e \<noteq> None \<Longrightarrow> \<exists>w'. edel e w = (Ret 0, w') \<and> pending w' = pending w - {e}
      \<and> events_of w' = events_of w \<and> app_state w' = app_state w"
    and events_apart: "lworld.more v = lworld.more w \<Longrightarrow> events_of v = events_of w \<and> pending v = pending w"

subsection \<open>The table\<close>

interpretation xevent_slots: slots "\<lambda>x. xe_fd x < 0" xe_fd "\<lambda>x. x\<lparr>xe_fd := -1\<rparr>"
  by unfold_locales simp

lemma find_index_room:
  assumes "\<exists>x \<in> set t. xe_fd x < 0"
  shows "find_index t = int (first_index (\<lambda>x. xe_fd x < 0) t)" "first_index (\<lambda>x. xe_fd x < 0) t < length t"
proof -
  show less: "first_index (\<lambda>x. xe_fd x < 0) t < length t" using assms by (auto intro: first_index_less)
  then show "find_index t = int (first_index (\<lambda>x. xe_fd x < 0) t)" by (simp add: find_index_def)
qed

lemma find_fd_added:
  assumes "i < length t" "f \<notin> xe_fd ` set t"
  shows "find_fd f (t[i := \<lparr>xe_fd = f, xe_ev = ev\<rparr>]) = i"
  unfolding find_fd_def
proof (rule first_index_eqI)
  fix j assume "j < i"
  with assms show "\<not> xe_fd (t[i := \<lparr>xe_fd = f, xe_ev = ev\<rparr>] ! j) = f" by auto
qed (use assms(1) in simp_all)

lemma xevent_add_room:
  assumes "\<exists>x \<in> set (xevent w). xe_fd x < 0" "f \<notin> xe_fd ` set (xevent w)"
  shows "\<exists>w'. xevent_add f ev w = (Ret (), w') \<and> lworld.more w' = lworld.more w
     \<and> xevent w' ! find_fd f (xevent w') = \<lparr>xe_fd = f, xe_ev = ev\<rparr> \<and> find_fd f (xevent w') < length (xevent w')"
  using find_index_room [OF assms(1)] assms(2) by (simp add: xevent_add_def put_xevent_def find_fd_added)

lemma find_fd_none: "find_fd f t = length t \<longleftrightarrow> f \<notin> xe_fd ` set t"
  unfolding find_fd_def by (auto simp: first_index_none)

lemma find_fd_hit:
  assumes "f \<in> xe_fd ` set t"
  shows "find_fd f t < length t" "xe_fd (t ! find_fd f t) = f"
proof -
  from assms obtain x where x: "x \<in> set t" "xe_fd x = f" by auto
  show "find_fd f t < length t" unfolding find_fd_def by (rule first_index_less [OF x(1)]) (rule x(2))
  then show "xe_fd (t ! find_fd f t) = f" unfolding find_fd_def by (rule first_index_hit)
qed

text \<open>Once the entry of a descriptor that occurs once is marked vacant, a search for it runs off the table.\<close>

lemma find_fd_cleared:
  assumes "distinct (xevent_slots.active t)" "f \<in> xe_fd ` set t" "0 \<le> f"
  shows "find_fd f (t[find_fd f t := x\<lparr>xe_fd := -1\<rparr>]) = length t"
proof -
  let ?i = "find_fd f t"
  have i: "?i < length t" "xe_fd (t ! ?i) = f" using assms(2) find_fd_hit by blast+
  have active: "xe_fd y \<in> set (xevent_slots.active u)" if "y \<in> set u" "0 \<le> xe_fd y" for y u
    using that by (auto simp: xevent_slots.active_def)
  have "f \<notin> set (xevent_slots.active (take ?i t))" "f \<notin> set (xevent_slots.active (drop (Suc ?i) t))"
    using assms(1,3) i xevent_slots.active_at(2) [OF i(1)] by auto
  then have "f \<notin> xe_fd ` set (take ?i t)" "f \<notin> xe_fd ` set (drop (Suc ?i) t)"
    using active assms(3) by fastforce+
  then have "f \<notin> xe_fd ` set (t[?i := x\<lparr>xe_fd := -1\<rparr>])"
    using assms(3) by (auto simp: upd_conv_take_nth_drop [OF i(1)])
  then show ?thesis using find_fd_none [of f "t[?i := x\<lparr>xe_fd := -1\<rparr>]"] by simp
qed

context event_lib
begin

lemma app_stateD:
  "app_state v = app_state w \<Longrightarrow> xevent v = xevent w" "app_state v = app_state w \<Longrightarrow> opened v = opened w"
  by (metis app_state_sel(1)) (metis app_state_sel(2))

text \<open>An accepted connection gets a pending event of its own, which the table finds by its descriptor.\<close>

lemma s_cb_registers:
  assumes "Accept f w = (Ret c, w1)" "enew c C_cb w1 = (Ret (Some e), w2)"
    "\<exists>x \<in> set (xevent w1). xe_fd x < 0" "c \<notin> xe_fd ` set (xevent w1)"
  shows "\<exists>w'. s_cb enew eadd f w = (Ret (), w') \<and> e \<in> pending w' \<and> events_of w' e = Some (c, C_cb)
     \<and> find_fd c (xevent w') < length (xevent w')
     \<and> xevent w' ! find_fd c (xevent w') = \<lparr>xe_fd = c, xe_ev = Some e\<rparr>"
proof -
  have w2: "events_of w2 e = Some (c, C_cb)" "xevent w2 = xevent w1"
    using enew_fresh [OF assms(2)] app_stateD(1) [of w2 w1] by auto
  then obtain w3 where w3: "eadd e w2 = (Ret 0, w3)" "pending w3 = insert e (pending w2)"
    "events_of w3 = events_of w2" "app_state w3 = app_state w2"
    using eadd_pends [of w2 e] by auto
  note t3 = app_stateD(1) [OF w3(4)]
  obtain w4 where w4: "xevent_add c (Some e) w3 = (Ret (), w4)" "lworld.more w4 = lworld.more w3"
    "xevent w4 ! find_fd c (xevent w4) = \<lparr>xe_fd = c, xe_ev = Some e\<rparr>" "find_fd c (xevent w4) < length (xevent w4)"
    using xevent_add_room [of w3 c "Some e"] assms(3,4) w2(2) t3 by auto
  have "s_cb enew eadd f w = (Ret (), w4)" unfolding s_cb_def using assms(1,2) w3(1) w4(1) by simp
  with w2 w3 w4 events_apart [OF w4(2)] show ?thesis by simp
qed

text \<open>The end of a connection that has an entry.\<close>

lemma c_cb_end:
  assumes "sys_read f 1500 w = (Ret r, w1)" "fst r \<le> 0" "f \<in> set (opened w)" "0 \<le> f"
    "distinct (xevent_slots.active (xevent w))" "find_fd f (xevent w) < length (xevent w)"
    "xe_ev (xevent w ! find_fd f (xevent w)) = Some e" "events_of w e \<noteq> None"
  shows "\<exists>w'. c_cb edel efree f w = (Undef, w') \<and> e \<notin> pending w' \<and> f \<notin> set (opened w')"
proof -
  let ?t = "xevent w" let ?i = "find_fd f ?t"
  have more: "world.more w1 = world.more w" "opened w1 = opened w" using sys_read_frame [OF assms(1)] by auto
  then have l1: "lworld.more w1 = lworld.more w" "xevent w1 = ?t" by (cases w, cases w1, simp)+
  let ?w2 = "w1\<lparr>opened := removeAll f (opened w1), ofile := (ofile w1)(f := None),
                 epoll := (\<lambda>ep. (epoll w1 ep)(f := None)), trace := trace w1 @ [Closed f]\<rparr>"
  have w2: "Close f w1 = (Ret 0, ?w2)" using assms(3) more by (simp add: Close_def sys_close_open)
  have ev: "events_of ?w2 = events_of w" using events_apart [of ?w2 w] l1(1) by simp
  then obtain w3 where w3: "edel e ?w2 = (Ret 0, w3)" "pending w3 = pending ?w2 - {e}" "app_state w3 = app_state ?w2"
    using edel_ends [of ?w2 e] assms(8) by auto
  have t3: "xevent w3 = ?t" "f \<notin> set (opened w3)"
    using l1(2) app_stateD [OF w3(3)] by simp_all
  let ?x = "?t ! ?i"
  let ?w4 = "w3\<lparr>xevent := ?t[?i := ?x\<lparr>xe_fd := -1\<rparr>]\<rparr>"
  have d: "found f (\<lambda>i x. case xe_ev x of None \<Rightarrow> undef | Some e \<Rightarrow> edel e) ?w2 = (Ret 0, w3)"
    using l1(2) assms(6,7) w3(1) by (simp add: found_def at_xevent_def)
  have c: "found f (\<lambda>i x. put_xevent i (x\<lparr>xe_fd := -1\<rparr>)) w3 = (Ret (), ?w4)"
    using t3(1) assms(6) by (simp add: found_def at_xevent_def put_xevent_def)
  have "f \<in> xe_fd ` set ?t" using assms(6) find_fd_none [of f ?t] by auto
  from find_fd_cleared [OF assms(5) this assms(4)]
  have u: "found f (\<lambda>i x. efree (xe_ev x)) ?w4 = (Undef, ?w4)"
    by (simp add: found_def at_xevent_def)
  have "c_cb edel efree f w = (Undef, ?w4)"
    unfolding c_cb_def using assms(1,2) w2 d c u by simp
  moreover have "pending ?w4 = pending w3" using events_apart [of ?w4 w3] by simp
  ultimately show ?thesis using w3(2) t3(2) by simp
qed

end

subsection \<open>A libevent\<close>

text \<open>The contract is met by a list of the events made so far and the set of the pending ones.\<close>

record ev_world = lworld +
  ev_table :: "(fd \<times> ev_callback) list"
  ev_pending :: "nat set"

definition list_new :: "fd \<Rightarrow> ev_callback \<Rightarrow> ('z ev_world_scheme, nat option) io" where
  "list_new f cb w = (Ret (Some (length (ev_table w))), w\<lparr>ev_table := ev_table w @ [(f, cb)]\<rparr>)"

definition list_add :: "nat \<Rightarrow> ('z ev_world_scheme, int) io" where
  "list_add e w = (Ret 0, w\<lparr>ev_pending := insert e (ev_pending w)\<rparr>)"

definition list_del :: "nat \<Rightarrow> ('z ev_world_scheme, int) io" where
  "list_del e w = (Ret 0, w\<lparr>ev_pending := ev_pending w - {e}\<rparr>)"

definition list_events :: "'z ev_world_scheme \<Rightarrow> nat \<Rightarrow> (fd \<times> ev_callback) option" where
  "list_events w e = (if e < length (ev_table w) then Some (ev_table w ! e) else None)"

interpretation list_events: event_lib list_new list_add list_del list_events ev_pending
proof unfold_locales
  fix v w :: "'z ev_world_scheme"
  assume "lworld.more v = lworld.more w"
  then have "ev_table v = ev_table w" "ev_pending v = ev_pending w" by (cases v; cases w; simp)+
  then show "list_events v = list_events w \<and> ev_pending v = ev_pending w" by (simp add: list_events_def fun_eq_iff)
qed (auto simp: list_new_def list_add_def list_del_def list_events_def app_state_def lworld.truncate_def
      fun_eq_iff nth_append)

definition ev0 :: "fd \<Rightarrow> rd_res list \<Rightarrow> ev_world" where
  "ev0 f rs = lworld.extend (world.extend ((conn_world f rs)\<lparr>opened := [3, f, 0, 1, 2], accq := (\<lambda>_. [AConn 7])\<rparr>)
       \<lparr>xevent = [\<lparr>xe_fd = 3, xe_ev = Some 0\<rparr>, \<lparr>xe_fd = f, xe_ev = Some 1\<rparr>] @ replicate 1022 \<lparr>xe_fd = -1, xe_ev = None\<rparr>\<rparr>)
     \<lparr>ev_table = [(3, S_cb), (f, C_cb)], ev_pending = {0, 1}\<rparr>"

lemma ev0_sel:
  "xevent (ev0 f rs) = [\<lparr>xe_fd = 3, xe_ev = Some 0\<rparr>, \<lparr>xe_fd = f, xe_ev = Some 1\<rparr>]
      @ replicate 1022 \<lparr>xe_fd = -1, xe_ev = None\<rparr>"
  "opened (ev0 f rs) = [3, f, 0, 1, 2]" "ev_table (ev0 f rs) = [(3, S_cb), (f, C_cb)]"
  "ev_pending (ev0 f rs) = {0, 1}" "rdq (ev0 f rs) f = rs" "ofile (ev0 f rs) g = None"
  "accq (ev0 f rs) g = [AConn 7]"
  by (simp_all add: ev0_def world.defs lworld.defs)

lemma ev0_accept: "\<exists>w1. Accept 3 (ev0 f rs) = (Ret (new_fd 7 [3, f, 0, 1, 2]), w1) \<and> xevent w1 = xevent (ev0 f rs)
    \<and> ev_table w1 = ev_table (ev0 f rs)"
  by (simp add: Accept.simps sys_accept_def ev0_sel Let_def)

subsection \<open>Properties\<close>

text \<open>A connection accepted by \<^verbatim>\<open>s_cb\<close> gets a pending event that runs \<^verbatim>\<open>c_cb\<close> on it, and looking its descriptor
  up in the table gives that event, whatever was in the table, as long as it has a vacant entry; this for every
  event library that keeps the documented contract.\<close>

theorem libevent_accept_registers:
  assumes "event_lib enew eadd edel events_of pending" "Accept f w = (Ret c, w1)"
    "enew c C_cb w1 = (Ret (Some e), w2)" "\<exists>x \<in> set (xevent w1). xe_fd x < 0" "c \<notin> xe_fd ` set (xevent w1)"
  shows "\<exists>w'. s_cb enew eadd f w = (Ret (), w') \<and> e \<in> pending w' \<and> events_of w' e = Some (c, C_cb)
     \<and> find_fd c (xevent w') < length (xevent w')
     \<and> xevent w' ! find_fd c (xevent w') = \<lparr>xe_fd = c, xe_ev = Some e\<rparr>"
  using assms by (rule event_lib.s_cb_registers)

text \<open>When a connection ends, \<^verbatim>\<open>c_cb\<close> closes it and deletes its event, but then searches for the entry it has
  just marked vacant, runs off the table and frees a pointer it reads there.\<close>

theorem libevent_end_of_connection_undefined:
  assumes "event_lib enew eadd edel events_of pending" "sys_read f 1500 w = (Ret r, w1)" "fst r \<le> 0"
    "f \<in> set (opened w)" "0 \<le> f" "distinct (xevent_slots.active (xevent w))"
    "find_fd f (xevent w) < length (xevent w)" "xe_ev (xevent w ! find_fd f (xevent w)) = Some e"
    "events_of w e \<noteq> None"
  shows "\<exists>w'. c_cb edel efree f w = (Undef, w') \<and> e \<notin> pending w' \<and> f \<notin> set (opened w')"
  using assms by (rule event_lib.c_cb_end)

text \<open>The callback of \<^verbatim>\<open>2_tcp_server.c\<close> sends back what one \<^verbatim>\<open>recv\<close> delivers, up to 1500 bytes, as far as
  the kernel takes it, and leaves the rest for the next call; at end of file or on an error it closes the connection.\<close>

theorem libevent_plain_echo:
  assumes "f \<in> set (opened w)" "f \<noteq> 1" "ofile w f = None" "rdq w f = r # rs" "wrq w f = []"
  shows "\<exists>w'. plain_c_cb f w = (Ret (), w') \<and>
     (case r of
        RData bs \<Rightarrow> (if bs = [] then f \<notin> set (opened w')
                     else sent_on f (trace w') = sent_on f (trace w) @ take 1500 bs \<and> f \<in> set (opened w')
                       \<and> rdq w' f = (if length bs \<le> 1500 then rs else RData (drop 1500 bs) # rs))
      | RFail _ \<Rightarrow> f \<notin> set (opened w'))"
proof (cases r)
  case (RFail e)
  with assms show ?thesis by (simp add: plain_c_cb_def sys_read_def Close_def sys_close_def)
next
  case (RData bs)
  show ?thesis
  proof (cases "bs = []")
    case True
    with assms RData show ?thesis by (simp add: plain_c_cb_def sys_read_def Close_def sys_close_def)
  next
    case False
    let ?w1 = "w\<lparr>rdq := (rdq w)(f := (if length bs \<le> 1500 then rs else RData (drop 1500 bs) # rs))\<rparr>"
    have r: "sys_read f 1500 w = (Ret (int (length (take 1500 bs)), take 1500 bs), ?w1)"
      using assms RData by (simp add: sys_read_def)
    obtain n w2 where w2: "sys_write 1 (take 1500 bs) ?w1 = (Ret n, w2)" "opened w2 = opened ?w1" "rdq w2 = rdq ?w1"
      "ofile w2 = ofile ?w1" "\<And>g. g \<noteq> 1 \<Longrightarrow> wrq w2 g = wrq ?w1 g" "\<And>g. g \<noteq> 1 \<Longrightarrow> sent_on g (trace w2) = sent_on g (trace ?w1)"
      by (rule sys_write_other [of 1 "take 1500 bs" ?w1]) (rule that)
    have w2f: "opened w2 = opened w" "wrq w2 f = []" "sent_on f (trace w2) = sent_on f (trace w)"
      using w2(2,5,6) assms(2,5) by simp_all
    have "sys_write f (take 1500 bs) w2 = (Ret (int (length (take 1500 bs))),
        w2\<lparr>trace := trace w2 @ [Sent f (take 1500 bs)]\<rparr>)"
      using w2f assms(1) by (intro sys_write_all) simp_all
    with r w2(1,3) w2f False RData assms(1) show ?thesis by (simp add: plain_c_cb_def)
  qed
qed

subsection \<open>Instances\<close>

theorem libevent_accept_registers_witness:
  "\<exists>w'. s_cb list_new list_add 3 (ev0 5 []) = (Ret (), w') \<and> 2 \<in> ev_pending w'
     \<and> xevent w' ! find_fd 7 (xevent w') = \<lparr>xe_fd = 7, xe_ev = Some 2\<rparr>"
proof -
  obtain w1 where "Accept 3 (ev0 5 []) = (Ret 7, w1)" "xevent w1 = xevent (ev0 5 [])" "ev_table w1 = [(3, S_cb), (5, C_cb)]"
    using ev0_accept [of 5 "[]"] by (auto simp: new_fd_def ev0_sel)
  then show ?thesis
    using libevent_accept_registers [OF list_events.event_lib_axioms, of 3 "ev0 5 []" 7 w1 2]
    by (auto simp: list_new_def ev0_sel)
qed

theorem libevent_end_of_connection_undefined_witness:
  "\<exists>w'. c_cb list_del (\<lambda>_. ret ()) 5 (ev0 5 [RData []]) = (Undef, w') \<and> 1 \<notin> ev_pending w'"
proof -
  have "find_fd 5 (xevent (ev0 5 [RData []])) = 1" by (simp add: find_fd_def ev0_sel)
  then show ?thesis
    using libevent_end_of_connection_undefined [OF list_events.event_lib_axioms, of 5 "ev0 5 [RData []]" "(0, [])" _ 1]
    by (auto simp: sys_read_def ev0_sel xevent_slots.active_def list_events_def)
qed

theorem libevent_plain_echo_witness:
  "\<exists>w'. plain_c_cb 5 (conn_world 5 [RData ''hello'']) = (Ret (), w') \<and> sent_on 5 (trace w') = ''hello''"
  using libevent_plain_echo [of 5 "conn_world 5 [RData ''hello'']" "RData ''hello''" "[]"] by auto

end
