(* ===== verification/TcpEcho.thy ===== *)
theory TcpEcho
  imports Wrap
begin

section \<open>The socket programs (8\_socket)\<close>

text \<open>
  \<^verbatim>\<open>concurrence_linux/8_socket\<close>: \<^verbatim>\<open>4_tcp_server.c\<close> prints what its client sends and answers with what is typed,
  \<^verbatim>\<open>4_tcp_client.c\<close> is its client, \<^verbatim>\<open>5_tcp_server_pthread.c\<close> echoes in a thread per connection. A 1024-byte buffer is
  the list of its bytes. A \<^verbatim>\<open>write\<close> told to send -1 bytes is undefined behaviour.

  The loops on a connection take as fuel what that connection can still deliver (\<open>pending_size\<close>), which every
  turn uses up; the loops on \<^verbatim>\<open>accept\<close> take the length of its script.
\<close>

definition SIZE :: nat where "SIZE = 1024"

definition zeros :: "byte list" where
  "zeros = replicate SIZE NUL"

definition into_buf :: "byte list \<Rightarrow> byte list \<Rightarrow> byte list" where
  "into_buf bs buf = bs @ drop (length bs) buf"

lemma length_into_buf: "length bs \<le> length buf \<Longrightarrow> length (into_buf bs buf) = length buf"
  by (simp add: into_buf_def)

subsection \<open>4\_tcp\_server.c\<close>

fun tcp_serve :: "nat \<Rightarrow> fd \<Rightarrow> ('z world_scheme, unit) io" where
  "tcp_serve 0 newfd = (\<lambda>w. (Blocked, w))"
| "tcp_serve (Suc k) newfd =
     andthen (sys_read newfd SIZE) (\<lambda>r.
       if fst r \<le> 0 then ret ()
       else andthen (sys_write 1 (into_buf (snd r) zeros)) (\<lambda>_.
            andthen (sys_read 0 SIZE) (\<lambda>t.
              if fst t < 0 then undef
              else andthen (sys_write newfd (snd t)) (\<lambda>_. tcp_serve k newfd))))"

fun tcp_accept_loop :: "nat \<Rightarrow> fd \<Rightarrow> ('z world_scheme, unit) io" where
  "tcp_accept_loop 0 fd = (\<lambda>w. (Blocked, w))"
| "tcp_accept_loop (Suc n) fd =
     andthen (sys_accept fd) (\<lambda>newfd.
       if newfd = -1 then ret ()
       else andthen (gets (pending_size newfd)) (\<lambda>k.
            andthen (tcp_serve (Suc k) newfd) (\<lambda>_.
            andthen (sys_close newfd) (\<lambda>_. tcp_accept_loop n fd))))"

text \<open>The error exit closes the socket when there is none (\<^verbatim>\<open>if (-1 == fd)\<close>).\<close>

definition tcp_server_err :: "fd \<Rightarrow> ('z world_scheme, int) io" where
  "tcp_server_err fd =
     andthen (if fd = -1 then sys_close fd else ret 0) (\<lambda>_. exit_with 1)"

definition tcp_addr :: sockaddr_in where
  "tcp_addr = \<lparr>sin_family = AF_INET, sin_port = htons 8080, sin_addr = the (inet_pton ''10.0.16.10'')\<rparr>"

definition tcp_server_main :: "('z world_scheme, int) io" where
  "tcp_server_main =
     andthen sys_socket (\<lambda>fd.
       if fd = -1 then tcp_server_err fd
       else andthen (sys_bind fd tcp_addr) (\<lambda>b.
         if b = -1 then tcp_server_err fd
         else andthen (sys_listen fd 128) (\<lambda>l.
           if l = -1 then tcp_server_err fd
           else andthen (gets (\<lambda>w. length (accq w fd))) (\<lambda>n.
                andthen (tcp_accept_loop (Suc n) fd) (\<lambda>_.
                andthen (sys_close fd) (\<lambda>_. ret 0))))))"

subsection \<open>4\_tcp\_client.c\<close>

text \<open>One turn of the loop, from one content of \<^verbatim>\<open>buf\<close> to the next. The line is sent with the whole buffer.\<close>

definition tcp_client_turn :: "fd \<Rightarrow> byte list \<Rightarrow> ('z world_scheme, byte list) io" where
  "tcp_client_turn fd buf =
     andthen (sys_read 0 SIZE) (\<lambda>t.
     let buf1 = into_buf (snd t) buf in
     andthen (sys_write fd buf1) (\<lambda>_.
     andthen (sys_read fd SIZE) (\<lambda>r.
       if fst r < 0 then undef
       else andthen (sys_write 1 (snd r)) (\<lambda>_. ret (into_buf (snd r) buf1)))))"

fun tcp_client_turns :: "nat \<Rightarrow> fd \<Rightarrow> byte list \<Rightarrow> ('z world_scheme, byte list) io" where
  "tcp_client_turns 0 fd buf = ret buf"
| "tcp_client_turns (Suc n) fd buf = andthen (tcp_client_turn fd buf) (tcp_client_turns n fd)"

definition tcp_client_err :: "fd \<Rightarrow> ('z world_scheme, 'a) io" where
  "tcp_client_err fd =
     andthen (if fd \<noteq> -1 then sys_close fd else ret 0) (\<lambda>_. exit_with 1)"

definition tcp_client_main :: "nat \<Rightarrow> ('z world_scheme, byte list) io" where
  "tcp_client_main n =
     andthen sys_socket (\<lambda>fd.
       if fd = -1 then tcp_client_err fd
       else andthen (sys_connect fd tcp_addr) (\<lambda>c.
         if c = -1 then tcp_client_err fd
         else tcp_client_turns n fd zeros))"

subsection \<open>5\_tcp\_server\_pthread.c\<close>

text \<open>
  \<open>client_fun\<close> is what a thread runs; printing a full buffer without a NUL reads past its end. The loop of \<^verbatim>\<open>main\<close> takes for each turn whether
  \<^verbatim>\<open>malloc\<close> and \<^verbatim>\<open>pthread_create\<close> succeed and collects the connections it has started a thread for.
\<close>

fun client_loop :: "nat \<Rightarrow> fd \<Rightarrow> ('z world_scheme, unit) io" where
  "client_loop 0 cfd = (\<lambda>w. (Blocked, w))"
| "client_loop (Suc k) cfd =
     andthen (sys_read cfd SIZE) (\<lambda>r.
       if fst r \<le> 0 then ret ()
       else if length (snd r) = SIZE \<and> NUL \<notin> set (snd r) then undef
       else andthen (sys_write cfd (snd r)) (\<lambda>_. client_loop k cfd))"

definition client_fun :: "fd \<Rightarrow> ('z world_scheme, unit) io" where
  "client_fun cfd =
     andthen (gets (pending_size cfd)) (\<lambda>k.
     andthen (client_loop (Suc k) cfd) (\<lambda>_.
     andthen (sys_close cfd) (\<lambda>_. ret ())))"

fun pthread_accept_loop :: "(bool \<times> bool) list \<Rightarrow> fd \<Rightarrow> fd list \<Rightarrow> ('z world_scheme, fd list) io" where
  "pthread_accept_loop [] fd started = (\<lambda>w. (Blocked, w))"
| "pthread_accept_loop ((malloc_ok, create_ok) # vs) fd started =
     andthen (Accept fd) (\<lambda>cfd.
       if \<not> malloc_ok then pthread_accept_loop vs fd started
       else if \<not> create_ok then ret started
       else pthread_accept_loop vs fd (started @ [cfd]))"

fun atoi_digits :: "byte list \<Rightarrow> nat \<Rightarrow> nat" where
  "atoi_digits [] v = v"
| "atoi_digits (c # cs) v = (if is_digit c then atoi_digits cs (10 * v + digit_val c) else v)"

fun skip_space :: "byte list \<Rightarrow> byte list" where
  "skip_space [] = []"
| "skip_space (c # cs) = (if c = CHR '' '' \<or> c \<in> {CHR 0x09, CHR 0x0A, CHR 0x0B, CHR 0x0C, CHR 0x0D} then skip_space cs else c # cs)"

text \<open>\<^verbatim>\<open>atoi\<close>, for the numbers an \<^verbatim>\<open>int\<close> holds.\<close>

definition atoi :: "byte list \<Rightarrow> int" where
  "atoi s = (case skip_space s of
      [] \<Rightarrow> 0
    | c # cs \<Rightarrow> if c = CHR ''-'' then - int (atoi_digits cs 0)
               else if c = CHR ''+'' then int (atoi_digits cs 0)
               else int (atoi_digits (c # cs) 0))"

definition pthread_server_main :: "(bool \<times> bool) list \<Rightarrow> byte list list \<Rightarrow> ('z world_scheme, int \<times> fd list) io" where
  "pthread_server_main vs argv =
     (case argv of
        [_, arg] \<Rightarrow>
          andthen (tcp4bind_plain (word_of_int (atoi arg)) None) (\<lambda>fd.
          andthen (Listen fd 128) (\<lambda>_.
          andthen (pthread_accept_loop vs fd []) (\<lambda>started.
          andthen (sys_close fd) (\<lambda>_. ret (0, started)))))
      | _ \<Rightarrow> exit_with 1)"

subsection \<open>Properties\<close>

lemma length_zeros [simp]: "length zeros = SIZE"
  by (simp add: zeros_def)

lemma read_chunk:
  assumes "f \<in> set (opened w)" "ofile w f = None" "rdq w f = RData c # rs" "length c \<le> SIZE"
  shows "sys_read f SIZE w = (Ret (int (length c), c), w\<lparr>rdq := (rdq w)(f := rs)\<rparr>)"
  using assms by (simp add: sys_read_def)

text \<open>A conversation of the TCP server: for every sequence of messages and typed answers each message is shown in a
  block of 1024 bytes filled up with zeros, the client receives exactly the answers, in order, and the
  session ends when the client closes, leaving unread what is typed after that.\<close>

theorem tcp_serve_dialogue:
  assumes "{0, 1, f} \<subseteq> set (opened w)" "f \<notin> {0, 1}" "ofile w f = None" "ofile w 0 = None"
    "wrq w f = []" "wrq w 1 = []" "rdq w f = map RData cs @ [RData []]" "rdq w 0 = map RData ls @ rest"
    "length ls = length cs" "\<forall>c \<in> set cs. c \<noteq> [] \<and> length c \<le> SIZE" "\<forall>l \<in> set ls. length l \<le> SIZE" "length cs < k"
  shows "\<exists>w'. tcp_serve k f w = (Ret (), w') \<and> rdq w' 0 = rest
     \<and> sent_on f (trace w') = sent_on f (trace w) @ concat ls
     \<and> sent_on 1 (trace w') = sent_on 1 (trace w) @ concat (map (\<lambda>c. into_buf c zeros) cs)"
  using assms
proof (induction cs arbitrary: ls k w)
  case Nil
  then obtain k' where "k = Suc k'" by (cases k) auto
  with Nil show ?case by (simp add: sys_read_def)
next
  case (Cons c cs)
  then obtain k' l ls' where k: "k = Suc k'" and ls: "ls = l # ls'" by (cases k; cases ls) auto
  let ?b = "into_buf c zeros"
  let ?w1 = "w\<lparr>rdq := (rdq w)(f := map RData cs @ [RData []])\<rparr>"
  let ?w2 = "?w1\<lparr>trace := trace w @ [Sent 1 ?b]\<rparr>"
  let ?w3 = "?w2\<lparr>rdq := (rdq ?w2)(0 := map RData ls' @ rest)\<rparr>"
  let ?w4 = "?w3\<lparr>trace := trace ?w3 @ [Sent f l]\<rparr>"
  have r: "sys_read f SIZE w = (Ret (int (length c), c), ?w1)"
    using Cons.prems by (intro read_chunk) simp_all
  have p: "sys_write 1 ?b ?w1 = (Ret (int (length ?b)), ?w2)"
    using Cons.prems(1,6) by (simp add: sys_write_def)
  have t: "sys_read 0 SIZE ?w2 = (Ret (int (length l), l), ?w3)"
    using Cons.prems ls by (subst read_chunk) simp_all
  have s: "sys_write f l ?w3 = (Ret (int (length l)), ?w4)"
    using Cons.prems(1,5) by (simp add: sys_write_def)
  have "\<exists>w'. tcp_serve k' f ?w4 = (Ret (), w') \<and> rdq w' 0 = rest
     \<and> sent_on f (trace w') = sent_on f (trace ?w4) @ concat ls'
     \<and> sent_on 1 (trace w') = sent_on 1 (trace ?w4) @ concat (map (\<lambda>c. into_buf c zeros) cs)"
    using Cons.prems k ls by (intro Cons.IH) simp_all
  moreover have "tcp_serve k f w = tcp_serve k' f ?w4"
    using r p t s k Cons.prems(10) by simp
  ultimately show ?case using Cons.prems(2) ls by auto
qed

text \<open>The threaded server sends back all a client sends, in order, and closes the connection when the client does, for
  any segmentation into reads of less than 1024 bytes.\<close>

theorem client_fun_echoes:
  assumes "f \<in> set (opened w)" "ofile w f = None" "wrq w f = []" "rdq w f = map RData cs @ [RData []]"
    "\<forall>c \<in> set cs. c \<noteq> [] \<and> length c < SIZE"
  shows "\<exists>w'. client_fun f w = (Ret (), w') \<and> sent_on f (trace w') = sent_on f (trace w) @ concat cs
     \<and> f \<notin> set (opened w')"
proof -
  have loop: "\<exists>w'. client_loop k f v = (Ret (), w') \<and> sent_on f (trace w') = sent_on f (trace v) @ concat cs
     \<and> opened w' = opened v"
    if "f \<in> set (opened v)" "ofile v f = None" "wrq v f = []" "rdq v f = map RData cs @ [RData []]"
      "\<forall>c \<in> set cs. c \<noteq> [] \<and> length c < SIZE" "length cs < k" for k v
    using that
  proof (induction cs arbitrary: k v)
    case Nil
    then obtain k' where "k = Suc k'" by (cases k) auto
    with Nil show ?case by (simp add: sys_read_def)
  next
    case (Cons c cs)
    then obtain k' where k: "k = Suc k'" by (cases k) auto
    let ?v = "v\<lparr>rdq := (rdq v)(f := map RData cs @ [RData []]), trace := trace v @ [Sent f c]\<rparr>"
    have r: "sys_read f SIZE v = (Ret (int (length c), c), v\<lparr>rdq := (rdq v)(f := map RData cs @ [RData []])\<rparr>)"
      using Cons.prems by (intro read_chunk) simp_all
    have "\<exists>w'. client_loop k' f ?v = (Ret (), w') \<and> sent_on f (trace w') = sent_on f (trace ?v) @ concat cs
       \<and> opened w' = opened ?v"
      using Cons.prems k by (intro Cons.IH) simp_all
    with r Cons.prems k show ?case by (auto simp: sys_write_all)
  qed
  have "length cs < Suc (pending_size f w)"
  proof -
    have "length cs \<le> script_size (map RData cs @ [RData []])" by (induction cs) auto
    then show ?thesis using assms(2,4) by (simp add: pending_size_def)
  qed
  with loop [of w] assms obtain w1 where w1: "client_loop (Suc (pending_size f w)) f w = (Ret (), w1)"
    "sent_on f (trace w1) = sent_on f (trace w) @ concat cs" "opened w1 = opened w" by blast
  with assms(1) show ?thesis by (simp add: client_fun_def sys_close_def)
qed

text \<open>The TCP client sends 1024 bytes for every line typed, whatever its length: the line and then what the buffer held before, which
  after the first turn is the rest of the server's last answer and of longer lines.\<close>

theorem tcp_client_sends_stale_bytes:
  assumes "{0, 1, f} \<subseteq> set (opened w)" "f \<notin> {0, 1}" "ofile w f = None" "ofile w 0 = None" "wrq w f = []" "wrq w 1 = []"
    "rdq w 0 = RData l # ls" "rdq w f = RData a # rs" "length l \<le> SIZE" "length a \<le> SIZE" "length buf = SIZE"
  shows "\<exists>w'. tcp_client_turn f buf w = (Ret (into_buf a (into_buf l buf)), w')
     \<and> sent_on f (trace w') = sent_on f (trace w) @ l @ drop (length l) buf \<and> length (l @ drop (length l) buf) = SIZE
     \<and> sent_on 1 (trace w') = sent_on 1 (trace w) @ a"
proof -
  let ?w1 = "w\<lparr>rdq := (rdq w)(0 := ls)\<rparr>"
  let ?w2 = "?w1\<lparr>trace := trace w @ [Sent f (into_buf l buf)]\<rparr>"
  let ?w3 = "?w2\<lparr>rdq := (rdq ?w2)(f := rs)\<rparr>"
  have "sys_read 0 SIZE w = (Ret (int (length l), l), ?w1)" using assms by (intro read_chunk) simp_all
  moreover have "sys_write f (into_buf l buf) ?w1 = (Ret (int (length (into_buf l buf))), ?w2)"
    using assms(1,5) by (simp add: sys_write_def)
  moreover have "sys_read f SIZE ?w2 = (Ret (int (length a), a), ?w3)" using assms by (subst read_chunk) simp_all
  moreover have "sys_write 1 a ?w3 = (Ret (int (length a)), ?w3\<lparr>trace := trace ?w3 @ [Sent 1 a]\<rparr>)"
    using assms(1,6) by (simp add: sys_write_def)
  ultimately show ?thesis using assms(2,9,11) by (simp add: tcp_client_turn_def Let_def) (simp add: into_buf_def)
qed

subsection \<open>Instances\<close>

theorem tcp_serve_dialogue_witness:
  "\<exists>w'. tcp_serve 2 5 ((conn_world 5 [RData ''hi'', RData []])\<lparr>rdq := (\<lambda>_. [])(5 := [RData ''hi'', RData []], 0 := [RData ''yes''])\<rparr>) = (Ret (), w')
     \<and> sent_on 5 (trace w') = ''yes''"
  using tcp_serve_dialogue [of 5 "(conn_world 5 [RData ''hi'', RData []])\<lparr>rdq := (\<lambda>_. [])(5 := [RData ''hi'', RData []], 0 := [RData ''yes''])\<rparr>"
      "[''hi'']" "[''yes'']" "[]" 2]
  by (auto simp: SIZE_def conn_world_def world0_def)

theorem client_fun_echoes_witness:
  "\<exists>w'. client_fun 5 (conn_world 5 [RData ''ab'', RData ''c'', RData []]) = (Ret (), w') \<and> sent_on 5 (trace w') = ''abc''"
  using client_fun_echoes [of 5 "conn_world 5 [RData ''ab'', RData ''c'', RData []]" "[''ab'', ''c'']"]
  by (auto simp: SIZE_def)

theorem tcp_client_sends_stale_bytes_witness:
  "\<exists>w'. tcp_client_turn 5 zeros ((conn_world 5 [])\<lparr>rdq := (\<lambda>_. [])(5 := [RData ''ok''], 0 := [RData ''hi''])\<rparr>)
       = (Ret (into_buf ''ok'' (into_buf ''hi'' zeros)), w') \<and> sent_on 5 (trace w') = ''hi'' @ drop 2 zeros"
  using tcp_client_sends_stale_bytes [of 5 "(conn_world 5 [])\<lparr>rdq := (\<lambda>_. [])(5 := [RData ''ok''], 0 := [RData ''hi''])\<rparr>"
      "''hi''" "[]" "''ok''" "[]" zeros]
  by (auto simp: SIZE_def conn_world_def world0_def zeros_def)

end
