(* ===== verification/UdpEcho.thy ===== *)
theory UdpEcho
  imports TcpEcho
begin

section \<open>The UDP echo server and client (6\_udp\_server.c, 6\_udp\_client.c)\<close>

text \<open>
  \<^verbatim>\<open>concurrence_linux/8_socket/6_udp_server.c\<close> and \<^verbatim>\<open>6_udp_client.c\<close>. The kernel of a UDP program also has the datagrams that will
  arrive at a socket, with their senders (\<open>dgrams\<close>), and those that were sent (\<open>usent\<close>). A datagram longer than the
  buffer is cut. \<^verbatim>\<open>sendto\<close> with a length of -1 fails.
\<close>

datatype dgram_res = Dgram sockaddr_in "byte list" | DFail errno

record udp_world = world +
  dgrams :: "fd \<Rightarrow> dgram_res list"
  usendq :: "errno option list"   \<comment> \<open>the verdicts on the next calls of \<^verbatim>\<open>sendto\<close>, success when there is none left\<close>
  usent :: "(sockaddr_in \<times> byte list) list"

definition sys_recvfrom :: "fd \<Rightarrow> nat \<Rightarrow> ('z udp_world_scheme, int \<times> byte list \<times> sockaddr_in option) io" where
  "sys_recvfrom f n w =
     (if f \<notin> set (opened w) then fail_with EBADF (-1, [], None) w
      else case dgrams w f of
        [] \<Rightarrow> (Blocked, w)
      | Dgram a bs # ds \<Rightarrow> (Ret (int (length (take n bs)), take n bs, Some a), w\<lparr>dgrams := (dgrams w)(f := ds)\<rparr>)
      | DFail e # ds \<Rightarrow> fail_with e (-1, [], None) (w\<lparr>dgrams := (dgrams w)(f := ds)\<rparr>))"

definition sys_sendto :: "fd \<Rightarrow> byte list \<Rightarrow> sockaddr_in \<Rightarrow> ('z udp_world_scheme, int) io" where
  "sys_sendto f bs a w =
     (if f \<notin> set (opened w) then fail_with EBADF (-1) w
      else case usendq w of
        Some e # q \<Rightarrow> fail_with e (-1) (w\<lparr>usendq := q\<rparr>)
      | None # q \<Rightarrow> (Ret (int (length bs)), w\<lparr>usendq := q, usent := usent w @ [(a, bs)]\<rparr>)
      | [] \<Rightarrow> (Ret (int (length bs)), w\<lparr>usent := usent w @ [(a, bs)]\<rparr>))"

definition local_addr :: "16 word \<Rightarrow> sockaddr_in" where
  "local_addr port = \<lparr>sin_family = AF_INET, sin_port = htons port, sin_addr = inet_addr ''127.0.0.1''\<rparr>"

definition udp_bind :: "16 word \<Rightarrow> ('z world_scheme, int) io" where
  "udp_bind port =
     andthen sys_socket (\<lambda>f.
     andthen (sys_bind f (local_addr port)) (\<lambda>b. if b \<noteq> 0 then exit_with 1 else ret f))"

text \<open>The turns of the loops; False is the \<^verbatim>\<open>break\<close>.\<close>

definition udp_server_turn :: "fd \<Rightarrow> ('z udp_world_scheme, bool) io" where
  "udp_server_turn f =
     andthen (sys_recvfrom f SIZE) (\<lambda>(n, bs, from).
       if n < 0 then ret False
       else andthen (sys_write 1 bs) (\<lambda>_.
            case from of
              None \<Rightarrow> undef
            | Some cliaddr \<Rightarrow> andthen (sys_sendto f bs cliaddr) (\<lambda>_. ret True)))"

fun udp_server_loop :: "nat \<Rightarrow> fd \<Rightarrow> ('z udp_world_scheme, unit) io" where
  "udp_server_loop 0 f = (\<lambda>w. (Blocked, w))"
| "udp_server_loop (Suc n) f = andthen (udp_server_turn f) (\<lambda>go. if go then udp_server_loop n f else ret ())"

text \<open>Every turn uses up an arriving datagram, so their number is fuel enough.\<close>

definition udp_server_main :: "('z udp_world_scheme, int) io" where
  "udp_server_main =
     andthen (udp_bind 8888) (\<lambda>f.
     andthen (gets (\<lambda>w. length (dgrams w f))) (\<lambda>n.
     andthen (udp_server_loop (Suc n) f) (\<lambda>_.
     andthen (sys_close f) (\<lambda>_. ret 0))))"

text \<open>The client sends to the address it has: the server's at first, then the one of the last datagram received.\<close>

definition udp_client_turn :: "fd \<Rightarrow> sockaddr_in \<Rightarrow> ('z udp_world_scheme, sockaddr_in option) io" where
  "udp_client_turn f cliaddr =
     andthen (sys_read 0 SIZE) (\<lambda>t.
     andthen (if fst t < 0 then fail_with (EOTHER 90) (-1) else sys_sendto f (snd t) cliaddr) (\<lambda>n.
       if n < 0 then ret None
       else andthen (sys_recvfrom f SIZE) (\<lambda>(n, bs, from).
         if n < 0 then undef
         else andthen (sys_write 1 bs) (\<lambda>_. ret (Some (case from of Some a \<Rightarrow> a | None \<Rightarrow> cliaddr))))))"

fun udp_client_turns :: "nat \<Rightarrow> fd \<Rightarrow> sockaddr_in \<Rightarrow> ('z udp_world_scheme, unit) io" where
  "udp_client_turns 0 f a = (\<lambda>w. (Blocked, w))"
| "udp_client_turns (Suc n) f a =
     andthen (udp_client_turn f a) (\<lambda>r. case r of None \<Rightarrow> ret () | Some b \<Rightarrow> udp_client_turns n f b)"

definition udp_client_main :: "nat \<Rightarrow> ('z udp_world_scheme, int) io" where
  "udp_client_main n =
     andthen (udp_bind 9999) (\<lambda>f.
     andthen (udp_client_turns n f (local_addr 8888)) (\<lambda>_.
     andthen (sys_close f) (\<lambda>_. ret 0)))"

subsection \<open>Properties\<close>

lemma recv_dgram:
  "f \<in> set (opened w) \<Longrightarrow> dgrams w f = Dgram a bs # ds \<Longrightarrow>
     sys_recvfrom f n w = (Ret (int (length (take n bs)), take n bs, Some a), w\<lparr>dgrams := (dgrams w)(f := ds)\<rparr>)"
  by (simp add: sys_recvfrom_def)

lemma sendto_ok:
  "f \<in> set (opened w) \<Longrightarrow> usendq w = [] \<Longrightarrow>
     sys_sendto f bs a w = (Ret (int (length bs)), w\<lparr>usent := usent w @ [(a, bs)]\<rparr>)"
  by (simp add: sys_sendto_def)

lemma udp_server_turn_echo:
  assumes "{1, f} \<subseteq> set (opened w)" "wrq w 1 = []" "usendq w = []" "dgrams w f = Dgram a bs # ds"
  shows "\<exists>w'. udp_server_turn f w = (Ret True, w') \<and> usent w' = usent w @ [(a, take SIZE bs)] \<and> dgrams w' f = ds
     \<and> opened w' = opened w \<and> wrq w' 1 = [] \<and> usendq w' = []"
  using assms by (simp add: udp_server_turn_def recv_dgram sys_write_all sendto_ok)

text \<open>The UDP server answers every datagram with its first 1024 bytes, to whoever sent it, in the order of arrival, and when
  \<^verbatim>\<open>recvfrom\<close> fails it stops and closes its socket.\<close>

theorem udp_server_echoes:
  assumes "{1, f} \<subseteq> set (opened w)" "wrq w 1 = []" "usendq w = []"
    "dgrams w f = map (\<lambda>(a, bs). Dgram a bs) ds @ DFail e # rest" "length ds < k"
  shows "\<exists>w'. udp_server_loop k f w = (Ret (), w') \<and> usent w' = usent w @ map (\<lambda>(a, bs). (a, take SIZE bs)) ds"
  using assms
proof (induction ds arbitrary: k w)
  case Nil
  then obtain k' where k: "k = Suc k'" by (cases k) auto
  have f: "f \<in> set (opened w)" "dgrams w f = DFail e # rest" using Nil.prems(1,4) by simp_all
  then have "sys_recvfrom f SIZE w = (Ret (-1, [], None), w\<lparr>dgrams := (dgrams w)(f := rest), cerrno := e\<rparr>)"
    by (simp add: sys_recvfrom_def)
  then have "udp_server_turn f w = (Ret False, w\<lparr>dgrams := (dgrams w)(f := rest), cerrno := e\<rparr>)"
    by (simp add: udp_server_turn_def)
  with k show ?case by (simp add: andthen_def)
next
  case (Cons d ds)
  obtain a bs where d: "d = (a, bs)" by (cases d)
  obtain k' where k: "k = Suc k'" using Cons.prems(5) by (cases k) auto
  let ?rest = "map (\<lambda>(a, bs). Dgram a bs) ds @ DFail e # rest"
  have "dgrams w f = Dgram a bs # ?rest" using Cons.prems(4) d by simp
  with udp_server_turn_echo Cons.prems(1-3) obtain w1 where w1: "udp_server_turn f w = (Ret True, w1)"
    "usent w1 = usent w @ [(a, take SIZE bs)]" "dgrams w1 f = ?rest" "opened w1 = opened w" "wrq w1 1 = []" "usendq w1 = []"
    by blast
  have "\<exists>w'. udp_server_loop k' f w1 = (Ret (), w') \<and> usent w' = usent w1 @ map (\<lambda>(a, bs). (a, take SIZE bs)) ds"
    by (rule Cons.IH) (use Cons.prems(1,5) w1 k in simp_all)
  then obtain w2 where "udp_server_loop k' f w1 = (Ret (), w2)"
    "usent w2 = usent w1 @ map (\<lambda>(a, bs). (a, take SIZE bs)) ds" by blast
  with w1 k d show ?case by simp
qed

text \<open>Client and server together: when the datagram the client sends reaches the server and the answer reaches the client,
  what the client prints is the line that was typed, and it goes on talking to the server.\<close>

theorem udp_round_trip:
  assumes "{1, g} \<subseteq> set (opened v)" "wrq v 1 = []" "usendq v = []" "dgrams v g = [Dgram me l]"
    "{0, 1, f} \<subseteq> set (opened w)" "wrq w 1 = []" "usendq w = []" "ofile w 0 = None" "rdq w 0 = RData l # ls" "length l \<le> SIZE"
    "usent v = []" "snd (udp_server_turn g v) = v'" "dgrams w f = map (\<lambda>(a, bs). Dgram server bs) (usent v')"
  shows "\<exists>w'. udp_client_turn f server w = (Ret (Some server), w') \<and> usent w' = usent w @ [(server, l)]
     \<and> trace w' = trace w @ [Sent 1 l] \<and> usent v' = [(me, l)]"
proof -
  have v': "usent v' = [(me, l)]"
    using udp_server_turn_echo [OF assms(1-4)] assms(10-12) by auto
  then have d: "dgrams w f = [Dgram server l]" using assms(13) by simp
  let ?w1 = "w\<lparr>rdq := (rdq w)(0 := ls)\<rparr>"
  have r: "sys_read 0 SIZE w = (Ret (int (length l), l), ?w1)" using assms(5,8-10) by (intro read_chunk) simp_all
  let ?w2 = "?w1\<lparr>usent := usent w @ [(server, l)]\<rparr>"
  have s: "sys_sendto f l server ?w1 = (Ret (int (length l)), ?w2)" using assms(5,7) by (simp add: sendto_ok)
  let ?w3 = "?w2\<lparr>dgrams := (dgrams ?w2)(f := [])\<rparr>"
  have g: "sys_recvfrom f SIZE ?w2 = (Ret (int (length l), l, Some server), ?w3)"
    using d assms(5,10) by (simp add: recv_dgram)
  have p: "sys_write 1 l ?w3 = (Ret (int (length l)), ?w3\<lparr>trace := trace ?w3 @ [Sent 1 l]\<rparr>)"
    using assms(5,6) by (intro sys_write_all) simp_all
  show ?thesis unfolding udp_client_turn_def using r s g p v' by simp
qed

subsection \<open>Instances\<close>

definition udp0 :: "dgram_res list \<Rightarrow> rd_res list \<Rightarrow> udp_world" where
  "udp0 ds rs = world.extend (world0\<lparr>opened := [3, 0, 1, 2], rdq := (\<lambda>_. [])(0 := rs)\<rparr>)
     \<lparr>dgrams = (\<lambda>_. [])(3 := ds), usendq = [], usent = []\<rparr>"

lemma udp0_sel [simp]:
  "opened (udp0 ds rs) = [3, 0, 1, 2]" "dgrams (udp0 ds rs) 3 = ds" "usendq (udp0 ds rs) = []" "usent (udp0 ds rs) = []"
  "rdq (udp0 ds rs) 0 = rs" "wrq (udp0 ds rs) 1 = []" "ofile (udp0 ds rs) 0 = None" "trace (udp0 ds rs) = []"
  by (simp_all add: udp0_def world.defs world0_def)

theorem udp_server_echoes_witness:
  "\<exists>w'. udp_server_loop 3 3 (udp0 [Dgram (local_addr 9999) ''hi'', Dgram (local_addr 7777) ''yo'', DFail EINTR] []) = (Ret (), w')
     \<and> usent w' = [(local_addr 9999, ''hi''), (local_addr 7777, ''yo'')]"
  using udp_server_echoes [of 3 "udp0 [Dgram (local_addr 9999) ''hi'', Dgram (local_addr 7777) ''yo'', DFail EINTR] []"
      "[(local_addr 9999, ''hi''), (local_addr 7777, ''yo'')]" EINTR "[]" 3]
  by (simp add: SIZE_def)

theorem udp_round_trip_witness:
  "\<exists>w'. udp_client_turn 3 (local_addr 8888) (udp0 [Dgram (local_addr 8888) ''hi''] [RData ''hi'']) = (Ret (Some (local_addr 8888)), w')
     \<and> trace w' = [Sent 1 ''hi'']"
proof -
  let ?v = "udp0 [Dgram (local_addr 9999) ''hi''] []"
  have "usent (snd (udp_server_turn 3 ?v)) = [(local_addr 9999, ''hi'')]"
    using udp_server_turn_echo [of 3 ?v "local_addr 9999" "''hi''" "[]"] by (auto simp: SIZE_def)
  then show ?thesis
    using udp_round_trip [of 3 ?v "local_addr 9999" "''hi''" 3 "udp0 [Dgram (local_addr 8888) ''hi''] [RData ''hi'']" "[]"
        "snd (udp_server_turn 3 ?v)" "local_addr 8888"]
    by (auto simp: SIZE_def)
qed

end
