(* ===== verification/Philosophers.thy ===== *)
theory Philosophers
  imports Transition
begin

section \<open>The dining philosophers (7\_philosopher.c)\<close>

text \<open>
  \<^verbatim>\<open>concurrence_linux/7_thread_sync/7_philosopher.c\<close>: five threads run \<^verbatim>\<open>dine\<close> for ever; chopstick \<open>k\<close> is the
  mutex \<^verbatim>\<open>mu[k]\<close>, here its holder. The first four take their own chopstick first, the last one the first chopstick;
  the second chopstick is only tried for. One action is one call of a mutex operation, the meal, or the end of the sleep.
\<close>

datatype dpc =
    DRight   \<comment> \<open>at \<^verbatim>\<open>pthread_mutex_lock(&mu[right])\<close>\<close>
  | DTry     \<comment> \<open>at \<^verbatim>\<open>pthread_mutex_trylock(&mu[left])\<close>\<close>
  | DEat     \<comment> \<open>eating\<close>
  | DLeft    \<comment> \<open>at \<^verbatim>\<open>pthread_mutex_unlock(&mu[left])\<close>\<close>
  | DUnlock  \<comment> \<open>at \<^verbatim>\<open>pthread_mutex_unlock(&mu[right])\<close>\<close>
  | DSleep

record dtable =
  mu :: "nat option list"
  dpcs :: "dpc list"
  meals :: "nat list"  \<comment> \<open>who has eaten, in order (the output)\<close>

definition dine_right :: "nat \<Rightarrow> nat" where
  "dine_right num = (if num < 4 then num else 0)"

definition dine_left :: "nat \<Rightarrow> nat" where
  "dine_left num = (if num < 4 then num + 1 else num)"

definition dput :: "nat \<Rightarrow> dpc \<Rightarrow> dtable \<Rightarrow> dtable" where
  "dput i pc s = s\<lparr>dpcs := (dpcs s)[i := pc]\<rparr>"

definition dmutex :: "nat \<Rightarrow> nat option \<Rightarrow> dtable \<Rightarrow> dtable" where
  "dmutex k h s = s\<lparr>mu := (mu s)[k := h]\<rparr>"

definition dine_step :: "nat \<Rightarrow> dtable \<Rightarrow> dtable option" where
  "dine_step i s =
     (case dpcs s ! i of
        DRight \<Rightarrow> (if mu s ! dine_right i = None then Some (dput i DTry (dmutex (dine_right i) (Some i) s)) else None)
      | DTry \<Rightarrow> Some (if mu s ! dine_left i = None then dput i DEat (dmutex (dine_left i) (Some i) s) else dput i DUnlock s)
      | DEat \<Rightarrow> Some (dput i DLeft (s\<lparr>meals := meals s @ [i]\<rparr>))
      | DLeft \<Rightarrow> Some (dput i DUnlock (dmutex (dine_left i) None s))
      | DUnlock \<Rightarrow> Some (dput i DSleep (dmutex (dine_right i) None s))
      | DSleep \<Rightarrow> Some (dput i DRight s))"

definition dine_exec :: "nat \<Rightarrow> dtable \<Rightarrow> dtable option" where
  "dine_exec i s = (if i < 5 then dine_step i s else None)"

text \<open>The state \<^verbatim>\<open>main\<close> starts the threads in; it then joins threads that never return.\<close>

definition table0 :: dtable where
  "table0 = \<lparr>mu = replicate 5 None, dpcs = replicate 5 DRight, meals = []\<rparr>"

subsection \<open>Who holds what\<close>

definition holds :: "dtable \<Rightarrow> nat \<Rightarrow> nat \<Rightarrow> bool" where
  "holds s i k \<longleftrightarrow> i < 5 \<and> (dine_right i = k \<and> dpcs s ! i \<in> {DTry, DEat, DLeft, DUnlock}
      \<or> dine_left i = k \<and> dpcs s ! i \<in> {DEat, DLeft})"

definition dine_inv :: "dtable \<Rightarrow> bool" where
  "dine_inv s \<longleftrightarrow> length (mu s) = 5 \<and> length (dpcs s) = 5 \<and> (\<forall>k < 5. \<forall>i. mu s ! k = Some i \<longleftrightarrow> holds s i k)"

lemma dine_invD:
  assumes "dine_inv s"
  shows "length (mu s) = 5" "length (dpcs s) = 5" "k < 5 \<Longrightarrow> mu s ! k = Some i \<longleftrightarrow> holds s i k"
  using assms by (simp_all add: dine_inv_def)

lemma sticks [simp]:
  "i < 5 \<Longrightarrow> dine_right i < 5" "i < 5 \<Longrightarrow> dine_left i < 5" "i < 5 \<Longrightarrow> dine_right i \<noteq> dine_left i"
  "i < 5 \<Longrightarrow> dine_left i \<noteq> dine_right i"
  by (auto simp: dine_right_def dine_left_def)

lemma nobody_holds: "dine_inv s \<Longrightarrow> k < 5 \<Longrightarrow> mu s ! k = None \<Longrightarrow> \<not> holds s i k"
  using dine_invD(3) by fastforce

text \<open>
  A step keeps the invariant when it changes the holder of one chopstick together with the place of
  the thread that takes it or puts it back, and nobody else's.
\<close>

lemma dine_inv_change:
  assumes "dine_inv s" "i < 5" "length (mu t) = 5"
    "dpcs t = (dpcs s)[i := pc]"
    "\<And>k. k < 5 \<Longrightarrow> mu t ! k = (if holds t i k then Some i else if holds s i k then None else mu s ! k)"
    "\<And>k. k < 5 \<Longrightarrow> holds t i k \<Longrightarrow> \<not> holds s i k \<Longrightarrow> mu s ! k = None"
  shows "dine_inv t"
  unfolding dine_inv_def
proof (intro conjI allI impI)
  show "length (mu t) = 5" "length (dpcs t) = 5" using assms(3,4) dine_invD(2) [OF assms(1)] by simp_all
  fix k j :: nat
  assume k: "k < 5"
  have others: "holds t j k \<longleftrightarrow> holds s j k" if "j \<noteq> i"
    using that assms(4) by (simp add: holds_def)
  note s = dine_invD(3) [OF assms(1) k]
  show "mu t ! k = Some j \<longleftrightarrow> holds t j k"
  proof (cases "j = i")
    case True
    then show ?thesis using assms(5) [OF k] s [of i] by auto
  next
    case False
    with others have "holds t j k \<longleftrightarrow> mu s ! k = Some j" by (simp add: s)
    with False show ?thesis using assms(5,6) [OF k] s [of i] by auto
  qed
qed

lemma dine_inv_exec:
  assumes inv: "dine_inv s" and "dine_exec i s = Some t"
  shows "dine_inv t"
proof -
  from assms(2) have i: "i < 5" and step: "dine_step i s = Some t" by (auto simp: dine_exec_def split: if_splits)
  note l = dine_invD(1,2) [OF inv]
  have lk: "length (mu t) = 5"
    using step l by (auto simp: dine_step_def dput_def dmutex_def split: dpc.splits if_splits)
  obtain pc where pc: "dpcs t = (dpcs s)[i := pc]"
    using step by (auto simp: dine_step_def dput_def dmutex_def split: dpc.splits if_splits)
  have mine: "mu s ! k = (if holds s i k then Some i else mu s ! k)" if "k < 5" for k
    using dine_invD(3) [OF inv that] by simp
  show ?thesis
  proof (rule dine_inv_change [OF inv i lk pc])
    fix k :: nat
    assume k: "k < 5"
    show "mu t ! k = (if holds t i k then Some i else if holds s i k then None else mu s ! k)"
      using step i l k mine [OF k]
      by (cases "dpcs s ! i")
         (auto simp: dine_step_def holds_def dput_def dmutex_def nth_list_update split: if_splits)
    assume "holds t i k" "\<not> holds s i k"
    with step i l show "mu s ! k = None"
      by (cases "dpcs s ! i")
         (auto simp: dine_step_def holds_def dput_def dmutex_def nth_list_update split: if_splits)
  qed
qed

text \<open>Somebody can always move: a thread that holds a chopstick is never blocked.\<close>

lemma dine_moves:
  assumes "i < 5" "dpcs s ! i \<noteq> DRight"
  shows "\<exists>t. dine_exec i s = Some t"
  using assms by (cases "dpcs s ! i") (simp_all add: dine_exec_def dine_step_def)

lemma dine_inv_init: "dine_inv table0"
proof -
  have "\<not> holds table0 i k" for i k by (auto simp: holds_def table0_def)
  then show ?thesis by (simp add: dine_inv_def) (simp add: table0_def)
qed

interpretation dining: live_system "\<lambda>s. s = table0" dine_exec dine_inv
proof unfold_locales
  fix s
  assume inv: "dine_inv s"
  show "\<exists>a t. dine_exec a s = Some t"
  proof (cases "dpcs s ! 0 = DRight \<and> mu s ! 0 \<noteq> None")
    case True
    then obtain j where "mu s ! 0 = Some j" by auto
    then have "holds s j 0" using dine_invD(3) [OF inv, of 0 j] by simp
    then have "j < 5" "dpcs s ! j \<noteq> DRight" by (auto simp: holds_def)
    then show ?thesis using dine_moves by blast
  next
    case False
    show ?thesis
    proof (cases "dpcs s ! 0 = DRight")
      case True
      with False have "dine_exec 0 s = Some (dput 0 DTry (dmutex 0 (Some 0) s))"
        by (simp add: dine_exec_def dine_step_def dine_right_def)
      then show ?thesis by blast
    next
      case False
      then show ?thesis using dine_moves [of 0 s] by auto
    qed
  qed
qed (auto intro: dine_inv_exec dine_inv_init)

subsection \<open>Everybody can come to eat\<close>

text \<open>How many of its own steps a thread is from waiting for its first chopstick.\<close>

fun rank :: "dpc \<Rightarrow> nat" where
  "rank DRight = 0"
| "rank DSleep = 1"
| "rank DUnlock = 2"
| "rank DLeft = 3"
| "rank DEat = 4"
| "rank DTry = 5"

lemma dine_step_rank:
  assumes "dine_exec i s = Some t" "dpcs s ! i \<noteq> DRight" "length (dpcs s) = 5"
  shows "sum_list (map rank (dpcs t)) < sum_list (map rank (dpcs s))"
proof -
  have i: "i < 5" using assms(1) by (simp add: dine_exec_def split: if_splits)
  obtain pc where pc: "dpcs t = (dpcs s)[i := pc]" "rank pc < rank (dpcs s ! i)"
    using assms i by (cases "dpcs s ! i") (auto simp: dine_exec_def dine_step_def dput_def dmutex_def split: if_splits)
  with sum_list_map_update [of i "dpcs s" rank pc] i assms(3) show ?thesis by simp
qed

lemma all_put_back:
  assumes "dine_inv s"
  shows "\<exists>as t. run_actions dine_exec as s = Some t \<and> dine_inv t \<and> (\<forall>i < 5. dpcs t ! i = DRight)"
  using assms
proof (induction "sum_list (map rank (dpcs s))" arbitrary: s rule: less_induct)
  case less
  show ?case
  proof (cases "\<forall>i < 5. dpcs s ! i = DRight")
    case True
    with less.prems show ?thesis by (auto intro: exI [of _ "[]"])
  next
    case False
    then obtain i u where i: "i < 5" "dpcs s ! i \<noteq> DRight" "dine_exec i s = Some u"
      using dine_moves by blast
    with less.hyps [OF dine_step_rank dine_inv_exec] less.prems dine_invD(2)
    obtain as t where "run_actions dine_exec as u = Some t" "dine_inv t" "\<forall>i < 5. dpcs t ! i = DRight" by blast
    with i(3) have "run_actions dine_exec (i # as) s = Some t \<and> dine_inv t \<and> (\<forall>i < 5. dpcs t ! i = DRight)" by simp
    then show ?thesis by blast
  qed
qed

lemma all_free:
  assumes "dine_inv s" "\<forall>i < 5. dpcs s ! i = DRight" "k < 5"
  shows "mu s ! k = None"
proof (cases "mu s ! k")
  case (Some j)
  then have "holds s j k" using dine_invD(3) [OF assms(1,3), of j] by blast
  with assms(2) show ?thesis by (auto simp: holds_def)
qed

lemma eats_when_free:
  assumes "dine_inv s" "\<forall>i < 5. dpcs s ! i = DRight" "i < 5"
  shows "\<exists>t. run_actions dine_exec [i, i, i] s = Some t \<and> meals t = meals s @ [i]"
  using assms(3) all_free [OF assms(1,2)] assms(2) dine_invD(1,2) [OF assms(1)]
  by (simp add: dine_exec_def dine_step_def dput_def dmutex_def)

lemma meals_grow: "run_actions dine_exec as s = Some t \<Longrightarrow> \<exists>ms. meals t = meals s @ ms"
proof (induction as arbitrary: s)
  case (Cons a as)
  then obtain u where u: "dine_exec a s = Some u" "run_actions dine_exec as u = Some t" by (auto split: option.splits)
  then have "\<exists>ms. meals u = meals s @ ms"
    by (auto simp: dine_exec_def dine_step_def dput_def dmutex_def split: if_splits dpc.splits)
  with Cons.IH [OF u(2)] show ?case by auto
qed simp

subsection \<open>Properties\<close>

text \<open>Two philosophers never eat with the same chopstick: at any time in any interleaving the chopsticks of
  two different ones that are eating are different, so neighbours never eat together.\<close>

theorem philosophers_exclusion:
  assumes "reach (\<lambda>s. s = table0) (lstep dine_exec) s" "i < 5" "j < 5" "i \<noteq> j"
    "dpcs s ! i = DEat" "dpcs s ! j = DEat"
  shows "{dine_right i, dine_left i} \<inter> {dine_right j, dine_left j} = {}"
proof -
  note inv = dining.inv_reach [OF assms(1)]
  have i: "mu s ! dine_right i = Some i" "mu s ! dine_left i = Some i"
    using dine_invD(3) [OF inv] assms(2,5) by (simp_all add: holds_def)
  have j: "mu s ! dine_right j = Some j" "mu s ! dine_left j = Some j"
    using dine_invD(3) [OF inv] assms(3,6) by (simp_all add: holds_def)
  have "dine_right i \<noteq> dine_right j" "dine_right i \<noteq> dine_left j" "dine_left i \<noteq> dine_right j" "dine_left i \<noteq> dine_left j"
    using i j assms(4) by (metis option.inject)+
  then show ?thesis by simp
qed

text \<open>C22: The philosophers never deadlock: in every reachable state somebody can move, and the executions can
  be continued for any number of steps.\<close>

theorem philosophers_never_deadlock:
  assumes "reach (\<lambda>s. s = table0) (lstep dine_exec) s"
  shows "(\<exists>t. lstep dine_exec s t) \<and> (\<exists>as t. length as = n \<and> run_actions dine_exec as s = Some t)"
  using dining.no_deadlock [OF assms] dining.runs_forever [OF assms] by blast

text \<open>No philosopher is ever excluded for good: every reachable state has, for each of the five, a continuation in
  which that one eats.\<close>

theorem philosophers_can_eat:
  assumes "reach (\<lambda>s. s = table0) (lstep dine_exec) s" "i < 5"
  shows "\<exists>as t ms. run_actions dine_exec as s = Some t \<and> meals t = meals s @ ms @ [i]"
proof -
  obtain as u where u: "run_actions dine_exec as s = Some u" "dine_inv u" "\<forall>i < 5. dpcs u ! i = DRight"
    using all_put_back [OF dining.inv_reach [OF assms(1)]] by blast
  with eats_when_free [OF u(2,3) assms(2)] obtain t where "run_actions dine_exec [i, i, i] u = Some t" "meals t = meals u @ [i]"
    by blast
  moreover from this(1) u(1) have "run_actions dine_exec (as @ [i, i, i]) s = Some t"
    by (simp only: run_actions_append bind.bind_lunit)
  moreover obtain ms where "meals u = meals s @ ms" using meals_grow [OF u(1)] by blast
  ultimately have "run_actions dine_exec (as @ [i, i, i]) s = Some t \<and> meals t = meals s @ ms @ [i]" by simp
  then show ?thesis by blast
qed

subsection \<open>Instances\<close>

definition table_two :: dtable where
  "table_two = \<lparr>mu = [Some 0, Some 0, Some 2, Some 2, None], dpcs = [DEat, DRight, DEat, DRight, DRight], meals = []\<rparr>"

lemma table_two_reach: "reach (\<lambda>s. s = table0) (lstep dine_exec) table_two"
  by (rule reach_from_init [of _ table0 _ "[0, 2, 0, 2]"]) (simp, code_simp)

theorem philosophers_exclusion_witness:
  "{dine_right 0, dine_left 0} \<inter> {dine_right 2, dine_left 2} = {}"
  using philosophers_exclusion [OF table_two_reach, of 0 2] by (simp add: table_two_def)

theorem philosophers_never_deadlock_witness:
  "(\<exists>t. lstep dine_exec table_two t) \<and> (\<exists>as t. length as = 100 \<and> run_actions dine_exec as table_two = Some t)"
  by (rule philosophers_never_deadlock [OF table_two_reach])

theorem philosophers_can_eat_witness:
  "\<exists>as t ms. run_actions dine_exec as table_two = Some t \<and> meals t = ms @ [1]"
  using philosophers_can_eat [OF table_two_reach, of 1] by (simp add: table_two_def)

end
