(* ===== verification/Locks.thy ===== *)
theory Locks
  imports Transition
begin

section \<open>Locks\<close>

text \<open>
  The two ways the programs of 7\_thread\_sync exclude each other: a mutex, whose state is its holder, and a semaphore that
  starts at 1. \<open>None\<close> as the result of taking one is a caller that has to wait. The locale \<open>exclusion_lock\<close> is what
  a program needs of its lock; \<open>rep\<close> relates a lock to who holds it.
\<close>

definition mutex_lock :: "nat \<Rightarrow> nat option \<Rightarrow> nat option option" where
  "mutex_lock i l = (if l = None then Some (Some i) else None)"

definition mutex_unlock :: "nat \<Rightarrow> nat option \<Rightarrow> nat option" where
  "mutex_unlock i l = None"

definition sem_wait :: "nat \<Rightarrow> nat \<Rightarrow> nat option" where
  "sem_wait i n = (if n > 0 then Some (n - 1) else None)"

definition sem_post :: "nat \<Rightarrow> nat \<Rightarrow> nat" where
  "sem_post i n = n + 1"

locale exclusion_lock =
  fixes acquire :: "nat \<Rightarrow> 'l \<Rightarrow> 'l option"
    and release :: "nat \<Rightarrow> 'l \<Rightarrow> 'l"
    and rep :: "'l \<Rightarrow> nat option \<Rightarrow> bool"
  assumes acquire_free: "rep l None \<Longrightarrow> \<exists>l'. acquire i l = Some l' \<and> rep l' (Some i)"
    and acquire_held: "rep l (Some j) \<Longrightarrow> acquire i l = None"
    and release_held: "rep l (Some i) \<Longrightarrow> rep (release i l) None"
begin

lemma acquireD: "rep l h \<Longrightarrow> acquire i l = Some l' \<Longrightarrow> h = None \<and> rep l' (Some i)"
  by (cases h) (use acquire_free [of l i] acquire_held in auto)

text \<open>Every such lock behaves like the mutex.\<close>

lemma acquire_sim:
  assumes "rep l h"
  shows "rel_option rep (acquire i l) (mutex_lock i h)"
proof (cases h)
  case None
  with acquire_free [of l i] assms obtain l' where "acquire i l = Some l'" "rep l' (Some i)" by blast
  with None show ?thesis by (simp add: mutex_lock_def)
qed (use assms in \<open>simp add: mutex_lock_def acquire_held\<close>)

end

interpretation mutex: exclusion_lock mutex_lock mutex_unlock "(=)"
  by unfold_locales (auto simp: mutex_lock_def mutex_unlock_def)

definition sem_rep :: "nat \<Rightarrow> nat option \<Rightarrow> bool" where
  "sem_rep n h \<longleftrightarrow> n = (if h = None then 1 else 0)"

interpretation semaphore: exclusion_lock sem_wait sem_post sem_rep
  by unfold_locales (auto simp: sem_wait_def sem_post_def sem_rep_def)

end
