(* ===== verification/Printers.thy ===== *)
theory Printers
  imports Locks
begin

section \<open>Two printers sharing the terminal (1\_printer\_mutex.c, 5\_printer\_sem.c)\<close>

text \<open>
  \<^verbatim>\<open>concurrence_linux/7_thread_sync/1_printer_mutex.c\<close> and \<^verbatim>\<open>5_printer_sem.c\<close>: two threads each print a word, one
  character at a time, under a lock; \<^verbatim>\<open>main\<close> joins them and prints a last line. The programs differ in the lock only, which is
  the parameter (\<open>acquire\<close>, \<open>release\<close>) of the definitions.
\<close>

datatype ppc =
    PLock "byte list"   \<comment> \<open>about to take the lock and print this string\<close>
  | PPrint "byte list"  \<comment> \<open>in \<^verbatim>\<open>printer\<close>, with this much of the string left\<close>
  | PUnlock
  | PDone

record 'l printers =
  plock :: 'l
  pthr :: "ppc list"
  pjoined :: nat        \<comment> \<open>how many threads \<^verbatim>\<open>main\<close> has joined; one more when it has printed its line\<close>
  pout :: "byte list"

text \<open>One turn of the loop of \<^verbatim>\<open>printer\<close>: the character printed and where the thread is then.\<close>

fun printer :: "byte list \<Rightarrow> byte \<times> ppc" where
  "printer [] = (CHR 0x0A, PUnlock)"
| "printer (c # cs) = (c, PPrint cs)"

definition printer_thread :: "(nat \<Rightarrow> 'l \<Rightarrow> 'l option) \<Rightarrow> (nat \<Rightarrow> 'l \<Rightarrow> 'l) \<Rightarrow> nat \<Rightarrow> 'l printers \<Rightarrow> 'l printers option" where
  "printer_thread acquire release i s =
     (case pthr s ! i of
        PLock str \<Rightarrow>
          (case acquire i (plock s) of
             None \<Rightarrow> None
           | Some l \<Rightarrow> Some (s\<lparr>plock := l, pthr := (pthr s)[i := PPrint str]\<rparr>))
      | PPrint str \<Rightarrow> Some (s\<lparr>pout := pout s @ [fst (printer str)], pthr := (pthr s)[i := snd (printer str)]\<rparr>)
      | PUnlock \<Rightarrow> Some (s\<lparr>plock := release i (plock s), pthr := (pthr s)[i := PDone]\<rparr>)
      | PDone \<Rightarrow> None)"

definition printer_main :: "'l printers \<Rightarrow> 'l printers option" where
  "printer_main s =
     (if pjoined s < length (pthr s) then
        (if pthr s ! pjoined s = PDone then Some (s\<lparr>pjoined := Suc (pjoined s)\<rparr>) else None)
      else if pjoined s = length (pthr s) then
        Some (s\<lparr>pjoined := Suc (pjoined s), pout := pout s @ ''main thread exit....''\<rparr>)
      else None)"

definition printer_exec ::
  "(nat \<Rightarrow> 'l \<Rightarrow> 'l option) \<Rightarrow> (nat \<Rightarrow> 'l \<Rightarrow> 'l) \<Rightarrow> nat option \<Rightarrow> 'l printers \<Rightarrow> 'l printers option" where
  "printer_exec acquire release a s =
     (case a of
        None \<Rightarrow> printer_main s
      | Some i \<Rightarrow> (if i < length (pthr s) then printer_thread acquire release i s else None))"

definition printer_init :: "'l \<Rightarrow> byte list list \<Rightarrow> 'l printers" where
  "printer_init l strs = \<lparr>plock = l, pthr = map PLock strs, pjoined = 0, pout = []\<rparr>"

definition printer_mutex_start :: "nat option printers" where
  "printer_mutex_start = printer_init None [''hello'', ''world'']"

text \<open>The semaphore program gives up when \<^verbatim>\<open>sem_init\<close> fails: \<open>Inl\<close> is the exit status.\<close>

definition printer_sem_start :: "bool \<Rightarrow> int + nat printers" where
  "printer_sem_start ok = (if ok then Inr (printer_init 1 [''hello'', ''world'']) else Inl 1)"

subsection \<open>The invariant\<close>

definition line :: "byte list \<Rightarrow> byte list" where
  "line s = s @ [CHR 0x0A]"

definition past_print :: "ppc \<Rightarrow> bool" where
  "past_print pc \<longleftrightarrow> pc = PUnlock \<or> pc = PDone"

text \<open>What a thread's place says about the lock's holder and about its string.\<close>

definition place_ok :: "byte list list \<Rightarrow> nat option \<Rightarrow> nat \<Rightarrow> ppc \<Rightarrow> bool" where
  "place_ok strs h i pc \<longleftrightarrow>
     (case pc of
        PLock str \<Rightarrow> h \<noteq> Some i \<and> str = strs ! i
      | PPrint rest \<Rightarrow> h = Some i \<and> (\<exists>pre. strs ! i = pre @ rest)
      | PUnlock \<Rightarrow> h = Some i
      | PDone \<Rightarrow> h \<noteq> Some i)"

text \<open>The characters of the line being printed that are out already.\<close>

definition partial :: "byte list list \<Rightarrow> ppc list \<Rightarrow> nat option \<Rightarrow> byte list" where
  "partial strs pcs h =
     (case h of
        None \<Rightarrow> []
      | Some i \<Rightarrow> (case pcs ! i of PPrint rest \<Rightarrow> take (length (strs ! i) - length rest) (strs ! i) | _ \<Rightarrow> []))"

definition lines_out :: "byte list list \<Rightarrow> nat option \<Rightarrow> nat list \<Rightarrow> 'l printers \<Rightarrow> bool" where
  "lines_out strs h order s \<longleftrightarrow>
     distinct order \<and> set order = {i. i < length strs \<and> past_print (pthr s ! i)}
     \<and> pout s = concat (map (\<lambda>i. line (strs ! i)) order) @ partial strs (pthr s) h
         @ (if pjoined s = Suc (length strs) then ''main thread exit....'' else [])"

text \<open>The invariant, for a given holder of the lock and order in which the lines came out.\<close>

definition printers_at :: "('l \<Rightarrow> nat option \<Rightarrow> bool) \<Rightarrow> byte list list \<Rightarrow> nat option \<Rightarrow> nat list \<Rightarrow> 'l printers \<Rightarrow> bool" where
  "printers_at rep strs h order s \<longleftrightarrow>
     length (pthr s) = length strs \<and> pjoined s \<le> Suc (length strs)
     \<and> (\<forall>i < length strs. i < pjoined s \<longrightarrow> pthr s ! i = PDone)
     \<and> rep (plock s) h \<and> (\<forall>i. h = Some i \<longrightarrow> i < length strs)
     \<and> (\<forall>i < length strs. place_ok strs h i (pthr s ! i)) \<and> lines_out strs h order s"

definition printers_inv :: "('l \<Rightarrow> nat option \<Rightarrow> bool) \<Rightarrow> byte list list \<Rightarrow> 'l printers \<Rightarrow> bool" where
  "printers_inv rep strs s \<longleftrightarrow> (\<exists>h order. printers_at rep strs h order s)"

lemma printers_atD:
  assumes "printers_at rep strs h order s"
  shows "length (pthr s) = length strs" "pjoined s \<le> Suc (length strs)"
    "\<And>i. i < length strs \<Longrightarrow> i < pjoined s \<Longrightarrow> pthr s ! i = PDone"
    "rep (plock s) h" "\<And>i. h = Some i \<Longrightarrow> i < length strs"
    "\<And>i. i < length strs \<Longrightarrow> place_ok strs h i (pthr s ! i)" "lines_out strs h order s"
  using assms by (simp_all add: printers_at_def)

lemma printers_inv_init:
  assumes "rep l None"
  shows "printers_inv rep strs (printer_init l strs)"
proof -
  have "lines_out strs None [] (printer_init l strs)"
    by (auto simp: lines_out_def printer_init_def partial_def past_print_def)
  moreover have "place_ok strs None i (pthr (printer_init l strs) ! i)" if "i < length strs" for i
    using that by (simp add: place_ok_def printer_init_def)
  ultimately have "printers_at rep strs None [] (printer_init l strs)"
    using assms by (simp add: printers_at_def) (simp add: printer_init_def)
  then show ?thesis unfolding printers_inv_def by blast
qed

lemma printers_invI:
  assumes "length (pthr s) = length strs" "pjoined s \<le> Suc (length strs)"
    "\<And>i. i < length strs \<Longrightarrow> i < pjoined s \<Longrightarrow> pthr s ! i = PDone"
    "rep (plock s) h" "\<And>i. h = Some i \<Longrightarrow> i < length strs"
    "\<And>i. i < length strs \<Longrightarrow> place_ok strs h i (pthr s ! i)" "lines_out strs h order s"
  shows "printers_inv rep strs s"
  using assms unfolding printers_inv_def printers_at_def by blast

text \<open>A thread that moves was not joined, so \<^verbatim>\<open>main\<close> has not printed its line.\<close>

lemma not_joined:
  assumes "\<And>i. i < length strs \<Longrightarrow> i < pjoined s \<Longrightarrow> pthr s ! i = PDone" "i < length strs" "pthr s ! i \<noteq> PDone"
  shows "pjoined s \<le> i" "pjoined s \<noteq> Suc (length strs)"
  using assms by (meson leI) (use assms in force)

context exclusion_lock
begin

lemma printers_inv_main:
  assumes inv: "printers_inv rep strs s" and step: "printer_main s = Some t"
  shows "printers_inv rep strs t"
proof -
  from inv obtain h order where at: "printers_at rep strs h order s" unfolding printers_inv_def by blast
  note I = printers_atD [OF at]
  consider (join) "pjoined s < length strs" "pthr s ! pjoined s = PDone" "t = s\<lparr>pjoined := Suc (pjoined s)\<rparr>"
    | (say) "pjoined s = length strs" "t = s\<lparr>pjoined := Suc (pjoined s), pout := pout s @ ''main thread exit....''\<rparr>"
    using step I(1) by (auto simp: printer_main_def split: if_splits)
  then show ?thesis
  proof cases
    case join
    show ?thesis
      by (rule printers_invI [of _ _ _ h order])
        (use I join in \<open>auto simp: less_Suc_eq lines_out_def\<close>)
  next
    case say
    have "h = None"
    proof (cases h)
      case (Some i)
      then show ?thesis using I(3) [of i] I(5) I(6) [of i] say(1) by (simp add: place_ok_def)
    qed simp
    with I(7) say have "lines_out strs h order t" by (simp add: lines_out_def partial_def)
    then show ?thesis
      by (intro printers_invI [of _ _ _ h order]) (use I say in auto)
  qed
qed

lemma printers_inv_lock:
  assumes inv: "printers_inv rep strs s" and i: "i < length strs" "pthr s ! i = PLock str"
    and l: "acquire i (plock s) = Some l"
  shows "printers_inv rep strs (s\<lparr>plock := l, pthr := (pthr s)[i := PPrint str]\<rparr>)" (is "printers_inv rep strs ?t")
proof -
  from inv obtain h order where at: "printers_at rep strs h order s" unfolding printers_inv_def by blast
  note I = printers_atD [OF at]
  from acquireD [OF I(4) l] have h: "h = None" "rep l (Some i)" by simp_all
  have str: "str = strs ! i" using I(6) [OF i(1)] i(2) by (simp add: place_ok_def)
  have "{j. j < length strs \<and> past_print (pthr ?t ! j)} = {j. j < length strs \<and> past_print (pthr s ! j)}"
    using i I(1) by (auto simp: past_print_def nth_list_update)
  with I(7) h(1) str I(1) i(1) have "lines_out strs (Some i) order ?t" by (simp add: lines_out_def partial_def)
  then show ?thesis
  proof (intro printers_invI [of _ _ _ "Some i" order])
    fix j
    assume j: "j < length strs"
    show "place_ok strs (Some i) j (pthr ?t ! j)"
      using I(6) [OF j] h(1) str I(1) i j
      by (auto simp: place_ok_def nth_list_update split: ppc.splits)
  qed (use I h(2) i in \<open>auto simp: nth_list_update\<close>)
qed

lemma printers_inv_print:
  assumes inv: "printers_inv rep strs s" and i: "i < length strs" "pthr s ! i = PPrint str"
  shows "printers_inv rep strs (s\<lparr>pout := pout s @ [fst (printer str)], pthr := (pthr s)[i := snd (printer str)]\<rparr>)"
    (is "printers_inv rep strs ?t")
proof -
  from inv obtain h order where at: "printers_at rep strs h order s" unfolding printers_inv_def by blast
  note I = printers_atD [OF at]
  from I(6) [OF i(1)] i(2) obtain pre where h: "h = Some i" and pre: "strs ! i = pre @ str"
    by (auto simp: place_ok_def)
  have j: "pjoined s \<noteq> Suc (length strs)" using not_joined(2) [OF I(3) i(1)] i(2) by simp
  have place: "place_ok strs h k (pthr ?t ! k)" if "k < length strs" for k
  proof (cases "k = i")
    case True
    with I(1) i(1) h pre show ?thesis by (cases str) (auto simp: place_ok_def intro: exI [of _ "pre @ [hd str]"])
  qed (use I(6) [OF that] in simp)
  obtain order' where "lines_out strs h order' ?t"
  proof (cases str)
    case Nil
    have "{k. k < length strs \<and> past_print (pthr ?t ! k)} = insert i {k. k < length strs \<and> past_print (pthr s ! k)}"
      using i I(1) Nil by (auto simp: past_print_def nth_list_update)
    moreover have "i \<notin> set order" using I(7) i(2) by (simp add: lines_out_def past_print_def)
    ultimately have "lines_out strs h (order @ [i]) ?t"
      using I(1,7) h pre i j Nil by (simp add: lines_out_def partial_def line_def)
    then show ?thesis by (rule that)
  next
    case (Cons c cs)
    have "{k. k < length strs \<and> past_print (pthr ?t ! k)} = {k. k < length strs \<and> past_print (pthr s ! k)}"
      using i I(1) Cons by (auto simp: past_print_def nth_list_update)
    with I(1,7) h pre i j Cons have "lines_out strs h order ?t"
      by (simp add: lines_out_def partial_def)
    then show ?thesis by (rule that)
  qed
  then show ?thesis
  proof (intro printers_invI [of _ _ _ h order'])
    fix k
    assume "k < length strs" "k < pjoined ?t"
    then have "pthr s ! k = PDone" using I(3) by simp
    with i(2) show "pthr ?t ! k = PDone" by (cases "k = i") simp_all
  qed (use I place in auto)
qed

lemma printers_inv_unlock:
  assumes inv: "printers_inv rep strs s" and i: "i < length strs" "pthr s ! i = PUnlock"
  shows "printers_inv rep strs (s\<lparr>plock := release i (plock s), pthr := (pthr s)[i := PDone]\<rparr>)" (is "printers_inv rep strs ?t")
proof -
  from inv obtain h order where at: "printers_at rep strs h order s" unfolding printers_inv_def by blast
  note I = printers_atD [OF at]
  have h: "h = Some i" using I(6) [OF i(1)] i(2) by (simp add: place_ok_def)
  have r: "rep (release i (plock s)) None" using I(4) h release_held by simp
  have "{k. k < length strs \<and> past_print (pthr ?t ! k)} = {k. k < length strs \<and> past_print (pthr s ! k)}"
    using i I(1) by (auto simp: past_print_def nth_list_update)
  with I(7) h i have "lines_out strs None order ?t" by (simp add: lines_out_def partial_def)
  then show ?thesis
  proof (intro printers_invI [of _ _ _ None order])
    fix k
    assume k: "k < length strs"
    show "place_ok strs None k (pthr ?t ! k)"
      using I(6) [OF k] h I(1) i k by (auto simp: place_ok_def nth_list_update split: ppc.splits)
  next
    fix k
    assume "k < length strs" "k < pjoined ?t"
    then show "pthr ?t ! k = PDone" using I(1,3) by (cases "k = i") simp_all
  qed (use I(1,2) r in auto)
qed

lemma printers_inv_exec:
  assumes inv: "printers_inv rep strs s" and step: "printer_exec acquire release a s = Some t"
  shows "printers_inv rep strs t"
proof (cases a)
  case None
  then show ?thesis using printers_inv_main [OF inv] step by (simp add: printer_exec_def)
next
  case (Some i)
  have len: "length (pthr s) = length strs" using inv by (auto simp: printers_inv_def printers_at_def)
  with step Some have i: "i < length strs" and thr: "printer_thread acquire release i s = Some t"
    by (auto simp: printer_exec_def split: if_splits)
  then show ?thesis
    using printers_inv_lock [OF inv i] printers_inv_print [OF inv i] printers_inv_unlock [OF inv i]
    by (cases "pthr s ! i") (auto simp: printer_thread_def split: option.splits)
qed


text \<open>When nobody can move, \<^verbatim>\<open>main\<close> has printed its line.\<close>

lemma printers_stuck:
  assumes "printers_inv rep strs s" "\<And>a. printer_exec acquire release a s = None"
  shows "pjoined s = Suc (length strs)"
proof (rule ccontr)
  assume j: "pjoined s \<noteq> Suc (length strs)"
  from assms(1) obtain h order where at: "printers_at rep strs h order s" unfolding printers_inv_def by blast
  note I = printers_atD [OF at]
  have main: "printer_main s = None" using assms(2) [of None] by (simp add: printer_exec_def)
  with I(1,2) j have less: "pjoined s < length strs" by (auto simp: printer_main_def split: if_splits)
  have thr: "printer_thread acquire release i s = None" if "i < length strs" for i
    using assms(2) [of "Some i"] that I(1) by (simp add: printer_exec_def)
  show False
  proof (cases h)
    case (Some i)
    then show False using I(5) [of i] I(6) [of i] thr [of i]
      by (cases "pthr s ! i") (simp_all add: place_ok_def printer_thread_def)
  next
    case None
    with I(4) acquire_free obtain l where "acquire (pjoined s) (plock s) = Some l" by blast
    then show False using None I(1) I(6) [OF less] thr [OF less] main less
      by (cases "pthr s ! pjoined s") (simp_all add: place_ok_def printer_thread_def printer_main_def)
  qed
qed

text \<open>What is out then: every line once, in some order, and the last one.\<close>

lemma printers_finished:
  assumes "printers_inv rep strs s" "pjoined s = Suc (length strs)"
  shows "\<exists>order. distinct order \<and> set order = {..<length strs}
     \<and> pout s = concat (map (\<lambda>i. line (strs ! i)) order) @ ''main thread exit....''"
proof -
  from assms(1) obtain h order where at: "printers_at rep strs h order s" unfolding printers_inv_def by blast
  note I = printers_atD [OF at]
  have "h = None"
  proof (cases h)
    case (Some i)
    then show ?thesis using I(3) [of i] I(5) I(6) [of i] assms(2) by (simp add: place_ok_def)
  qed simp
  moreover have "set order = {..<length strs}" using I(3,7) assms(2) by (auto simp: lines_out_def past_print_def)
  ultimately show ?thesis using I(7) assms(2) by (auto simp: lines_out_def partial_def)
qed

text \<open>The program runs over every such lock as it runs over the mutex.\<close>

definition sim :: "byte list list \<Rightarrow> 'l printers \<Rightarrow> nat option printers \<Rightarrow> bool" where
  "sim strs s m \<longleftrightarrow> rep (plock s) (plock m) \<and> pthr s = pthr m \<and> pjoined s = pjoined m \<and> pout s = pout m
     \<and> printers_inv (=) strs m"

lemma sim_exec:
  assumes "sim strs s m"
  shows "rel_option (sim strs) (printer_exec acquire release a s) (printer_exec mutex_lock mutex_unlock a m)"
proof -
  from assms have S: "rep (plock s) (plock m)" "pthr s = pthr m" "pjoined s = pjoined m" "pout s = pout m"
    and inv: "printers_inv (=) strs m" by (simp_all add: sim_def)
  have next_inv: "printers_inv (=) strs m'" if "printer_exec mutex_lock mutex_unlock a m = Some m'" for m'
    using mutex.printers_inv_exec [OF inv that] .
  show ?thesis
  proof (cases a)
    case None
    with S next_inv show ?thesis by (auto simp: printer_exec_def printer_main_def sim_def)
  next
    case (Some i)
    show ?thesis
    proof (cases "i < length (pthr m)")
      case True
      have len: "length (pthr m) = length strs" using inv by (auto simp: printers_inv_def printers_at_def)
      show ?thesis
      proof (cases "pthr m ! i")
        case (PLock str)
        with acquire_sim [OF S(1), of i] S True Some next_inv show ?thesis
          by (auto simp: printer_exec_def printer_thread_def sim_def option_rel_Some1 option_rel_Some2
              split: option.splits)
      next
        case PUnlock
        from inv obtain h order where at: "printers_at (=) strs h order m" unfolding printers_inv_def by blast
        with printers_atD(6) [OF at, of i] True len PUnlock have "plock m = Some i"
          using printers_atD(4) [OF at] by (simp add: place_ok_def)
        with release_held S(1) have "rep (release i (plock s)) (mutex_unlock i (plock m))"
          by (simp add: mutex_unlock_def)
        with S True Some PUnlock next_inv show ?thesis
          by (auto simp: printer_exec_def printer_thread_def sim_def)
      qed (use S True Some next_inv in \<open>auto simp: printer_exec_def printer_thread_def sim_def\<close>)
    qed (use S Some in \<open>simp add: printer_exec_def\<close>)
  qed
qed

lemma sim_run:
  assumes "sim strs s m"
  shows "rel_option (sim strs) (run_actions (printer_exec acquire release) as s)
     (run_actions (printer_exec mutex_lock mutex_unlock) as m)"
  using assms
proof (induction as arbitrary: s m)
  case (Cons a as)
  from sim_exec [OF Cons.prems, of a] show ?case
    by (cases rule: option.rel_cases) (simp_all add: Cons.IH)
qed simp

end

subsection \<open>Termination\<close>

fun pwork :: "ppc \<Rightarrow> nat" where
  "pwork (PLock str) = length str + 3"
| "pwork (PPrint rest) = length rest + 2"
| "pwork PUnlock = 1"
| "pwork PDone = 0"

definition work :: "'l printers \<Rightarrow> nat" where
  "work s = sum_list (map pwork (pthr s)) + (Suc (length (pthr s)) - pjoined s)"

lemma printer_exec_work:
  assumes "printer_exec acquire release a s = Some t"
  shows "work t < work s"
proof (cases a)
  case None
  with assms show ?thesis by (auto simp: printer_exec_def printer_main_def work_def split: if_splits)
next
  case (Some i)
  with assms have i: "i < length (pthr s)" and step: "printer_thread acquire release i s = Some t"
    by (auto simp: printer_exec_def split: if_splits)
  obtain pc where pc: "pthr t = (pthr s)[i := pc]" "pwork pc < pwork (pthr s ! i)" "pjoined t = pjoined s"
  proof (cases "pthr s ! i")
    case (PPrint str)
    with step that show ?thesis by (cases str) (auto simp: printer_thread_def)
  qed (use step that in \<open>auto simp: printer_thread_def split: option.splits\<close>)
  with sum_list_map_update [OF i, of pwork pc] i show ?thesis by (simp add: work_def)
qed

lemma printer_run_work:
  "run_actions (printer_exec acquire release) as s = Some t \<Longrightarrow> length as + work t \<le> work s"
proof (induction as arbitrary: s)
  case (Cons a as)
  then obtain u where "printer_exec acquire release a s = Some u" "run_actions (printer_exec acquire release) as u = Some t"
    by (auto split: option.splits)
  with Cons.IH [of u] printer_exec_work [of acquire release a s u] show ?case by simp
qed simp

subsection \<open>Properties\<close>

interpretation mutex_printers: invariant_system "\<lambda>s. s = printer_mutex_start"
  "printer_exec mutex_lock mutex_unlock" "printers_inv (=) [''hello'', ''world'']"
proof unfold_locales
  fix s :: "nat option printers"
  assume "s = printer_mutex_start"
  then show "printers_inv (=) [''hello'', ''world''] s"
    unfolding printer_mutex_start_def by (simp only: printers_inv_init)
qed (rule mutex.printers_inv_exec)

lemma two_orders: "distinct order \<Longrightarrow> set order = {..<2::nat} \<Longrightarrow> order = [0, 1] \<or> order = [1, 0]"
proof -
  assume d: "distinct order" "set order = {..<2::nat}"
  then have "length order = 2" by (metis card_lessThan distinct_card)
  then obtain x y where "order = [x, y]" by (auto simp: numeral_2_eq_2 length_Suc_conv)
  with d have "x \<noteq> y" "x < 2" "y < 2" "order = [x, y]" by auto
  then show ?thesis by (cases x; cases y) auto
qed

text \<open>C23: With the mutex the two words never mix: every execution ends after at most 19 steps, nobody is left
  waiting, and what has been printed then is one of the two lines, the other one, and the line of \<^verbatim>\<open>main\<close>.\<close>

theorem printers_mutex_output:
  assumes "run_actions (printer_exec mutex_lock mutex_unlock) as printer_mutex_start = Some s"
  shows "length as \<le> 19 \<and> ((\<exists>a t. printer_exec mutex_lock mutex_unlock a s = Some t)
     \<or> pout s \<in> {line ''hello'' @ line ''world'' @ ''main thread exit....'', line ''world'' @ line ''hello'' @ ''main thread exit....''})"
proof
  let ?strs = "[''hello'', ''world'']"
  have w: "work printer_mutex_start = 19" by (simp add: work_def printer_mutex_start_def printer_init_def)
  show "length as \<le> 19" using printer_run_work [OF assms] unfolding w by simp
  have inv: "printers_inv (=) ?strs s"
    by (rule mutex_printers.inv_run [OF _ assms]) (simp add: printer_mutex_start_def printers_inv_init)
  show "(\<exists>a t. printer_exec mutex_lock mutex_unlock a s = Some t)
     \<or> pout s \<in> {line ''hello'' @ line ''world'' @ ''main thread exit....'', line ''world'' @ line ''hello'' @ ''main thread exit....''}"
  proof (cases "\<exists>a t. printer_exec mutex_lock mutex_unlock a s = Some t")
    case False
    then have "pjoined s = Suc (length ?strs)" by (intro mutex.printers_stuck [OF inv]) auto
    from mutex.printers_finished [OF inv this] obtain order where o: "distinct order" "set order = {..<length ?strs}"
      "pout s = concat (map (\<lambda>i. line (?strs ! i)) order) @ ''main thread exit....''" by blast
    have "order = [0, 1] \<or> order = [1, 0]" using two_orders [OF o(1)] o(2) by (simp add: numeral_2_eq_2)
    then show ?thesis using o(3) by auto
  qed blast
qed

definition printers_view :: "'l printers \<Rightarrow> ppc list \<times> nat \<times> byte list" where
  "printers_view s = (pthr s, pjoined s, pout s)"

text \<open>The semaphore that starts at 1 is as good as the mutex: under every schedule the two programs go through
  the same steps, block at the same places and print the same.\<close>

theorem printers_sem_equals_mutex:
  "map_option printers_view (run_actions (printer_exec mutex_lock mutex_unlock) as printer_mutex_start) =
   map_option printers_view (run_actions (printer_exec sem_wait sem_post) as (projr (printer_sem_start True)))"
proof -
  have "semaphore.sim [''hello'', ''world''] (projr (printer_sem_start True)) printer_mutex_start"
    by (simp add: semaphore.sim_def printer_sem_start_def printer_mutex_start_def printers_inv_init)
      (simp add: printer_init_def sem_rep_def)
  from semaphore.sim_run [OF this, of as] show ?thesis
    by (cases rule: option.rel_cases) (simp_all add: semaphore.sim_def printers_view_def)
qed

subsection \<open>Instances\<close>

theorem printers_mutex_output_witness:
  "\<exists>s. run_actions (printer_exec mutex_lock mutex_unlock) (replicate 8 (Some 1) @ replicate 8 (Some 0) @ replicate 3 None)
      printer_mutex_start = Some s \<and> ((\<exists>a t. printer_exec mutex_lock mutex_unlock a s = Some t)
      \<or> pout s \<in> {line ''hello'' @ line ''world'' @ ''main thread exit....'', line ''world'' @ line ''hello'' @ ''main thread exit....''})"
proof -
  have "\<exists>s. run_actions (printer_exec mutex_lock mutex_unlock)
      (replicate 8 (Some 1) @ replicate 8 (Some 0) @ replicate 3 None) printer_mutex_start = Some s"
    by (simp add: eval_nat_numeral printer_exec_def printer_thread_def printer_main_def printer_mutex_start_def
        printer_init_def mutex_lock_def mutex_unlock_def)
  then show ?thesis using printers_mutex_output by blast
qed

end
