(* ===== verification/RwLock.thy ===== *)
theory RwLock
  imports Transition
begin

section \<open>Readers and writers (2\_pthread\_rwlock.c)\<close>

text \<open>
  \<^verbatim>\<open>concurrence_linux/7_thread_sync/2_pthread_rwlock.c\<close>: five readers print the shared \<^verbatim>\<open>num\<close>, three writers increment and
  print it, for ever, under a read-write lock. The lock is the number of readers inside and the writer inside. An increment
  is a load and a store; the increment of \<^verbatim>\<open>INT_MAX\<close> is undefined behaviour (\<open>rundef\<close>). The output is a list of who printed what.
\<close>

datatype rpc = RLock | RPrint | RUnlock | RSleep
datatype wpc = WLock | WLoad | WStore int | WPrint | WUnlock | WSleep

datatype thr = Reader rpc | Writer wpc
datatype say = ReadData nat int | UpdateData nat int

record rwstate =
  num :: int
  rw_readers :: nat
  rw_writer :: "nat option"
  rthr :: "thr list"
  rlog :: "say list"
  rundef :: bool

definition INT_TOP :: int where "INT_TOP = 2147483647"

definition rput :: "nat \<Rightarrow> thr \<Rightarrow> rwstate \<Rightarrow> rwstate" where
  "rput i t s = s\<lparr>rthr := (rthr s)[i := t]\<rparr>"

definition lock_read :: "nat \<Rightarrow> rpc \<Rightarrow> rwstate \<Rightarrow> rwstate option" where
  "lock_read i pc s =
     (case pc of
        RLock \<Rightarrow> (if rw_writer s = None then Some (rput i (Reader RPrint) (s\<lparr>rw_readers := rw_readers s + 1\<rparr>)) else None)
      | RPrint \<Rightarrow> Some (rput i (Reader RUnlock) (s\<lparr>rlog := rlog s @ [ReadData i (num s)]\<rparr>))
      | RUnlock \<Rightarrow> Some (rput i (Reader RSleep) (s\<lparr>rw_readers := rw_readers s - 1\<rparr>))
      | RSleep \<Rightarrow> Some (rput i (Reader RLock) s))"

definition lock_write :: "nat \<Rightarrow> wpc \<Rightarrow> rwstate \<Rightarrow> rwstate option" where
  "lock_write i pc s =
     (case pc of
        WLock \<Rightarrow> (if rw_writer s = None \<and> rw_readers s = 0 then Some (rput i (Writer WLoad) (s\<lparr>rw_writer := Some i\<rparr>)) else None)
      | WLoad \<Rightarrow> Some (rput i (Writer (WStore (num s))) s)
      | WStore n \<Rightarrow> (if n = INT_TOP then Some (s\<lparr>rundef := True\<rparr>) else Some (rput i (Writer WPrint) (s\<lparr>num := n + 1\<rparr>)))
      | WPrint \<Rightarrow> Some (rput i (Writer WUnlock) (s\<lparr>rlog := rlog s @ [UpdateData i (num s)]\<rparr>))
      | WUnlock \<Rightarrow> Some (rput i (Writer WSleep) (s\<lparr>rw_writer := None\<rparr>))
      | WSleep \<Rightarrow> Some (rput i (Writer WLock) s))"

text \<open>Nothing can be said of an execution after undefined behaviour.\<close>

definition rw_exec :: "nat \<Rightarrow> rwstate \<Rightarrow> rwstate option" where
  "rw_exec i s =
     (if rundef s \<or> i \<ge> length (rthr s) then None
      else case rthr s ! i of Reader pc \<Rightarrow> lock_read i pc s | Writer pc \<Rightarrow> lock_write i pc s)"

definition rw_start :: rwstate where
  "rw_start = \<lparr>num = 0, rw_readers = 0, rw_writer = None,
     rthr = map (\<lambda>i. if i < 5 then Reader RLock else Writer WLock) [0..<8], rlog = [], rundef = False\<rparr>"

subsection \<open>The invariant\<close>

definition reading :: "thr \<Rightarrow> bool" where
  "reading t \<longleftrightarrow> t = Reader RPrint \<or> t = Reader RUnlock"

definition writing :: "thr \<Rightarrow> bool" where
  "writing t \<longleftrightarrow> (\<exists>n. t = Writer (WStore n)) \<or> t = Writer WLoad \<or> t = Writer WPrint \<or> t = Writer WUnlock"

lemma reading_simps [simp]:
  "reading (Writer pc) = False" "reading (Reader RLock) = False" "reading (Reader RSleep) = False"
  "reading (Reader RPrint)" "reading (Reader RUnlock)"
  by (simp_all add: reading_def)

lemma writing_simps [simp]:
  "writing (Reader pc') = False" "writing (Writer WLock) = False" "writing (Writer WSleep) = False"
  "writing (Writer WLoad)" "writing (Writer WPrint)" "writing (Writer WUnlock)" "writing (Writer (WStore n))"
  by (simp_all add: writing_def)

fun updates :: "say list \<Rightarrow> int list" where
  "updates [] = []"
| "updates (UpdateData i n # l) = n # updates l"
| "updates (ReadData i n # l) = updates l"

fun reads :: "say list \<Rightarrow> int list" where
  "reads [] = []"
| "reads (ReadData i n # l) = n # reads l"
| "reads (UpdateData i n # l) = reads l"

lemma updates_append [simp]: "updates (l @ m) = updates l @ updates m"
  by (induction l rule: updates.induct) auto

lemma reads_append [simp]: "reads (l @ m) = reads l @ reads m"
  by (induction l rule: reads.induct) auto

text \<open>The number of increments that have been printed: one less than \<^verbatim>\<open>num\<close> between an increment and its output.\<close>

definition printed :: "rwstate \<Rightarrow> int" where
  "printed s = (case rw_writer s of Some i \<Rightarrow> (if rthr s ! i = Writer WPrint then num s - 1 else num s) | None \<Rightarrow> num s)"

definition rw_lock_inv :: "rwstate \<Rightarrow> bool" where
  "rw_lock_inv s \<longleftrightarrow> int (rw_readers s) = count_if reading (rthr s)
     \<and> (\<forall>i < length (rthr s). writing (rthr s ! i) \<longleftrightarrow> rw_writer s = Some i)
     \<and> (rw_writer s = None \<or> rw_readers s = 0)"

definition rw_data_inv :: "rwstate \<Rightarrow> bool" where
  "rw_data_inv s \<longleftrightarrow> 0 \<le> num s \<and> 0 \<le> printed s \<and> num s \<le> INT_TOP
     \<and> (\<forall>i < length (rthr s). \<forall>n. rthr s ! i = Writer (WStore n) \<longrightarrow> n = num s)
     \<and> updates (rlog s) = [1..printed s]
     \<and> sorted (reads (rlog s)) \<and> (\<forall>n \<in> set (reads (rlog s)). 0 \<le> n \<and> n \<le> num s)"

lemma rw_lock_invI:
  assumes inv: "rw_lock_inv s" and i: "i < length (rthr s)" and thr: "rthr t = (rthr s)[i := x]"
    and readers: "int (rw_readers t) = int (rw_readers s) - (if reading (rthr s ! i) then 1 else 0) + (if reading x then 1 else 0)"
    and mine: "writing x \<longleftrightarrow> rw_writer t = Some i"
    and others: "\<And>j. j \<noteq> i \<Longrightarrow> rw_writer t = Some j \<longleftrightarrow> rw_writer s = Some j"
    and excl: "rw_writer t = None \<or> rw_readers t = 0"
  shows "rw_lock_inv t"
  unfolding rw_lock_inv_def
proof (intro conjI allI impI)
  show "int (rw_readers t) = count_if reading (rthr t)"
    using inv readers i by (simp add: thr count_if_update rw_lock_inv_def)
  fix j
  assume "j < length (rthr t)"
  then show "writing (rthr t ! j) \<longleftrightarrow> rw_writer t = Some j"
    using inv i mine others [of j] by (cases "j = i") (simp_all add: thr rw_lock_inv_def)
qed (rule excl)

lemma rw_lock_inv_reader:
  assumes inv: "rw_lock_inv s" and i: "i < length (rthr s)" "rthr s ! i = Reader pc" and step: "lock_read i pc s = Some t"
  shows "rw_lock_inv t"
proof -
  have w: "rw_writer s \<noteq> Some i" using inv i by (auto simp: rw_lock_inv_def)
  have pos: "0 < rw_readers s" if "pc = RPrint \<or> pc = RUnlock"
    using inv i that count_if_pos [of i "rthr s" reading] by (auto simp: rw_lock_inv_def)
  have excl: "rw_writer s = None \<or> rw_readers s = 0" using inv by (simp add: rw_lock_inv_def)
  have x: "rthr t = (rthr s)[i := rthr t ! i]"
    using step i(1) by (cases pc) (auto simp: lock_read_def rput_def split: if_splits)
  show ?thesis
    by (rule rw_lock_invI [OF inv i(1) x])
       (use step i w pos excl in \<open>cases pc; auto simp: lock_read_def rput_def split: if_splits\<close>)+
qed

lemma rw_lock_inv_writer:
  assumes inv: "rw_lock_inv s" and i: "i < length (rthr s)" "rthr s ! i = Writer pc" and step: "lock_write i pc s = Some t"
  shows "rw_lock_inv t"
proof -
  have w: "writing (Writer pc) \<longleftrightarrow> rw_writer s = Some i" using inv i by (auto simp: rw_lock_inv_def)
  have excl: "rw_writer s = None \<or> rw_readers s = 0" using inv by (simp add: rw_lock_inv_def)
  have x: "rthr t = (rthr s)[i := rthr t ! i]"
    using step i(1) by (cases pc) (auto simp: lock_write_def rput_def split: if_splits)
  show ?thesis
    by (rule rw_lock_invI [OF inv i(1) x])
       (use step i w excl in \<open>cases pc; auto simp: lock_write_def rput_def split: if_splits\<close>)+
qed

lemma only_writer:
  assumes "rw_lock_inv s" "i < length (rthr s)" "writing (rthr s ! i)"
  shows "rw_writer s = Some i" "rw_readers s = 0"
    "j < length (rthr s) \<Longrightarrow> j \<noteq> i \<Longrightarrow> \<not> writing (rthr s ! j)" "j < length (rthr s) \<Longrightarrow> \<not> reading (rthr s ! j)"
proof -
  show w: "rw_writer s = Some i" using assms by (simp add: rw_lock_inv_def)
  show r: "rw_readers s = 0" using assms(1) w by (simp add: rw_lock_inv_def)
  show "\<not> writing (rthr s ! j)" if "j < length (rthr s)" "j \<noteq> i" using assms(1) w that by (simp add: rw_lock_inv_def)
  have "count_if reading (rthr s) = 0" using assms(1) r by (simp add: rw_lock_inv_def)
  then show "\<not> reading (rthr s ! j)" if "j < length (rthr s)" using that by (simp add: count_if_zero_iff)
qed

text \<open>A thread that does not hold the number it has loaded changes neither \<^verbatim>\<open>num\<close> nor what has been printed.\<close>

lemma rw_data_inv_quiet:
  assumes "rw_data_inv s" "num t = num s" "rlog t = rlog s" "rthr t = (rthr s)[i := x]"
    "\<And>n. x = Writer (WStore n) \<Longrightarrow> n = num s" "printed t = printed s"
  shows "rw_data_inv t"
  unfolding rw_data_inv_def
proof (intro conjI allI impI)
  fix j n
  assume "j < length (rthr t)" "rthr t ! j = Writer (WStore n)"
  then show "n = num t" using assms(1,2,4,5) by (cases "j = i") (auto simp: rw_data_inv_def)
qed (use assms in \<open>simp_all add: rw_data_inv_def\<close>)

lemma rw_data_inv_reader:
  assumes inv: "rw_lock_inv s" "rw_data_inv s" and i: "i < length (rthr s)" "rthr s ! i = Reader pc"
    and step: "lock_read i pc s = Some t"
  shows "rw_data_inv t"
proof -
  have w: "rw_writer s \<noteq> Some i" using inv i by (auto simp: rw_lock_inv_def)
  show ?thesis
  proof (cases "pc = RPrint")
    case True
    with step have t: "t = rput i (Reader RUnlock) (s\<lparr>rlog := rlog s @ [ReadData i (num s)]\<rparr>)" by (simp add: lock_read_def)
    have p: "printed t = printed s" using w t by (auto simp: printed_def rput_def split: option.split)
    have st: "rthr t ! j = Writer (WStore n) \<longleftrightarrow> j \<noteq> i \<and> rthr s ! j = Writer (WStore n)" for j n
      using i(1) t by (cases "j = i") (simp_all add: rput_def)
    show ?thesis using inv(2) p st t by (auto simp: rw_data_inv_def sorted_append rput_def)
  next
    case False
    obtain x where x: "rthr t = (rthr s)[i := Reader x]" using step by (cases pc) (auto simp: lock_read_def rput_def split: if_splits)
    show ?thesis
      by (rule rw_data_inv_quiet [OF inv(2) _ _ x])
         (use step w False in \<open>cases pc; auto simp: lock_read_def rput_def printed_def split: if_splits option.split\<close>)+
  qed
qed

lemma rw_data_inv_writer:
  assumes inv: "rw_lock_inv s" "rw_data_inv s" and i: "i < length (rthr s)" "rthr s ! i = Writer pc"
    and step: "lock_write i pc s = Some t"
  shows "rw_data_inv t"
proof (cases "(\<exists>n. pc = WStore n) \<or> pc = WPrint")
  case True
  with i(2) have wr: "writing (rthr s ! i)" by auto
  note only = only_writer [OF inv(1) i(1) wr]
  have nobody: "rthr s ! j \<noteq> Writer (WStore m)" if "j < length (rthr s)" "j \<noteq> i" for j m
    using only(3) [OF that] by auto
  from True show ?thesis
  proof
    assume "\<exists>n. pc = WStore n"
    then have pc: "pc = WStore (num s)" using inv(2) i by (auto simp: rw_data_inv_def)
    show ?thesis
    proof (cases "num s = INT_TOP")
      case True
      with step pc have t: "t = s\<lparr>rundef := True\<rparr>" by (simp add: lock_write_def)
      then have "printed t = printed s" by (simp add: printed_def split: option.split)
      with inv(2) t show ?thesis by (simp add: rw_data_inv_def)
    next
      case False
      with step pc have t: "t = rput i (Writer WPrint) (s\<lparr>num := num s + 1\<rparr>)" by (simp add: lock_write_def)
      have p: "printed t = printed s" using only(1) i pc t by (simp add: printed_def rput_def)
      have "rthr t ! j \<noteq> Writer (WStore m)" if "j < length (rthr s)" for j m
        using nobody that i(1) t by (cases "j = i") (simp_all add: rput_def)
      with inv(2) p False t show ?thesis by (fastforce simp: rw_data_inv_def rput_def)
    qed
  next
    assume pc: "pc = WPrint"
    with step have t: "t = rput i (Writer WUnlock) (s\<lparr>rlog := rlog s @ [UpdateData i (num s)]\<rparr>)" by (simp add: lock_write_def)
    have p: "printed s = num s - 1" "printed t = num s" using only(1) i pc t by (simp_all add: printed_def rput_def)
    have n: "0 < num s" using inv(2) p(1) by (simp add: rw_data_inv_def)
    have "rthr t ! j \<noteq> Writer (WStore m)" if "j < length (rthr s)" for j m
      using nobody that i(1) t by (cases "j = i") (simp_all add: rput_def)
    moreover have "updates (rlog t) = [1..num s]"
      using inv(2) p(1) n t upto_rec2 [of 1 "num s"] by (simp add: rw_data_inv_def rput_def)
    ultimately show ?thesis using inv(2) p(2) t by (simp add: rw_data_inv_def rput_def)
  qed
next
  case False
  have x: "rthr t = (rthr s)[i := rthr t ! i]" "\<And>n. rthr t ! i = Writer (WStore n) \<Longrightarrow> n = num s"
    using step False i(1) by (cases pc; auto simp: lock_write_def rput_def split: if_splits)+
  have w: "writing (Writer pc) \<longleftrightarrow> rw_writer s = Some i" using inv i by (auto simp: rw_lock_inv_def)
  show ?thesis
    by (rule rw_data_inv_quiet [OF inv(2) _ _ x(1)])
       (use step w False i x(2) in \<open>cases pc; auto simp: lock_write_def rput_def printed_def split: if_splits option.split\<close>)+
qed

definition rw_inv :: "rwstate \<Rightarrow> bool" where
  "rw_inv s \<longleftrightarrow> rw_lock_inv s \<and> rw_data_inv s"

lemma rw_inv_exec: "rw_inv s \<Longrightarrow> rw_exec i s = Some t \<Longrightarrow> rw_inv t"
  by (auto simp: rw_inv_def rw_exec_def not_le split: if_splits thr.splits
      intro: rw_lock_inv_reader rw_lock_inv_writer rw_data_inv_reader rw_data_inv_writer)

lemma rw_inv_start: "rw_inv rw_start"
proof -
  have thr: "\<not> writing t \<and> \<not> reading t \<and> t \<noteq> Writer (WStore n)" if "t \<in> set (rthr rw_start)" for t n
    using that by (auto simp: rw_start_def split: if_splits)
  have start: "num rw_start = 0" "rw_readers rw_start = 0" "rw_writer rw_start = None" "rlog rw_start = []"
    by (simp_all add: rw_start_def)
  have "count_if reading (rthr rw_start) = 0" using thr by (auto simp: count_if_zero_iff)
  then have "rw_lock_inv rw_start" using thr by (simp add: rw_lock_inv_def start)
  moreover have "rw_data_inv rw_start"
    using thr nth_mem by (fastforce simp: rw_data_inv_def start printed_def INT_TOP_def)
  ultimately show ?thesis by (simp add: rw_inv_def)
qed

interpretation rwlock: invariant_system "\<lambda>s. s = rw_start" rw_exec rw_inv
  by unfold_locales (auto intro: rw_inv_exec rw_inv_start)

subsection \<open>Properties\<close>

text \<open>While a writer is between taking and releasing the lock no other writer and no reader is.\<close>

theorem rwlock_exclusion:
  assumes "reach (\<lambda>s. s = rw_start) (lstep rw_exec) s" "i < length (rthr s)" "writing (rthr s ! i)"
    "j < length (rthr s)" "j \<noteq> i"
  shows "\<not> writing (rthr s ! j) \<and> \<not> reading (rthr s ! j)"
  using rwlock.inv_reach [OF assms(1)] only_writer(3,4) [of s i j] assms(2-5) by (simp add: rw_inv_def)

text \<open>No increment is lost: under every interleaving the writers print 1, 2, 3 and so on without a gap or a repetition,
  at most the last increment is still to be printed, and what the readers print never goes backwards.\<close>

theorem rwlock_counts_updates:
  assumes "reach (\<lambda>s. s = rw_start) (lstep rw_exec) s"
  shows "\<exists>k. updates (rlog s) = [1..k] \<and> num s - 1 \<le> k \<and> k \<le> num s \<and> sorted (reads (rlog s))
     \<and> (\<forall>n \<in> set (reads (rlog s)). 0 \<le> n \<and> n \<le> num s)"
  using rwlock.inv_reach [OF assms]
  by (intro exI [of _ "printed s"]) (auto simp: rw_inv_def rw_data_inv_def printed_def split: option.split)

subsection \<open>Instances\<close>

definition rw_example :: rwstate where
  "rw_example = the (run_actions rw_exec [0, 0, 0, 6, 6, 6, 6] rw_start)"

lemma rw_example_reach: "reach (\<lambda>s. s = rw_start) (lstep rw_exec) rw_example"
  by (rule reach_from_init [of _ rw_start _ "[0, 0, 0, 6, 6, 6, 6]"]) (simp, code_simp)

theorem rwlock_exclusion_witness:
  "\<not> writing (rthr rw_example ! 7) \<and> \<not> reading (rthr rw_example ! 7)"
proof -
  have "length (rthr rw_example) = 8" "rthr rw_example ! 6 = Writer WUnlock" by code_simp+
  then show ?thesis using rwlock_exclusion [OF rw_example_reach, of 6 7] by simp
qed

theorem rwlock_counts_updates_witness: "\<exists>k. updates (rlog rw_example) = [1..k] \<and> k \<le> num rw_example"
  using rwlock_counts_updates [OF rw_example_reach] by blast

end
