(* ===== verification/CondFlag.thy ===== *)
theory CondFlag
  imports Locks
begin

section \<open>A flag and a condition variable (3\_pthread\_cond.c)\<close>

text \<open>
  \<^verbatim>\<open>concurrence_linux/7_thread_sync/3_pthread_cond.c\<close>: thread 1 sets \<^verbatim>\<open>flag\<close> and signals, thread 2 waits while it is not set
  and clears it. \<^verbatim>\<open>pthread_cond_wait\<close> is three steps: release the mutex and sleep, be woken, take the mutex again. A
  thread may be woken without a signal (\<open>CSpurious\<close>), as POSIX allows.
\<close>

datatype f1pc = F1Lock | F1Set | F1Signal | F1Unlock | F1Sleep
datatype f2pc = F2Lock | F2Test | F2Asleep | F2Relock | F2Print | F2Clear | F2Unlock

record cstate =
  cmutex :: "nat option"
  flag :: int
  f1 :: f1pc
  f2 :: f2pc
  sets :: nat         \<comment> \<open>how often thread 1 has set the flag\<close>
  seen :: "int list"  \<comment> \<open>the flag at each line printed by thread 2\<close>

datatype cact = CFun1 | CFun2 | CSpurious

definition fun1 :: "cstate \<Rightarrow> cstate option" where
  "fun1 s =
     (case f1 s of
        F1Lock \<Rightarrow> (case mutex_lock 1 (cmutex s) of None \<Rightarrow> None | Some l \<Rightarrow> Some (s\<lparr>cmutex := l, f1 := F1Set\<rparr>))
      | F1Set \<Rightarrow> Some (s\<lparr>flag := 1, sets := sets s + 1, f1 := F1Signal\<rparr>)
      | F1Signal \<Rightarrow> Some (s\<lparr>f1 := F1Unlock, f2 := (if f2 s = F2Asleep then F2Relock else f2 s)\<rparr>)
      | F1Unlock \<Rightarrow> Some (s\<lparr>cmutex := mutex_unlock 1 (cmutex s), f1 := F1Sleep\<rparr>)
      | F1Sleep \<Rightarrow> Some (s\<lparr>f1 := F1Lock\<rparr>))"

definition fun2 :: "cstate \<Rightarrow> cstate option" where
  "fun2 s =
     (case f2 s of
        F2Lock \<Rightarrow> (case mutex_lock 2 (cmutex s) of None \<Rightarrow> None | Some l \<Rightarrow> Some (s\<lparr>cmutex := l, f2 := F2Test\<rparr>))
      | F2Test \<Rightarrow> Some (if flag s = 0 then s\<lparr>cmutex := mutex_unlock 2 (cmutex s), f2 := F2Asleep\<rparr> else s\<lparr>f2 := F2Print\<rparr>)
      | F2Asleep \<Rightarrow> None
      | F2Relock \<Rightarrow> (case mutex_lock 2 (cmutex s) of None \<Rightarrow> None | Some l \<Rightarrow> Some (s\<lparr>cmutex := l, f2 := F2Print\<rparr>))
      | F2Print \<Rightarrow> Some (s\<lparr>seen := seen s @ [flag s], f2 := F2Clear\<rparr>)
      | F2Clear \<Rightarrow> Some (s\<lparr>flag := 0, f2 := F2Unlock\<rparr>)
      | F2Unlock \<Rightarrow> Some (s\<lparr>cmutex := mutex_unlock 2 (cmutex s), f2 := F2Lock\<rparr>))"

definition cond_exec :: "cact \<Rightarrow> cstate \<Rightarrow> cstate option" where
  "cond_exec a s =
     (case a of
        CFun1 \<Rightarrow> fun1 s
      | CFun2 \<Rightarrow> fun2 s
      | CSpurious \<Rightarrow> (if f2 s = F2Asleep then Some (s\<lparr>f2 := F2Relock\<rparr>) else None))"

text \<open>\<^verbatim>\<open>main\<close>: the exit status when an initialisation fails, the state the threads start in otherwise.\<close>

definition cond_main :: "bool \<Rightarrow> bool \<Rightarrow> int + cstate" where
  "cond_main mutex_ok cond_ok =
     (if \<not> mutex_ok then Inl 1
      else if \<not> cond_ok then Inl 1
      else Inr \<lparr>cmutex = None, flag = 0, f1 = F1Lock, f2 = F2Lock, sets = 0, seen = []\<rparr>)"

definition cond_init :: "cstate \<Rightarrow> bool" where
  "cond_init s \<longleftrightarrow> cond_main True True = Inr s"

subsection \<open>Invariants\<close>

text \<open>Where each thread is inside the mutex, and whose the mutex is therefore.\<close>

fun in1 :: "f1pc \<Rightarrow> bool" where
  "in1 F1Lock = False" | "in1 F1Set = True" | "in1 F1Signal = True" | "in1 F1Unlock = True" | "in1 F1Sleep = False"

fun in2 :: "f2pc \<Rightarrow> bool" where
  "in2 F2Lock = False" | "in2 F2Test = True" | "in2 F2Asleep = False" | "in2 F2Relock = False"
| "in2 F2Print = True" | "in2 F2Clear = True" | "in2 F2Unlock = True"

definition holder :: "f1pc \<Rightarrow> f2pc \<Rightarrow> nat option" where
  "holder p q = (if in1 p then Some 1 else if in2 q then Some 2 else None)"

definition cond_inv :: "cstate \<Rightarrow> bool" where
  "cond_inv s \<longleftrightarrow> cmutex s = holder (f1 s) (f2 s) \<and> \<not> (in1 (f1 s) \<and> in2 (f2 s))
     \<and> flag s \<in> {0, 1}
     \<and> (f1 s = F1Signal \<longrightarrow> flag s = 1)
     \<and> (f2 s = F2Asleep \<and> flag s = 1 \<longrightarrow> f1 s = F1Signal)"

lemma cond_invD:
  assumes "cond_inv s"
  shows "cmutex s = holder (f1 s) (f2 s)" "\<not> (in1 (f1 s) \<and> in2 (f2 s))" "flag s \<in> {0, 1}"
    "f1 s = F1Signal \<Longrightarrow> flag s = 1" "f2 s = F2Asleep \<Longrightarrow> flag s = 1 \<Longrightarrow> f1 s = F1Signal"
  using assms by (simp_all add: cond_inv_def)

lemma cond_inv_fun1:
  assumes inv: "cond_inv s" and step: "fun1 s = Some t"
  shows "cond_inv t"
proof -
  note I = cond_invD [OF inv]
  show ?thesis
  proof (cases "f1 s")
    case F1Lock
    with step I(1) have "\<not> in2 (f2 s)" "t = s\<lparr>cmutex := Some 1, f1 := F1Set\<rparr>"
      by (auto simp: fun1_def mutex_lock_def holder_def split: if_splits)
    with F1Lock I show ?thesis by (auto simp: cond_inv_def holder_def)
  next
    case F1Set
    with step I show ?thesis by (auto simp: fun1_def cond_inv_def holder_def)
  next
    case F1Signal
    with step have "t = s\<lparr>f1 := F1Unlock, f2 := (if f2 s = F2Asleep then F2Relock else f2 s)\<rparr>" by (simp add: fun1_def)
    with F1Signal I show ?thesis by (cases "f2 s") (simp_all add: cond_inv_def holder_def)
  next
    case F1Unlock
    with step I show ?thesis by (auto simp: fun1_def cond_inv_def holder_def mutex_unlock_def)
  next
    case F1Sleep
    with step I show ?thesis by (auto simp: fun1_def cond_inv_def holder_def)
  qed
qed

lemma cond_inv_fun2:
  assumes inv: "cond_inv s" and step: "fun2 s = Some t"
  shows "cond_inv t"
proof -
  note I = cond_invD [OF inv]
  have free: "\<not> in1 (f1 s) \<and> mutex_lock 2 (cmutex s) = Some (Some 2)"
    if "f2 s = F2Lock \<or> f2 s = F2Relock"
    using step I(1) that by (auto simp: fun2_def mutex_lock_def holder_def split: if_splits)
  have sig: "f1 s \<noteq> F1Signal" if "\<not> in1 (f1 s)" using that by auto
  show ?thesis
  proof (cases "f2 s")
    case F2Test
    with step I show ?thesis
      by (cases "flag s = 0") (auto simp: fun2_def cond_inv_def holder_def mutex_unlock_def sig)
  qed (use step I free sig in \<open>auto simp: fun2_def cond_inv_def holder_def mutex_unlock_def\<close>)
qed

lemma cond_inv_exec:
  assumes inv: "cond_inv s" and step: "cond_exec a s = Some t"
  shows "cond_inv t"
proof (cases a)
  case CFun1
  with step show ?thesis using cond_inv_fun1 [OF inv] by (simp add: cond_exec_def)
next
  case CFun2
  with step show ?thesis using cond_inv_fun2 [OF inv] by (simp add: cond_exec_def)
next
  case CSpurious
  with step have "f2 s = F2Asleep" "t = s\<lparr>f2 := F2Relock\<rparr>" by (simp_all add: cond_exec_def split: if_splits)
  with cond_invD(1-4) [OF inv] show ?thesis by (simp add: cond_inv_def holder_def)
qed

lemma cond_inv_init: "cond_init s \<Longrightarrow> cond_inv s"
  by (auto simp: cond_init_def cond_main_def cond_inv_def holder_def)

text \<open>Unless thread 1 can move, the mutex is thread 2's, which can move then.\<close>

lemma cond_enabled:
  assumes "cond_inv s"
  shows "\<exists>a t. cond_exec a s = Some t"
proof (cases "f1 s = F1Lock \<and> cmutex s = Some 2")
  case True
  with assms have "in2 (f2 s)" by (auto simp: cond_inv_def holder_def split: if_splits)
  then have "f2 s \<in> {F2Test, F2Print, F2Clear, F2Unlock}" by (cases "f2 s") simp_all
  then have "\<exists>t. cond_exec CFun2 s = Some t" by (auto simp: cond_exec_def fun2_def)
  then show ?thesis by blast
next
  case False
  with cond_invD(1) [OF assms] have "f1 s \<noteq> F1Lock \<or> cmutex s = None" by (auto simp: holder_def)
  then have "\<exists>t. cond_exec CFun1 s = Some t" by (cases "f1 s") (auto simp: cond_exec_def fun1_def mutex_lock_def)
  then show ?thesis by blast
qed

interpretation cond: live_system cond_init cond_exec cond_inv
  by unfold_locales (auto intro: cond_inv_exec cond_inv_init cond_enabled)

text \<open>Without spurious wakeups thread 2 prints only when the flag is set, and no more often than it was set.\<close>

definition cond_quiet :: "cact \<Rightarrow> cstate \<Rightarrow> cstate option" where
  "cond_quiet a s = (if a = CSpurious then None else cond_exec a s)"

definition quiet_inv :: "cstate \<Rightarrow> bool" where
  "quiet_inv s \<longleftrightarrow> cond_inv s \<and> (f2 s \<in> {F2Relock, F2Print, F2Clear} \<longrightarrow> flag s = 1)
     \<and> set (seen s) \<subseteq> {1}
     \<and> int (length (seen s)) + (if f2 s = F2Clear then 0 else flag s) \<le> int (sets s)"

lemma quiet_inv_exec:
  assumes inv: "quiet_inv s" and step: "cond_quiet a s = Some t"
  shows "quiet_inv t"
proof -
  have exec: "cond_exec a s = Some t" and a: "a = CFun1 \<or> a = CFun2"
    using step by (cases a; simp add: cond_quiet_def)+
  have c: "cond_inv s" "cond_inv t" using inv cond_inv_exec [OF _ exec] by (simp_all add: quiet_inv_def)
  from a show ?thesis
  proof
    assume "a = CFun1"
    with exec have t: "fun1 s = Some t" by (simp add: cond_exec_def)
    note I = cond_invD [OF c(1)]
    have f2: "\<not> in2 (f2 s)" if "f1 s = F1Set" using I(2) that by simp
    show ?thesis
    proof (cases "f1 s")
      case F1Lock
      with t I(1) have "t = s\<lparr>cmutex := Some 1, f1 := F1Set\<rparr>"
        by (auto simp: fun1_def mutex_lock_def split: if_splits)
      with inv c(2) show ?thesis by (auto simp: quiet_inv_def split: if_splits)
    next
      case F1Set
      then have "f2 s \<noteq> F2Clear" using f2 by auto
      with t F1Set inv c(2) I(3) show ?thesis by (auto simp: fun1_def quiet_inv_def)
    next
      case F1Signal
      with t I(4) inv c(2) show ?thesis by (cases "f2 s") (auto simp: fun1_def quiet_inv_def)
    qed (use t inv c(2) in \<open>auto simp: fun1_def quiet_inv_def\<close>)
  next
    assume "a = CFun2"
    with exec have t: "fun2 s = Some t" by (simp add: cond_exec_def)
    show ?thesis
    proof (cases "f2 s")
      case F2Lock
      with t obtain l where "t = s\<lparr>cmutex := l, f2 := F2Test\<rparr>" by (auto simp: fun2_def split: option.splits)
      with inv c(2) F2Lock show ?thesis by (simp add: quiet_inv_def)
    next
      case F2Test
      with t inv c(2) cond_invD(3) [OF c(1)] show ?thesis by (auto simp: fun2_def quiet_inv_def split: if_splits)
    next
      case F2Relock
      with t obtain l where "t = s\<lparr>cmutex := l, f2 := F2Print\<rparr>" by (auto simp: fun2_def split: option.splits)
      with inv c(2) F2Relock show ?thesis by (simp add: quiet_inv_def)
    qed (use t inv c(2) in \<open>auto simp: fun2_def quiet_inv_def\<close>)
  qed
qed

lemma quiet_inv_init: "cond_init s \<Longrightarrow> quiet_inv s"
  using cond_inv_init [of s] by (auto simp: quiet_inv_def cond_init_def cond_main_def)

interpretation quiet: invariant_system cond_init cond_quiet quiet_inv
  by unfold_locales (fact quiet_inv_init, fact quiet_inv_exec)

subsection \<open>Properties\<close>

text \<open>No wakeup is lost and the program never hangs: in every reachable state in which thread 2 sleeps while the
  flag is set, thread 1 is about to signal, and some step is always possible.\<close>

theorem cond_no_lost_wakeup:
  assumes "reach cond_init (lstep cond_exec) s"
  shows "\<not> (f2 s = F2Asleep \<and> flag s = 1 \<and> f1 s \<noteq> F1Signal) \<and> (\<exists>t. lstep cond_exec s t)"
  using cond_invD(5) [OF cond.inv_reach [OF assms]] cond.no_deadlock [OF assms] by blast

text \<open>Without spurious wakeups every line of thread 2 is about a flag that is set, and there are no more lines than
  the flag has been set.\<close>

theorem cond_prints_only_signals:
  assumes "reach cond_init (lstep cond_quiet) s"
  shows "set (seen s) \<subseteq> {1} \<and> length (seen s) \<le> sets s"
proof -
  from quiet.inv_reach [OF assms] have q: "quiet_inv s" .
  then have "flag s \<in> {0, 1}" using cond_invD(3) by (simp add: quiet_inv_def)
  with q have "int (length (seen s)) \<le> int (sets s)" by (auto simp: quiet_inv_def split: if_splits)
  with q show ?thesis by (simp add: quiet_inv_def)
qed

text \<open>Testing the flag with \<^verbatim>\<open>if\<close> instead of \<^verbatim>\<open>while\<close> lets a spurious wakeup through.\<close>

theorem cond_spurious_print: "\<exists>s. reach cond_init (lstep cond_exec) s \<and> sets s = 0 \<and> seen s = [0]"
proof -
  define s where "s = projr (cond_main True True)"
  have "run_actions cond_exec [CFun2, CFun2, CSpurious, CFun2, CFun2] s
      = Some \<lparr>cmutex = Some 2, flag = 0, f1 = F1Lock, f2 = F2Clear, sets = 0, seen = [0]\<rparr>"
    unfolding s_def by code_simp
  moreover have "cond_init s" by (simp add: s_def cond_init_def cond_main_def)
  ultimately have "reach cond_init (lstep cond_exec) \<lparr>cmutex = Some 2, flag = 0, f1 = F1Lock, f2 = F2Clear, sets = 0, seen = [0]\<rparr>"
    by (rule reach_from_init [of cond_init s, rotated])
  then show ?thesis by force
qed

subsection \<open>Instances\<close>

definition cond_example :: cstate where
  "cond_example = \<lparr>cmutex = Some 2, flag = 1, f1 = F1Sleep, f2 = F2Clear, sets = 1, seen = [1]\<rparr>"

definition cond_schedule :: "cact list" where
  "cond_schedule = [CFun2, CFun2, CFun1, CFun1, CFun1, CFun1, CFun2, CFun2]"

lemma cond_example_reach:
  "reach cond_init (lstep cond_exec) cond_example" "reach cond_init (lstep cond_quiet) cond_example"
proof -
  have init: "cond_init (projr (cond_main True True))" by (simp add: cond_init_def cond_main_def)
  show "reach cond_init (lstep cond_exec) cond_example"
    by (rule reach_from_init [of cond_init _ _ cond_schedule, OF init]) code_simp
  show "reach cond_init (lstep cond_quiet) cond_example"
    by (rule reach_from_init [of cond_init _ _ cond_schedule, OF init]) code_simp
qed

theorem cond_no_lost_wakeup_witness: "\<exists>t. lstep cond_exec cond_example t"
  using cond_no_lost_wakeup [OF cond_example_reach(1)] by blast

theorem cond_prints_only_signals_witness: "set (seen cond_example) \<subseteq> {1} \<and> length (seen cond_example) \<le> sets cond_example"
  by (rule cond_prints_only_signals [OF cond_example_reach(2)])

end
