(* ===== verification/ProdCond.thy ===== *)
theory ProdCond
  imports Locks "HOL-Library.Multiset"
begin

section \<open>Producer and consumer with a condition variable (4\_producer\_customer\_cond.c)\<close>

text \<open>
  \<^verbatim>\<open>concurrence_linux/7_thread_sync/4_producer_customer_cond.c\<close>: one producer pushes nodes on the list \<^verbatim>\<open>head\<close>, one
  customer takes them off, both under a mutex; the customer sleeps on a condition variable while the list is empty. The list is its
  data. An action of the producer carries what \<^verbatim>\<open>random\<close> returns, or \<open>None\<close> when \<^verbatim>\<open>malloc\<close> fails. Taking from an
  empty list dereferences a null pointer (\<open>pc_crashed\<close>).
\<close>

datatype prpc = PrLock | PrMalloc | PrLink int | PrPrint int | PrUnlock | PrSignal | PrSleep | PrExit
datatype cupc = CuLock | CuTest | CuAsleep | CuRelock | CuTake | CuPrint int | CuFree int | CuUnlock

record pcstate =
  pc_mutex :: "nat option"
  head :: "int list"
  prod :: prpc
  cust :: cupc
  made :: "int list"    \<comment> \<open>what was put on the list, in order\<close>
  eaten :: "int list"   \<comment> \<open>what the customer has printed, in order\<close>
  pc_crashed :: bool

datatype pcact = Produce "nat option" | Consume | WakeUp

definition producer :: "nat option \<Rightarrow> pcstate \<Rightarrow> pcstate option" where
  "producer r s =
     (case prod s of
        PrLock \<Rightarrow> (case mutex_lock 1 (pc_mutex s) of None \<Rightarrow> None | Some l \<Rightarrow> Some (s\<lparr>pc_mutex := l, prod := PrMalloc\<rparr>))
      | PrMalloc \<Rightarrow> (case r of None \<Rightarrow> Some (s\<lparr>prod := PrExit\<rparr>) | Some n \<Rightarrow> Some (s\<lparr>prod := PrLink (int (n mod 100) + 1)\<rparr>))
      | PrLink d \<Rightarrow> Some (s\<lparr>head := d # head s, made := made s @ [d], prod := PrPrint d\<rparr>)
      | PrPrint d \<Rightarrow> Some (s\<lparr>prod := PrUnlock\<rparr>)
      | PrUnlock \<Rightarrow> Some (s\<lparr>pc_mutex := mutex_unlock 1 (pc_mutex s), prod := PrSignal\<rparr>)
      | PrSignal \<Rightarrow> Some (s\<lparr>cust := (if cust s = CuAsleep then CuRelock else cust s), prod := PrSleep\<rparr>)
      | PrSleep \<Rightarrow> Some (s\<lparr>prod := PrLock\<rparr>)
      | PrExit \<Rightarrow> None)"

definition customer :: "pcstate \<Rightarrow> pcstate option" where
  "customer s =
     (case cust s of
        CuLock \<Rightarrow> (case mutex_lock 2 (pc_mutex s) of None \<Rightarrow> None | Some l \<Rightarrow> Some (s\<lparr>pc_mutex := l, cust := CuTest\<rparr>))
      | CuTest \<Rightarrow> Some (if head s = [] then s\<lparr>pc_mutex := mutex_unlock 2 (pc_mutex s), cust := CuAsleep\<rparr> else s\<lparr>cust := CuTake\<rparr>)
      | CuAsleep \<Rightarrow> None
      | CuRelock \<Rightarrow> (case mutex_lock 2 (pc_mutex s) of None \<Rightarrow> None | Some l \<Rightarrow> Some (s\<lparr>pc_mutex := l, cust := CuTake\<rparr>))
      | CuTake \<Rightarrow> Some (case head s of [] \<Rightarrow> s\<lparr>pc_crashed := True\<rparr> | d # ds \<Rightarrow> s\<lparr>head := ds, cust := CuPrint d\<rparr>)
      | CuPrint d \<Rightarrow> Some (s\<lparr>eaten := eaten s @ [d], cust := CuFree d\<rparr>)
      | CuFree d \<Rightarrow> Some (s\<lparr>cust := CuUnlock\<rparr>)
      | CuUnlock \<Rightarrow> Some (s\<lparr>pc_mutex := mutex_unlock 2 (pc_mutex s), cust := CuLock\<rparr>))"

definition pc_exec :: "pcact \<Rightarrow> pcstate \<Rightarrow> pcstate option" where
  "pc_exec a s =
     (if pc_crashed s then None
      else case a of
        Produce r \<Rightarrow> producer r s
      | Consume \<Rightarrow> customer s
      | WakeUp \<Rightarrow> (if cust s = CuAsleep then Some (s\<lparr>cust := CuRelock\<rparr>) else None))"

text \<open>\<^verbatim>\<open>main\<close>: which of its calls succeed; the exit status or the state the threads start in.\<close>

definition pc_main :: "bool \<Rightarrow> bool \<Rightarrow> bool \<Rightarrow> bool \<Rightarrow> int + pcstate" where
  "pc_main mutex_ok cond_ok p1_ok p2_ok =
     (if \<not> mutex_ok then Inl 1
      else if \<not> cond_ok then Inl 1
      else if \<not> p1_ok then Inl 1
      else if \<not> p2_ok then Inl 1
      else Inr \<lparr>pc_mutex = None, head = [], prod = PrLock, cust = CuLock, made = [], eaten = [], pc_crashed = False\<rparr>)"

definition pc_init :: "pcstate \<Rightarrow> bool" where
  "pc_init s \<longleftrightarrow> pc_main True True True True = Inr s"

subsection \<open>Invariants\<close>

fun pr_inside :: "prpc \<Rightarrow> bool" where
  "pr_inside PrLock = False" | "pr_inside PrMalloc = True" | "pr_inside (PrLink d) = True"
| "pr_inside (PrPrint d) = True" | "pr_inside PrUnlock = True" | "pr_inside PrSignal = False"
| "pr_inside PrSleep = False" | "pr_inside PrExit = True"

fun cu_inside :: "cupc \<Rightarrow> bool" where
  "cu_inside CuLock = False" | "cu_inside CuTest = True" | "cu_inside CuAsleep = False"
| "cu_inside CuRelock = False" | "cu_inside CuTake = True" | "cu_inside (CuPrint d) = True"
| "cu_inside (CuFree d) = True" | "cu_inside CuUnlock = True"

definition pc_holder :: "prpc \<Rightarrow> cupc \<Rightarrow> nat option" where
  "pc_holder p q = (if pr_inside p then Some 1 else if cu_inside q then Some 2 else None)"

text \<open>The node the customer has taken and not printed yet, and the data the producer is about to link.\<close>

fun in_hand :: "cupc \<Rightarrow> int multiset" where
  "in_hand (CuPrint d) = {#d#}"
| "in_hand _ = {#}"

fun fresh_ok :: "prpc \<Rightarrow> bool" where
  "fresh_ok (PrLink d) = (1 \<le> d \<and> d \<le> 100)"
| "fresh_ok _ = True"

definition pc_inv :: "pcstate \<Rightarrow> bool" where
  "pc_inv s \<longleftrightarrow> pc_mutex s = pc_holder (prod s) (cust s) \<and> \<not> (pr_inside (prod s) \<and> cu_inside (cust s))
     \<and> mset (made s) = mset (eaten s) + in_hand (cust s) + mset (head s)
     \<and> set (made s) \<subseteq> {1..100} \<and> fresh_ok (prod s)"

lemma pc_invD:
  assumes "pc_inv s"
  shows "pc_mutex s = pc_holder (prod s) (cust s)" "\<not> (pr_inside (prod s) \<and> cu_inside (cust s))"
    "mset (made s) = mset (eaten s) + in_hand (cust s) + mset (head s)" "set (made s) \<subseteq> {1..100}" "fresh_ok (prod s)"
  using assms by (simp_all add: pc_inv_def)

lemma woken [simp]:
  "cu_inside (if c = CuAsleep then CuRelock else c) = cu_inside c"
  "in_hand (if c = CuAsleep then CuRelock else c) = in_hand c"
  by auto

lemma pc_inv_producer:
  assumes inv: "pc_inv s" and step: "producer r s = Some t"
  shows "pc_inv t"
proof -
  note I = pc_invD [OF inv]
  show ?thesis
  proof (cases "prod s")
    case PrLock
    with step I(1) have "\<not> cu_inside (cust s)" "t = s\<lparr>pc_mutex := Some 1, prod := PrMalloc\<rparr>"
      by (auto simp: producer_def mutex_lock_def pc_holder_def split: if_splits)
    with I show ?thesis by (simp add: pc_inv_def pc_holder_def)
  next
    case PrMalloc
    then obtain p where "t = s\<lparr>prod := p\<rparr>" "pr_inside p" "fresh_ok p"
      using step by (cases r) (auto simp: producer_def)
    with I PrMalloc show ?thesis by (simp add: pc_inv_def pc_holder_def)
  next
    case (PrLink d)
    with step have "t = s\<lparr>head := d # head s, made := made s @ [d], prod := PrPrint d\<rparr>" by (simp add: producer_def)
    with I PrLink show ?thesis by (simp add: pc_inv_def pc_holder_def)
  next
    case PrUnlock
    with step have "t = s\<lparr>pc_mutex := None, prod := PrSignal\<rparr>" by (simp add: producer_def mutex_unlock_def)
    with I PrUnlock show ?thesis by (simp add: pc_inv_def pc_holder_def)
  next
    case PrSignal
    with step have "t = s\<lparr>cust := (if cust s = CuAsleep then CuRelock else cust s), prod := PrSleep\<rparr>"
      by (simp add: producer_def)
    with I PrSignal show ?thesis by (simp add: pc_inv_def pc_holder_def)
  next
    case PrSleep
    with step have "t = s\<lparr>prod := PrLock\<rparr>" by (simp add: producer_def)
    with I PrSleep show ?thesis by (simp add: pc_inv_def pc_holder_def)
  next
    case (PrPrint d)
    with step have "t = s\<lparr>prod := PrUnlock\<rparr>" by (simp add: producer_def)
    with I PrPrint show ?thesis by (simp add: pc_inv_def pc_holder_def)
  qed (use step in \<open>simp add: producer_def\<close>)
qed

lemma pc_inv_customer:
  assumes inv: "pc_inv s" and step: "customer s = Some t"
  shows "pc_inv t"
proof -
  note I = pc_invD [OF inv]
  have out: "\<not> pr_inside (prod s)" if "cu_inside (cust s)" using I(2) that by blast
  show ?thesis
  proof (cases "cust s")
    case CuLock
    with step I(1) have "\<not> pr_inside (prod s)" "t = s\<lparr>pc_mutex := Some 2, cust := CuTest\<rparr>"
      by (auto simp: customer_def mutex_lock_def pc_holder_def split: if_splits)
    with I CuLock show ?thesis by (simp add: pc_inv_def pc_holder_def)
  next
    case CuRelock
    with step I(1) have "\<not> pr_inside (prod s)" "t = s\<lparr>pc_mutex := Some 2, cust := CuTake\<rparr>"
      by (auto simp: customer_def mutex_lock_def pc_holder_def split: if_splits)
    with I CuRelock show ?thesis by (simp add: pc_inv_def pc_holder_def)
  next
    case CuTest
    with step have "t = s\<lparr>pc_mutex := None, cust := CuAsleep\<rparr> \<or> t = s\<lparr>cust := CuTake\<rparr>"
      by (auto simp: customer_def mutex_unlock_def)
    with I CuTest out show ?thesis by (auto simp: pc_inv_def pc_holder_def)
  next
    case CuTake
    show ?thesis
    proof (cases "head s")
      case Nil
      with step CuTake have "t = s\<lparr>pc_crashed := True\<rparr>" by (simp add: customer_def)
      with inv show ?thesis by (simp add: pc_inv_def)
    next
      case (Cons d ds)
      with step CuTake have "t = s\<lparr>head := ds, cust := CuPrint d\<rparr>" by (simp add: customer_def)
      with I CuTake Cons out show ?thesis by (simp add: pc_inv_def pc_holder_def)
    qed
  next
    case (CuPrint d)
    with step have "t = s\<lparr>eaten := eaten s @ [d], cust := CuFree d\<rparr>" by (simp add: customer_def)
    with I CuPrint out show ?thesis by (simp add: pc_inv_def pc_holder_def)
  next
    case (CuFree d)
    with step have "t = s\<lparr>cust := CuUnlock\<rparr>" by (simp add: customer_def)
    with I CuFree out show ?thesis by (simp add: pc_inv_def pc_holder_def)
  next
    case CuUnlock
    with step have "t = s\<lparr>pc_mutex := None, cust := CuLock\<rparr>" by (simp add: customer_def mutex_unlock_def)
    with I CuUnlock out show ?thesis by (simp add: pc_inv_def pc_holder_def)
  qed (use step in \<open>simp add: customer_def\<close>)
qed

lemma pc_inv_exec:
  assumes inv: "pc_inv s" and step: "pc_exec a s = Some t"
  shows "pc_inv t"
proof (cases a)
  case WakeUp
  with step have "cust s = CuAsleep" "t = s\<lparr>cust := CuRelock\<rparr>" by (simp_all add: pc_exec_def split: if_splits)
  with pc_invD [OF inv] show ?thesis by (simp add: pc_inv_def pc_holder_def)
qed (use step pc_inv_producer [OF inv] pc_inv_customer [OF inv] in \<open>auto simp: pc_exec_def split: if_splits\<close>)

interpretation prodcond: invariant_system pc_init pc_exec pc_inv
proof unfold_locales
  fix s
  assume "pc_init s"
  then show "pc_inv s" by (auto simp: pc_init_def pc_main_def pc_inv_def pc_holder_def)
qed (rule pc_inv_exec)

subsection \<open>Properties\<close>


text \<open>The producer and the customer are never inside the mutex together.\<close>

theorem prodcond_exclusion:
  assumes "reach pc_init (lstep pc_exec) s"
  shows "\<not> (pr_inside (prod s) \<and> cu_inside (cust s))"
  by (rule pc_invD(2) [OF prodcond.inv_reach [OF assms]])

definition pc_start :: pcstate where
  "pc_start = projr (pc_main True True True True)"

lemma pc_start: "pc_init pc_start"
  by (simp add: pc_start_def pc_init_def pc_main_def)

definition late_signal :: "pcact list" where
  "late_signal = replicate 5 (Produce (Some 6)) @ replicate 8 Consume @ [Produce (Some 0), Consume, Consume]"

text \<open>Signalling after the mutex is released, together with \<^verbatim>\<open>if\<close> around the wait, crashes the program without any
  spurious wakeup: the customer can take the node first, go to sleep on the empty list and then get the signal
  that was meant for that node.\<close>

theorem prodcond_late_signal_crashes:
  "\<exists>s. WakeUp \<notin> set late_signal \<and> Produce None \<notin> set late_signal
     \<and> run_actions pc_exec late_signal pc_start = Some s \<and> made s = [7] \<and> eaten s = [7] \<and> pc_crashed s"
proof -
  have "run_actions pc_exec late_signal pc_start = Some \<lparr>pc_mutex = Some 2, head = [], prod = PrSleep, cust = CuTake,
      made = [7], eaten = [7], pc_crashed = True\<rparr>" by code_simp
  then show ?thesis by (simp add: late_signal_def)
qed

text \<open>When \<^verbatim>\<open>malloc\<close> fails the producer leaves with the mutex locked, and the customer waits for it for ever: no
  step is possible any more.\<close>

theorem prodcond_malloc_failure_hangs:
  "\<exists>s. reach pc_init (lstep pc_exec) s \<and> \<not> pc_crashed s \<and> (\<nexists>t. lstep pc_exec s t)"
proof -
  let ?s = "\<lparr>pc_mutex = Some 1, head = [], prod = PrExit, cust = CuLock, made = [], eaten = [], pc_crashed = False\<rparr>"
  have "reach pc_init (lstep pc_exec) ?s"
    by (rule reach_from_init [of pc_init _ _ "[Produce None, Produce None]", OF pc_start]) code_simp
  moreover have "pc_exec a ?s = None" for a
    by (cases a) (simp_all add: pc_exec_def producer_def customer_def mutex_lock_def)
  ultimately show ?thesis by (intro exI [of _ ?s]) (simp add: lstep_iff)
qed

subsection \<open>Instances\<close>

definition pc_example :: pcstate where
  "pc_example = \<lparr>pc_mutex = Some 2, head = [], prod = PrSignal, cust = CuPrint 43, made = [43], eaten = [], pc_crashed = False\<rparr>"

lemma pc_example_reach: "reach pc_init (lstep pc_exec) pc_example"
  by (rule reach_from_init [of pc_init _ _ "replicate 5 (Produce (Some 142)) @ replicate 3 Consume", OF pc_start]) code_simp


theorem prodcond_exclusion_witness: "\<not> (pr_inside PrSignal \<and> cu_inside (CuPrint 43))"
  using prodcond_exclusion [OF pc_example_reach] by (simp add: pc_example_def)

end
