(* ===== verification/ProdSem.thy ===== *)
theory ProdSem
  imports Locks
begin

section \<open>Producers and consumers with semaphores (6\_producer\_custmoer\_sem.c)\<close>

text \<open>
  \<^verbatim>\<open>concurrence_linux/7_thread_sync/6_producer_custmoer_sem.c\<close>: five producers and three customers share the list \<^verbatim>\<open>head\<close>; the
  semaphore \<^verbatim>\<open>sem_pro\<close> counts free places (ten), \<^verbatim>\<open>sem_cust\<close> the nodes. There is no mutex, so every load and store of \<^verbatim>\<open>head\<close> is a
  step of its own. Nodes live in \<open>mem\<close>, a pointer is an index into it, a freed node keeps its index. Using a freed node or
  a null pointer sets \<open>sq_fault\<close>, and nothing is said of what follows.
\<close>

record node =
  ndata :: int
  nnext :: "nat option"
  nfreed :: bool

datatype sppc =
    SpWait | SpMalloc | SpNext nat   \<comment> \<open>about to store \<^verbatim>\<open>temp->next = head\<close>\<close>
  | SpHead nat                       \<comment> \<open>about to store \<^verbatim>\<open>head = temp\<close>\<close>
  | SpPrint nat | SpPost | SpSleep | SpExit

datatype scpc =
    ScWait | ScTest | ScTemp
  | ScLoad "nat option"              \<comment> \<open>has \<^verbatim>\<open>temp\<close>, about to load \<^verbatim>\<open>head->next\<close>\<close>
  | ScStore "nat option" "nat option"
  | ScPrint "nat option" | ScFree "nat option" | ScPost

record sqstate =
  sem_pro :: nat
  sem_cust :: nat
  mem :: "node list"
  sq_head :: "nat option"
  prods :: "sppc list"
  custs :: "scpc list"
  sq_eaten :: "int list"
  lost_permits :: nat   \<comment> \<open>of producers that have left and of customers that found no product\<close>
  sq_fault :: bool

datatype sqact = SP nat "nat option" | SC nat

definition put_sp :: "nat \<Rightarrow> sppc \<Rightarrow> sqstate \<Rightarrow> sqstate" where
  "put_sp i pc s = s\<lparr>prods := (prods s)[i := pc]\<rparr>"

definition put_sc :: "nat \<Rightarrow> scpc \<Rightarrow> sqstate \<Rightarrow> sqstate" where
  "put_sc i pc s = s\<lparr>custs := (custs s)[i := pc]\<rparr>"

definition usable :: "nat option \<Rightarrow> sqstate \<Rightarrow> bool" where
  "usable p s \<longleftrightarrow> (case p of None \<Rightarrow> False | Some a \<Rightarrow> a < length (mem s) \<and> \<not> nfreed (mem s ! a))"

definition sq_producer :: "nat \<Rightarrow> nat option \<Rightarrow> sqstate \<Rightarrow> sqstate option" where
  "sq_producer i r s =
     (case prods s ! i of
        SpWait \<Rightarrow> (case sem_wait i (sem_pro s) of None \<Rightarrow> None | Some n \<Rightarrow> Some (put_sp i SpMalloc (s\<lparr>sem_pro := n\<rparr>)))
      | SpMalloc \<Rightarrow>
          (case r of
             None \<Rightarrow> Some (put_sp i SpExit (s\<lparr>lost_permits := lost_permits s + 1\<rparr>))
           | Some n \<Rightarrow> Some (put_sp i (SpNext (length (mem s)))
               (s\<lparr>mem := mem s @ [\<lparr>ndata = int (n mod 100) + 1, nnext = None, nfreed = False\<rparr>]\<rparr>)))
      | SpNext a \<Rightarrow> Some (put_sp i (SpHead a) (s\<lparr>mem := (mem s)[a := (mem s ! a)\<lparr>nnext := sq_head s\<rparr>]\<rparr>))
      | SpHead a \<Rightarrow> Some (put_sp i (SpPrint a) (s\<lparr>sq_head := Some a\<rparr>))
      | SpPrint a \<Rightarrow> Some (if usable (Some a) s then put_sp i SpPost s else s\<lparr>sq_fault := True\<rparr>)
      | SpPost \<Rightarrow> Some (put_sp i SpSleep (s\<lparr>sem_cust := sem_post i (sem_cust s)\<rparr>))
      | SpSleep \<Rightarrow> Some (put_sp i SpWait s)
      | SpExit \<Rightarrow> None)"

definition sq_customer :: "nat \<Rightarrow> sqstate \<Rightarrow> sqstate option" where
  "sq_customer i s =
     (case custs s ! i of
        ScWait \<Rightarrow> (case sem_wait i (sem_cust s) of None \<Rightarrow> None | Some n \<Rightarrow> Some (put_sc i ScTest (s\<lparr>sem_cust := n\<rparr>)))
      | ScTest \<Rightarrow> Some (if sq_head s = None then put_sc i ScWait (s\<lparr>lost_permits := lost_permits s + 1\<rparr>) else put_sc i ScTemp s)
      | ScTemp \<Rightarrow> Some (put_sc i (ScLoad (sq_head s)) s)
      | ScLoad temp \<Rightarrow> Some (if usable (sq_head s) s then put_sc i (ScStore temp (nnext (mem s ! the (sq_head s)))) s
                        else s\<lparr>sq_fault := True\<rparr>)
      | ScStore temp p \<Rightarrow> Some (put_sc i (ScPrint temp) (s\<lparr>sq_head := p\<rparr>))
      | ScPrint temp \<Rightarrow> Some (if usable temp s then put_sc i (ScFree temp) (s\<lparr>sq_eaten := sq_eaten s @ [ndata (mem s ! the temp)]\<rparr>)
                        else s\<lparr>sq_fault := True\<rparr>)
      | ScFree temp \<Rightarrow> Some (if usable temp s
                        then put_sc i ScPost (s\<lparr>mem := (mem s)[the temp := (mem s ! the temp)\<lparr>nfreed := True\<rparr>]\<rparr>)
                        else s\<lparr>sq_fault := True\<rparr>)
      | ScPost \<Rightarrow> Some (put_sc i ScWait (s\<lparr>sem_pro := sem_post i (sem_pro s)\<rparr>)))"

definition sq_exec :: "sqact \<Rightarrow> sqstate \<Rightarrow> sqstate option" where
  "sq_exec a s =
     (if sq_fault s then None
      else case a of
        SP i r \<Rightarrow> (if i < length (prods s) then sq_producer i r s else None)
      | SC i \<Rightarrow> (if i < length (custs s) then sq_customer i s else None))"

definition sq_main :: "bool \<Rightarrow> bool \<Rightarrow> int + sqstate" where
  "sq_main pro_ok cust_ok =
     (if \<not> pro_ok then Inl 1
      else if \<not> cust_ok then Inl 1
      else Inr \<lparr>sem_pro = 10, sem_cust = 0, mem = [], sq_head = None, prods = replicate 5 SpWait,
                custs = replicate 3 ScWait, sq_eaten = [], lost_permits = 0, sq_fault = False\<rparr>)"

definition sq_init :: "sqstate \<Rightarrow> bool" where
  "sq_init s \<longleftrightarrow> sq_main True True = Inr s"

subsection \<open>The permits\<close>

text \<open>A producer holds a permit between its \<^verbatim>\<open>sem_wait\<close> and its \<^verbatim>\<open>sem_post\<close>, and so does a customer.\<close>

fun sp_holds :: "sppc \<Rightarrow> bool" where
  "sp_holds SpWait = False" | "sp_holds SpSleep = False" | "sp_holds SpExit = False" | "sp_holds _ = True"

fun sc_holds :: "scpc \<Rightarrow> bool" where
  "sc_holds ScWait = False" | "sc_holds _ = True"

definition permits :: "sqstate \<Rightarrow> int" where
  "permits s = int (sem_pro s) + int (sem_cust s) + count_if sp_holds (prods s) + count_if sc_holds (custs s)
     + int (lost_permits s)"

lemma permits_put:
  "i < length (prods s) \<Longrightarrow> permits (put_sp i pc s) =
     permits s - (if sp_holds (prods s ! i) then 1 else 0) + (if sp_holds pc then 1 else 0)"
  "i < length (custs s) \<Longrightarrow> permits (put_sc i pc' s) =
     permits s - (if sc_holds (custs s ! i) then 1 else 0) + (if sc_holds pc' then 1 else 0)"
  by (simp_all add: permits_def put_sp_def put_sc_def count_if_update)

lemma permits_sel:
  "permits (s\<lparr>mem := m\<rparr>) = permits s" "permits (s\<lparr>sq_head := h\<rparr>) = permits s" "permits (s\<lparr>sq_fault := f\<rparr>) = permits s"
  "permits (s\<lparr>sq_eaten := e\<rparr>) = permits s"
  "permits (s\<lparr>sem_pro := n\<rparr>) = permits s - int (sem_pro s) + int n"
  "permits (s\<lparr>sem_cust := n\<rparr>) = permits s - int (sem_cust s) + int n"
  "permits (s\<lparr>lost_permits := n\<rparr>) = permits s - int (lost_permits s) + int n"
  by (simp_all add: permits_def)

lemma permits_exec:
  assumes "sq_exec a s = Some t"
  shows "permits t = permits s"
proof (cases a)
  case (SP i r)
  with assms have i: "i < length (prods s)" and step: "sq_producer i r s = Some t" by (auto simp: sq_exec_def split: if_splits)
  then show ?thesis
    by (cases "prods s ! i")
       (auto simp: sq_producer_def permits_put permits_sel sem_wait_def sem_post_def of_nat_diff split: if_splits option.splits)
next
  case (SC i)
  with assms have i: "i < length (custs s)" and step: "sq_customer i s = Some t" by (auto simp: sq_exec_def split: if_splits)
  then show ?thesis
    by (cases "custs s ! i")
       (auto simp: sq_customer_def permits_put permits_sel sem_wait_def sem_post_def of_nat_diff split: if_splits option.splits)
qed

interpretation prodsem: invariant_system sq_init sq_exec "\<lambda>s. permits s = 10"
proof unfold_locales
  fix s
  assume "sq_init s"
  then show "permits s = 10" by (auto simp: sq_init_def sq_main_def permits_def)
qed (simp add: permits_exec)

subsection \<open>The shape of the memory\<close>












subsection \<open>Properties\<close>

text \<open>The permits add up: in every state of every execution the two semaphores, the threads that are between their
  \<^verbatim>\<open>sem_wait\<close> and \<^verbatim>\<open>sem_post\<close>, and the permits that were dropped make ten, so there are never more than ten nodes announced
  and at most ten threads inside.\<close>

theorem prodsem_ten_permits:
  assumes "reach sq_init (lstep sq_exec) s"
  shows "int (sem_pro s) + int (sem_cust s) + count_if sp_holds (prods s) + count_if sc_holds (custs s)
     + int (lost_permits s) = 10"
  using prodsem.inv_reach [OF assms] by (simp add: permits_def)


definition sq_start :: sqstate where
  "sq_start = projr (sq_main True True)"

lemma sq_start: "sq_init sq_start"
  by (simp add: sq_start_def sq_init_def sq_main_def)

definition lost_node :: "sqact list" where
  "lost_node = [SP 0 None, SP 1 None, SP 0 (Some 0), SP 1 (Some 1), SP 0 None, SP 1 None, SP 0 None, SP 1 None]
     @ [SP 0 None, SP 1 None, SP 0 None, SP 1 None, SC 0, SC 0, SC 0, SC 0, SC 0]"

text \<open>The semaphores do not protect the list: when two producers link their nodes at the same time one of
  the two is lost, and one customer later the list is empty although another node was announced.\<close>

theorem prodsem_loses_node:
  "\<exists>s. run_actions sq_exec lost_node sq_start = Some s \<and> sq_head s = None \<and> sem_cust s = 1
     \<and> map ndata (mem s) = [1, 2] \<and> \<not> sq_fault s"
proof -
  have "map_option (\<lambda>s. (sq_head s, sem_cust s, map ndata (mem s), sq_fault s)) (run_actions sq_exec lost_node sq_start)
      = Some (None, 1, [1, 2], False)" by code_simp
  then show ?thesis by auto
qed

definition double_free :: "sqact list" where
  "double_free = concat [[SP i None, SP i (Some i), SP i None, SP i None, SP i None, SP i None]. i \<leftarrow> [0, 1]]
     @ concat (replicate 4 [SC 0, SC 1]) @ concat (replicate 2 [SC 0, SC 1]) @ [SC 0, SC 1]"

text \<open>Two customers at the same time can take the same node: both print it, one frees it and the other frees it again.\<close>

theorem prodsem_double_free:
  "\<exists>s. run_actions sq_exec double_free sq_start = Some s \<and> sq_eaten s = [2, 2] \<and> sq_fault s"
proof -
  have "map_option (\<lambda>s. (sq_eaten s, sq_fault s)) (run_actions sq_exec double_free sq_start) = Some ([2, 2], True)"
    by code_simp
  then show ?thesis by auto
qed

subsection \<open>Instances\<close>

definition sq_example :: sqstate where
  "sq_example = the (run_actions sq_exec lost_node sq_start)"

lemma sq_example_reach: "reach sq_init (lstep sq_exec) sq_example"
  by (rule reach_from_init [of sq_init _ _ lost_node, OF sq_start]) code_simp

theorem prodsem_ten_permits_witness: "int (sem_pro sq_example) + int (sem_cust sq_example)
   + count_if sp_holds (prods sq_example) + count_if sc_holds (custs sq_example) + int (lost_permits sq_example) = 10"
  by (rule prodsem_ten_permits [OF sq_example_reach])


end
