(* ===== verification/Pipes.thy ===== *)
theory Pipes
  imports Transition
begin

section \<open>Pipes between processes (3\_pipe\_c)\<close>

text \<open>
  \<^verbatim>\<open>concurrence_linux/3_pipe_c\<close>: a parent that writes to a pipe and a child that reads from it, blocking
  (\<^verbatim>\<open>2_pipe_fork.c\<close>) or not (\<^verbatim>\<open>4_pipe_nonblock.c\<close>), two programs around a named pipe (\<^verbatim>\<open>6_fifo_write.c\<close>, \<^verbatim>\<open>6_fifo_read.c\<close>), and
  memory shared by parent and child (\<^verbatim>\<open>8_mmap_fork.c\<close>). One action is one system call of one process. Each process has
  its own ends of the pipe: a read finds the end of file when nobody holds the write end any more, a write when
  nobody holds the read end kills the writer (\<^verbatim>\<open>SIGPIPE\<close>). A process that exits closes its ends.
\<close>

subsection \<open>2\_pipe\_fork.c and 4\_pipe\_nonblock.c\<close>

datatype papc = PaClose0 | PaWrite | PaClose1 | PaExit int | PaKilled
datatype chpc = ChClose1 | ChFcntl | ChRead | ChFailed | ChClose0 | ChExit int

record pipe_state =
  pbuf :: "byte list"
  par_rd :: bool   \<comment> \<open>the parent holds \<^verbatim>\<open>fds[0]\<close>\<close>
  par_wr :: bool
  chi_rd :: bool
  chi_wr :: bool
  par :: papc
  chi :: chpc
  shown :: "byte list option"   \<comment> \<open>what the child has printed\<close>

definition pipe_parent :: "pipe_state \<Rightarrow> pipe_state option" where
  "pipe_parent s =
     (case par s of
        PaClose0 \<Rightarrow> Some (s\<lparr>par_rd := False, par := PaWrite\<rparr>)
      | PaWrite \<Rightarrow>
          Some (if \<not> par_rd s \<and> \<not> chi_rd s then s\<lparr>par_wr := False, par := PaKilled\<rparr>
                else s\<lparr>pbuf := pbuf s @ ''123456'', par := PaClose1\<rparr>)
      | PaClose1 \<Rightarrow> Some (s\<lparr>par_wr := False, par := PaExit 0\<rparr>)
      | PaExit c \<Rightarrow> None
      | PaKilled \<Rightarrow> None)"

text \<open>\<open>nb\<close>: the read end is made non-blocking first.\<close>

definition pipe_child :: "bool \<Rightarrow> pipe_state \<Rightarrow> pipe_state option" where
  "pipe_child nb s =
     (case chi s of
        ChClose1 \<Rightarrow> Some (s\<lparr>chi_wr := False, chi := (if nb then ChFcntl else ChRead)\<rparr>)
      | ChFcntl \<Rightarrow> Some (s\<lparr>chi := ChRead\<rparr>)
      | ChRead \<Rightarrow>
          (if pbuf s \<noteq> [] then
             Some (s\<lparr>pbuf := drop 128 (pbuf s), shown := Some (cstr (take 128 (pbuf s))), chi := ChClose0\<rparr>)
           else if \<not> par_wr s \<and> \<not> chi_wr s then Some (s\<lparr>shown := Some [], chi := ChClose0\<rparr>)
           else if nb then Some (s\<lparr>chi := ChFailed\<rparr>)
           else None)
      | ChFailed \<Rightarrow> Some (s\<lparr>chi_rd := False, chi := ChExit (-1)\<rparr>)
      | ChClose0 \<Rightarrow> Some (s\<lparr>chi_rd := False, chi := ChExit 0\<rparr>)
      | ChExit c \<Rightarrow> None)"

text \<open>True is an action of the parent.\<close>

definition pipe_exec :: "bool \<Rightarrow> bool \<Rightarrow> pipe_state \<Rightarrow> pipe_state option" where
  "pipe_exec nb a s = (if a then pipe_parent s else pipe_child nb s)"

definition pipe_main :: "bool \<Rightarrow> bool \<Rightarrow> int + pipe_state" where
  "pipe_main pipe_ok fork_ok =
     (if \<not> pipe_ok then Inl 1
      else if \<not> fork_ok then Inl 1
      else Inr \<lparr>pbuf = [], par_rd = True, par_wr = True, chi_rd = True, chi_wr = True, par = PaClose0, chi = ChClose1, shown = None\<rparr>)"

definition pipe_init :: "pipe_state \<Rightarrow> bool" where
  "pipe_init s \<longleftrightarrow> pipe_main True True = Inr s"

fun wrote :: "papc \<Rightarrow> bool" where
  "wrote PaClose0 = False" | "wrote PaWrite = False" | "wrote PaClose1 = True" | "wrote (PaExit c) = True" | "wrote PaKilled = False"

definition pipe_inv :: "bool \<Rightarrow> pipe_state \<Rightarrow> bool" where
  "pipe_inv nb s \<longleftrightarrow>
     par_rd s = (par s = PaClose0) \<and> par_wr s = (par s \<in> {PaClose0, PaWrite, PaClose1})
     \<and> chi_wr s = (chi s = ChClose1) \<and> chi_rd s = (chi s \<notin> {ChExit 0, ChExit (-1)})
     \<and> (\<forall>c. chi s = ChExit c \<longrightarrow> c = 0 \<or> c = -1) \<and> (\<forall>c. par s = PaExit c \<longrightarrow> c = 0)
     \<and> (chi s \<in> {ChClose0, ChExit 0} \<longleftrightarrow> shown s = Some ''123456'')
     \<and> (shown s = None \<or> shown s = Some ''123456'' \<and> wrote (par s))
     \<and> pbuf s = (if wrote (par s) \<and> shown s = None then ''123456'' else [])
     \<and> (chi s \<in> {ChFcntl, ChFailed, ChExit (-1)} \<longrightarrow> nb)
     \<and> (par s = PaKilled \<longrightarrow> chi s = ChExit (-1))"

lemma msg_cstr: "cstr (take 128 ''123456'') = ''123456''" "drop 128 ''123456'' = ([] :: byte list)"
  by code_simp+

lemma pipe_inv_parent:
  assumes inv: "pipe_inv nb s" and step: "pipe_parent s = Some t"
  shows "pipe_inv nb t"
proof (cases "par s")
  case PaClose0
  with step have "t = s\<lparr>par_rd := False, par := PaWrite\<rparr>" by (simp add: pipe_parent_def)
  with inv PaClose0 show ?thesis by (simp add: pipe_inv_def)
next
  case PaWrite
  show ?thesis
  proof (cases "chi_rd s")
    case True
    with step PaWrite have "t = s\<lparr>pbuf := pbuf s @ ''123456'', par := PaClose1\<rparr>" by (simp add: pipe_parent_def)
    with inv PaWrite show ?thesis by (auto simp: pipe_inv_def)
  next
    case False
    with inv PaWrite have c: "\<not> par_rd s" "chi s = ChExit (-1)" by (auto simp: pipe_inv_def)
    with False step PaWrite have "t = s\<lparr>par_wr := False, par := PaKilled\<rparr>" by (simp add: pipe_parent_def)
    with inv PaWrite c show ?thesis by (simp add: pipe_inv_def)
  qed
next
  case PaClose1
  with step have "t = s\<lparr>par_wr := False, par := PaExit 0\<rparr>" by (simp add: pipe_parent_def)
  with inv PaClose1 show ?thesis by (simp add: pipe_inv_def)
qed (use step in \<open>simp_all add: pipe_parent_def\<close>)

lemma pipe_inv_child:
  assumes inv: "pipe_inv nb s" and step: "pipe_child nb s = Some t"
  shows "pipe_inv nb t"
proof (cases "chi s")
  case ChClose1
  with step have "t = s\<lparr>chi_wr := False, chi := (if nb then ChFcntl else ChRead)\<rparr>" by (simp add: pipe_child_def)
  with inv ChClose1 show ?thesis by (cases nb) (auto simp: pipe_inv_def)
next
  case ChFcntl
  with step have "t = s\<lparr>chi := ChRead\<rparr>" by (simp add: pipe_child_def)
  with inv ChFcntl show ?thesis by (auto simp: pipe_inv_def)
next
  case ChRead
  with inv have n: "shown s = None" "par s \<noteq> PaKilled" by (auto simp: pipe_inv_def)
  show ?thesis
  proof (cases "wrote (par s)")
    case True
    with inv n have "pbuf s = ''123456''" by (simp add: pipe_inv_def)
    with step ChRead have "t = s\<lparr>pbuf := [], shown := Some ''123456'', chi := ChClose0\<rparr>"
      by (simp add: pipe_child_def msg_cstr)
    with inv ChRead True n show ?thesis by (simp add: pipe_inv_def)
  next
    case False
    with inv n have "pbuf s = []" "par_wr s" by (cases "par s"; simp add: pipe_inv_def)+
    with step ChRead have "nb" "t = s\<lparr>chi := ChFailed\<rparr>" by (auto simp: pipe_child_def split: if_splits)
    with inv ChRead n show ?thesis by (simp add: pipe_inv_def)
  qed
next
  case ChFailed
  with step have "t = s\<lparr>chi_rd := False, chi := ChExit (-1)\<rparr>" by (simp add: pipe_child_def)
  with inv ChFailed show ?thesis by (auto simp: pipe_inv_def)
next
  case ChClose0
  with step have "t = s\<lparr>chi_rd := False, chi := ChExit 0\<rparr>" by (simp add: pipe_child_def)
  with inv ChClose0 show ?thesis by (auto simp: pipe_inv_def)
qed (use step in \<open>simp add: pipe_child_def\<close>)

lemma pipe_inv_exec: "pipe_inv nb s \<Longrightarrow> pipe_exec nb a s = Some t \<Longrightarrow> pipe_inv nb t"
  by (cases a) (auto simp: pipe_exec_def intro: pipe_inv_parent pipe_inv_child)

lemma pipe_inv_init: "pipe_init s \<Longrightarrow> pipe_inv nb s"
  by (auto simp: pipe_init_def pipe_main_def pipe_inv_def)

interpretation pipe_fork: invariant_system pipe_init "pipe_exec nb" "pipe_inv nb"
  by unfold_locales (fact pipe_inv_init, fact pipe_inv_exec)

text \<open>When no process can move both have ended, unless the child waits for data that will not come; it never does.\<close>

lemma pipe_stuck:
  assumes inv: "pipe_inv nb s" and stuck: "\<And>a. pipe_exec nb a s = None"
  shows "(\<exists>c. chi s = ChExit c) \<and> (par s = PaKilled \<or> par s = PaExit 0)"
proof -
  have "pipe_parent s = None" "pipe_child nb s = None"
    using stuck [of True] stuck [of False] by (simp_all add: pipe_exec_def)
  then have p: "par s = PaKilled \<or> (\<exists>c. par s = PaExit c)"
    by (cases "par s") (simp_all add: pipe_parent_def)
  moreover have "\<forall>c. par s = PaExit c \<longrightarrow> c = 0" using inv by (simp add: pipe_inv_def)
  ultimately have "par s = PaKilled \<or> par s = PaExit 0" by blast
  moreover from \<open>pipe_child nb s = None\<close> have "\<exists>c. chi s = ChExit c"
  proof (cases "chi s")
    case ChRead
    with inv have n: "shown s = None" "par s \<noteq> PaKilled" by (auto simp: pipe_inv_def)
    with p have "wrote (par s)" by auto
    with inv n(1) have "pbuf s = ''123456''" by (simp add: pipe_inv_def)
    with ChRead \<open>pipe_child nb s = None\<close> show ?thesis by (simp add: pipe_child_def)
  qed (simp_all add: pipe_child_def)
  ultimately show ?thesis by blast
qed

subsection \<open>The named pipe\<close>

text \<open>
  The writer sends blocks of 128 bytes, each a numbered greeting filled up with zeros; a write of that size is atomic and waits for room in the
  64 KiB of the pipe. The reader reads blocks of 128 bytes. Opening waits for the other side. Either process may be
  killed. After 2147483647 greetings the writer's counter would overflow; the model stops there.
\<close>

datatype fifo_pc = FOpen | FLoop | FDone | FKilled

definition fifo_gone :: "fifo_pc \<Rightarrow> bool" where
  "fifo_gone pc \<longleftrightarrow> pc = FDone \<or> pc = FKilled"

record fifo_state =
  fbuf :: "byte list"
  fwriter :: fifo_pc
  freader :: fifo_pc
  fcount :: nat                  \<comment> \<open>the writer's \<^verbatim>\<open>i\<close>\<close>
  fprinted :: "byte list list"

datatype fifo_act = FConnect | FWrite | FRead | KillWriter | KillReader

definition greeting :: "nat \<Rightarrow> byte list" where
  "greeting i = '' hello '' @ dec i"

definition block :: "nat \<Rightarrow> byte list" where
  "block i = greeting i @ replicate (128 - length (greeting i)) NUL"

definition fifo_write :: "fifo_state \<Rightarrow> fifo_state option" where
  "fifo_write s =
     (if fwriter s \<noteq> FLoop then None
      else if fifo_gone (freader s) then Some (s\<lparr>fwriter := FKilled\<rparr>)
      else if fcount s < 2147483647 \<and> length (fbuf s) + 128 \<le> 65536
      then Some (s\<lparr>fbuf := fbuf s @ block (fcount s), fcount := fcount s + 1\<rparr>)
      else None)"

definition fifo_read :: "fifo_state \<Rightarrow> fifo_state option" where
  "fifo_read s =
     (if freader s \<noteq> FLoop then None
      else if fbuf s \<noteq> [] then
        Some (s\<lparr>fbuf := drop 128 (fbuf s), fprinted := fprinted s @ [cstr (take 128 (fbuf s))]\<rparr>)
      else if fifo_gone (fwriter s) then Some (s\<lparr>freader := FDone\<rparr>)
      else None)"

definition fifo_exec :: "fifo_act \<Rightarrow> fifo_state \<Rightarrow> fifo_state option" where
  "fifo_exec a s =
     (case a of
        FConnect \<Rightarrow> (if fwriter s = FOpen \<and> freader s = FOpen then Some (s\<lparr>fwriter := FLoop, freader := FLoop\<rparr>) else None)
      | FWrite \<Rightarrow> fifo_write s
      | FRead \<Rightarrow> fifo_read s
      | KillWriter \<Rightarrow> (if fwriter s = FLoop then Some (s\<lparr>fwriter := FKilled\<rparr>) else None)
      | KillReader \<Rightarrow> (if freader s = FLoop then Some (s\<lparr>freader := FKilled\<rparr>) else None))"

definition fifo_start :: fifo_state where
  "fifo_start = \<lparr>fbuf = [], fwriter = FOpen, freader = FOpen, fcount = 0, fprinted = []\<rparr>"

lemma length_greeting: "i < 2147483647 \<Longrightarrow> length (greeting i) \<le> 17"
  using length_dec [of 10 i] by (simp add: greeting_def)

lemma length_block [simp]: "i < 2147483647 \<Longrightarrow> length (block i) = 128"
  using length_greeting [of i] by (simp add: block_def)

lemma cstr_block [simp]:
  assumes "i < 2147483647"
  shows "cstr (block i) = greeting i"
proof -
  have "NUL \<notin> set (dec i)"
  proof
    assume "NUL \<in> set (dec i)"
    then have "is_digit NUL" by (rule dec_digits)
    then show False by (simp add: is_digit_def)
  qed
  then have "NUL \<notin> set (greeting i)" by (simp add: greeting_def)
  moreover have "block i = greeting i @ NUL # replicate (127 - length (greeting i)) NUL"
    using length_greeting [OF assms] by (simp add: block_def flip: replicate_Suc)
  ultimately show ?thesis by (simp add: cstr_append_NUL)
qed

definition fifo_inv :: "fifo_state \<Rightarrow> bool" where
  "fifo_inv s \<longleftrightarrow> fprinted s = map greeting [0..<length (fprinted s)] \<and> length (fprinted s) \<le> fcount s
     \<and> fcount s \<le> 2147483647 \<and> fbuf s = concat (map block [length (fprinted s)..<fcount s])
     \<and> (freader s = FDone \<longrightarrow> fprinted s = map greeting [0..<fcount s] \<and> fifo_gone (fwriter s))"

lemma concat_blocks:
  assumes "k \<le> n" "n \<le> 2147483647"
  shows "concat (map block [k..<n]) = [] \<longleftrightarrow> k = n"
    "k < n \<Longrightarrow> take 128 (concat (map block [k..<n])) = block k \<and> drop 128 (concat (map block [k..<n])) = concat (map block [Suc k..<n])"
proof -
  have split: "concat (map block [k..<n]) = block k @ concat (map block [Suc k..<n])" if "k < n"
    using that by (simp add: upt_conv_Cons)
  show "take 128 (concat (map block [k..<n])) = block k \<and> drop 128 (concat (map block [k..<n])) = concat (map block [Suc k..<n])"
    if "k < n" using split [OF that] assms that by simp
  have "block k \<noteq> []" if "k < n" using length_block [of k] that assms by (metis gr_implies_not0 length_0_conv less_le_trans zero_neq_numeral)
  with split assms show "concat (map block [k..<n]) = [] \<longleftrightarrow> k = n" by (cases "k = n") auto
qed

lemma fifo_inv_write:
  assumes inv: "fifo_inv s" and step: "fifo_write s = Some t"
  shows "fifo_inv t"
proof (cases "fifo_gone (freader s)")
  case True
  with step have "t = s\<lparr>fwriter := FKilled\<rparr>" by (simp add: fifo_write_def split: if_splits)
  with inv show ?thesis by (simp add: fifo_inv_def fifo_gone_def)
next
  case False
  with step have t: "fcount s < 2147483647" "t = s\<lparr>fbuf := fbuf s @ block (fcount s), fcount := fcount s + 1\<rparr>"
    by (auto simp: fifo_write_def split: if_splits)
  from False have "freader s \<noteq> FDone" by (auto simp: fifo_gone_def)
  with inv t show ?thesis by (simp add: fifo_inv_def)
qed

lemma fifo_inv_read:
  assumes inv: "fifo_inv s" and step: "fifo_read s = Some t"
  shows "fifo_inv t"
proof -
  let ?k = "length (fprinted s)"
  have I: "fprinted s = map greeting [0..<?k]" "?k \<le> fcount s" "fcount s \<le> 2147483647"
    "fbuf s = concat (map block [?k..<fcount s])" using inv by (simp_all add: fifo_inv_def)
  have loop: "freader s = FLoop" using step by (simp add: fifo_read_def split: if_splits)
  show ?thesis
  proof (cases "fbuf s = []")
    case True
    with I have k: "?k = fcount s" using concat_blocks(1) [OF I(2,3)] by simp
    from step True loop have "t = s\<lparr>freader := FDone\<rparr>" "fifo_gone (fwriter s)"
      by (simp_all add: fifo_read_def split: if_splits)
    with inv k I(1) show ?thesis by (simp add: fifo_inv_def)
  next
    case False
    then have "?k \<noteq> fcount s" using I(4) by auto
    with I(2) have less: "?k < fcount s" by simp
    then have c: "take 128 (fbuf s) = block ?k" "drop 128 (fbuf s) = concat (map block [Suc ?k..<fcount s])"
      using concat_blocks(2) [OF I(2,3)] I(4) by simp_all
    have "?k < 2147483647" using less I(3) by simp
    with step False loop c have t: "t = s\<lparr>fbuf := concat (map block [Suc ?k..<fcount s]), fprinted := fprinted s @ [greeting ?k]\<rparr>"
      by (simp add: fifo_read_def)
    have "fprinted t = map greeting [0..<length (fprinted t)]" using t I(1) by simp
    with t less I loop show ?thesis by (simp add: fifo_inv_def)
  qed
qed

lemma fifo_inv_ends:
  assumes "fifo_inv s" "freader t \<noteq> FDone" "fprinted t = fprinted s" "fcount t = fcount s" "fbuf t = fbuf s"
  shows "fifo_inv t"
  using assms by (simp add: fifo_inv_def)

lemma fifo_inv_exec:
  assumes inv: "fifo_inv s" and step: "fifo_exec a s = Some t"
  shows "fifo_inv t"
proof (cases a)
  case FWrite
  with step show ?thesis using fifo_inv_write [OF inv] by (simp add: fifo_exec_def)
next
  case FRead
  with step show ?thesis using fifo_inv_read [OF inv] by (simp add: fifo_exec_def)
next
  case FConnect
  with step have "t = s\<lparr>fwriter := FLoop, freader := FLoop\<rparr>" by (simp add: fifo_exec_def split: if_splits)
  then show ?thesis by (intro fifo_inv_ends [OF inv]) simp_all
next
  case KillReader
  with step have "t = s\<lparr>freader := FKilled\<rparr>" by (simp add: fifo_exec_def split: if_splits)
  then show ?thesis by (intro fifo_inv_ends [OF inv]) simp_all
next
  case KillWriter
  with step have "t = s\<lparr>fwriter := FKilled\<rparr>" by (simp add: fifo_exec_def split: if_splits)
  with inv show ?thesis by (simp add: fifo_inv_def fifo_gone_def)
qed

lemma fifo_inv_start: "fifo_inv fifo_start"
  by (simp add: fifo_inv_def fifo_start_def)

interpretation fifo: invariant_system "\<lambda>s. s = fifo_start" fifo_exec fifo_inv
  by unfold_locales (auto intro: fifo_inv_exec fifo_inv_start)

subsection \<open>8\_mmap\_fork.c\<close>

text \<open>The 4096 bytes both processes see, from the child's copy to the parent's output after \<^verbatim>\<open>wait\<close>. The exit status and
  what was printed; \<open>None\<close> is the child.\<close>

definition mmap_text :: "byte list" where
  "mmap_text = ''int munmap void addr size_t length''"

definition mmap_child :: "byte list \<Rightarrow> byte list" where
  "mmap_child page = mmap_text @ drop (length mmap_text) page"

definition mmap_main :: "bool \<Rightarrow> bool \<Rightarrow> int \<times> byte list option" where
  "mmap_main mmap_ok fork_ok =
     (if \<not> mmap_ok then (1, None)
      else if \<not> fork_ok then (1, None)
      else (0, Some (cstr (mmap_child (replicate 4096 NUL)))))"

lemma mmap_parent_reads_text: "mmap_main True True = (0, Some mmap_text)"
proof -
  have "mmap_child (replicate 4096 NUL) = mmap_text @ NUL # replicate (4095 - length mmap_text) NUL"
    by (simp add: mmap_child_def mmap_text_def flip: replicate_Suc)
  moreover have "NUL \<notin> set mmap_text" by code_simp
  ultimately show ?thesis by (simp add: mmap_main_def cstr_append_NUL)
qed

subsection \<open>Properties\<close>

text \<open>The blocking pipe delivers: when neither process can go on, in whatever order they have run, the child has printed what the
  parent wrote and both have ended successfully.\<close>

theorem pipe_fork_delivers:
  assumes "reach pipe_init (lstep (pipe_exec False)) s" "\<nexists>t. lstep (pipe_exec False) s t"
  shows "shown s = Some ''123456'' \<and> par s = PaExit 0 \<and> chi s = ChExit 0"
proof -
  have inv: "pipe_inv False s" using pipe_fork.inv_reach [of False, OF assms(1)] .
  have "pipe_exec False a s = None" for a using assms(2) by (cases "pipe_exec False a s") (auto simp: lstep_iff)
  from pipe_stuck [OF inv this] inv show ?thesis by (auto simp: pipe_inv_def)
qed

text \<open>The non-blocking variant delivers or fails: the child prints what the parent wrote, or it finds the pipe empty, prints nothing and exits
  with -1; then the parent succeeds or is killed by \<^verbatim>\<open>SIGPIPE\<close>, depending on who comes first.\<close>

theorem pipe_nonblock_outcomes:
  assumes "reach pipe_init (lstep (pipe_exec True)) s" "\<nexists>t. lstep (pipe_exec True) s t"
  shows "(shown s, chi s, par s) \<in> {(Some ''123456'', ChExit 0, PaExit 0), (None, ChExit (-1), PaExit 0), (None, ChExit (-1), PaKilled)}"
proof -
  have inv: "pipe_inv True s" using pipe_fork.inv_reach [of True, OF assms(1)] .
  have "pipe_exec True a s = None" for a using assms(2) by (cases "pipe_exec True a s") (auto simp: lstep_iff)
  from pipe_stuck [OF inv this] inv show ?thesis by (auto simp: pipe_inv_def)
qed

text \<open>Messages through the named pipe are never torn, lost, repeated or reordered: at any time, whoever has been killed,
  the reader has printed the greetings 0, 1, 2 and so on up to some number that was written, and all of them if it ended by itself.\<close>

theorem fifo_messages_whole:
  assumes "reach (\<lambda>s. s = fifo_start) (lstep fifo_exec) s"
  shows "\<exists>k \<le> fcount s. fprinted s = map greeting [0..<k] \<and> (freader s \<noteq> FDone \<or> k = fcount s)"
proof -
  have inv: "fifo_inv s" by (rule fifo.inv_reach [OF assms])
  show ?thesis
  proof (cases "freader s = FDone")
    case True
    with inv show ?thesis by (intro exI [of _ "fcount s"]) (simp add: fifo_inv_def)
  next
    case False
    with inv show ?thesis by (intro exI [of _ "length (fprinted s)"]) (simp add: fifo_inv_def)
  qed
qed

subsection \<open>Instances\<close>

definition pipe_start :: pipe_state where
  "pipe_start = projr (pipe_main True True)"

lemma pipe_start: "pipe_init pipe_start"
  by (simp add: pipe_start_def pipe_init_def pipe_main_def)

lemma pipe_ended:
  assumes "pipe_parent s = None" "pipe_child nb s = None"
  shows "\<nexists>t. lstep (pipe_exec nb) s t"
  using assms by (auto simp: lstep_iff pipe_exec_def split: if_splits)

theorem pipe_fork_delivers_witness:
  "shown (the (run_actions (pipe_exec False) [False, True, True, False, False, True] pipe_start)) = Some ''123456''"
proof -
  let ?s = "the (run_actions (pipe_exec False) [False, True, True, False, False, True] pipe_start)"
  have "run_actions (pipe_exec False) [False, True, True, False, False, True] pipe_start = Some ?s" by code_simp
  then have "reach pipe_init (lstep (pipe_exec False)) ?s" by (rule reach_from_init [of pipe_init, OF pipe_start])
  moreover have "pipe_parent ?s = None" "pipe_child False ?s = None" by code_simp+
  then have "\<nexists>t. lstep (pipe_exec False) ?s t" by (rule pipe_ended)
  ultimately show ?thesis using pipe_fork_delivers by blast
qed

theorem pipe_nonblock_outcomes_witness:
  "let s = the (run_actions (pipe_exec True) [False, False, False, False, True, True] pipe_start) in
   (shown s, chi s, par s) \<in> {(Some ''123456'', ChExit 0, PaExit 0), (None, ChExit (-1), PaExit 0), (None, ChExit (-1), PaKilled)}"
proof -
  let ?s = "the (run_actions (pipe_exec True) [False, False, False, False, True, True] pipe_start)"
  have "run_actions (pipe_exec True) [False, False, False, False, True, True] pipe_start = Some ?s" by code_simp
  then have "reach pipe_init (lstep (pipe_exec True)) ?s" by (rule reach_from_init [of pipe_init, OF pipe_start])
  moreover have "pipe_parent ?s = None" "pipe_child True ?s = None" by code_simp+
  then have "\<nexists>t. lstep (pipe_exec True) ?s t" by (rule pipe_ended)
  ultimately show ?thesis unfolding Let_def by (rule pipe_nonblock_outcomes)
qed

lemma block_nonempty [simp]: "i < 2147483647 \<Longrightarrow> block i \<noteq> []"
  using length_block [of i] by (metis length_0_conv zero_neq_numeral)

theorem fifo_messages_whole_witness:
  "\<exists>s. run_actions fifo_exec [FConnect, FWrite, FWrite, FRead] fifo_start = Some s
     \<and> (\<exists>k \<le> 2. fprinted s = map greeting [0..<k])"
proof -
  let ?s = "\<lparr>fbuf = block 1, fwriter = FLoop, freader = FLoop, fcount = 2, fprinted = [greeting 0]\<rparr>"
  have run: "run_actions fifo_exec [FConnect, FWrite, FWrite, FRead] fifo_start = Some ?s"
    by (simp add: fifo_exec_def fifo_write_def fifo_read_def fifo_start_def fifo_gone_def)
  then have "reach (\<lambda>s. s = fifo_start) (lstep fifo_exec) ?s" by (rule reach_from_init [of "\<lambda>s. s = fifo_start", OF refl])
  from fifo_messages_whole [OF this] run show ?thesis by auto
qed

end
