(* ===== verification/Processes.thy ===== *)
theory Processes
  imports Prelude "HOL-Library.Word"
begin

unbundle bit_operations_syntax

section \<open>Processes (2\_process\_c)\<close>

text \<open>
  \<^verbatim>\<open>concurrence_linux/2_process_c\<close>: what a parent learns of its child's end (\<^verbatim>\<open>6_wait.c\<close>, \<^verbatim>\<open>7_waitpid.c\<close>), a file
  shared by both (\<^verbatim>\<open>11_homework.c\<close>), and memory that is not (\<^verbatim>\<open>4_fork.c\<close>). A wait status is the \<^verbatim>\<open>int\<close> of Linux: the exit code in
  the second byte, or the number of the signal in the lowest seven bits; the macros of \<^verbatim>\<open>sys/wait.h\<close> take it apart.
\<close>

subsection \<open>6\_wait.c and 7\_waitpid.c\<close>

datatype child_end = ChildExits int | ChildKilled nat

definition wait_status :: "child_end \<Rightarrow> 32 word" where
  "wait_status e =
     (case e of
        ChildExits c \<Rightarrow> push_bit 8 (word_of_int c AND 0xff)
      | ChildKilled sig \<Rightarrow> word_of_nat sig)"

definition WIFEXITED :: "32 word \<Rightarrow> bool" where
  "WIFEXITED s \<longleftrightarrow> s AND 0x7f = 0"

definition WEXITSTATUS :: "32 word \<Rightarrow> int" where
  "WEXITSTATUS s = uint (drop_bit 8 (s AND 0xff00))"

definition WTERMSIG :: "32 word \<Rightarrow> int" where
  "WTERMSIG s = uint (s AND 0x7f)"

text \<open>\<^verbatim>\<open>(signed char)((status & 0x7f) + 1) >> 1) > 0\<close>\<close>

definition WIFSIGNALED :: "32 word \<Rightarrow> bool" where
  "WIFSIGNALED s \<longleftrightarrow> (let v = uint (s AND 0x7f) + 1; c = (if v \<ge> 128 then v - 256 else v) in c div 2 > 0)"

definition WSTOPSIG :: "32 word \<Rightarrow> int" where
  "WSTOPSIG s = WEXITSTATUS s"

definition WIFCONTINUED :: "32 word \<Rightarrow> bool" where
  "WIFCONTINUED s \<longleftrightarrow> s = 0xffff"

datatype report = Normally int | BySignal int | Paused bool | Silent

definition report_status :: "32 word \<Rightarrow> report" where
  "report_status status =
     (if WIFEXITED status then Normally (WEXITSTATUS status)
      else if WIFSIGNALED status then BySignal (WTERMSIG status)
      else if WSTOPSIG status \<noteq> 0 then Paused (WIFCONTINUED status)
      else Silent)"

text \<open>The parent: its exit status and what it says of the child. \<open>fork_ok\<close>, \<open>wait_ok\<close>: these calls succeed.\<close>

definition wait_main :: "bool \<Rightarrow> bool \<Rightarrow> child_end \<Rightarrow> int \<times> report option" where
  "wait_main fork_ok wait_ok e =
     (if \<not> fork_ok then (1, None)
      else if \<not> wait_ok then (1, None)
      else (0, Some (report_status (wait_status e))))"

text \<open>
  With \<^verbatim>\<open>WNOHANG\<close> a child that is still running (\<open>None\<close>) makes \<^verbatim>\<open>waitpid\<close> return 0 and leave \<^verbatim>\<open>status\<close> as it was initialised, -1.
\<close>

definition waitpid_main :: "bool \<Rightarrow> bool \<Rightarrow> child_end option \<Rightarrow> int \<times> report option" where
  "waitpid_main fork_ok wait_ok e =
     (if \<not> fork_ok then (1, None)
      else if \<not> wait_ok then (1, None)
      else (0, Some (report_status (case e of Some x \<Rightarrow> wait_status x | None \<Rightarrow> -1))))"

lemma status_of_exit:
  "WIFEXITED (wait_status (ChildExits c))" "WEXITSTATUS (wait_status (ChildExits c)) = c mod 256"
proof -
  let ?w = "word_of_int c AND (0xff :: 32 word)"
  have ff: "(0xff :: 32 word) = mask 8" "(0x7f :: 32 word) = mask 7" "(0xff00 :: 32 word) = push_bit 8 (mask 8)"
    by (simp_all add: mask_eq_exp_minus_1 push_bit_eq_mult)
  have "push_bit 8 ?w AND 0x7f = 0"
    unfolding ff by (rule bit_word_eqI) (auto simp: bit_simps)
  then show "WIFEXITED (wait_status (ChildExits c))" by (simp add: WIFEXITED_def wait_status_def)
  have "drop_bit 8 (push_bit 8 ?w AND 0xff00) = ?w"
    unfolding ff by (rule bit_word_eqI) (auto simp: bit_simps)
  moreover have "uint ?w = c mod 256"
    unfolding ff take_bit_eq_mask [symmetric]
    by (subst unsigned_take_bit_eq) (simp add: uint_word_of_int take_bit_eq_mod mod_mod_cancel)
  ultimately show "WEXITSTATUS (wait_status (ChildExits c)) = c mod 256"
    by (simp add: WEXITSTATUS_def wait_status_def)
qed

lemma status_of_signal:
  assumes "0 < sig" "sig < 127"
  shows "uint (wait_status (ChildKilled sig) AND 0x7f) = int sig"
proof -
  have "(0x7f :: 32 word) = mask 7" by (simp add: mask_eq_exp_minus_1)
  then have "wait_status (ChildKilled sig) AND 0x7f = take_bit 7 (word_of_nat sig :: 32 word)"
    by (simp add: wait_status_def take_bit_eq_mask)
  also have "uint \<dots> = int sig"
    using assms by (subst unsigned_take_bit_eq) (simp add: take_bit_eq_mod unsigned_of_nat take_bit_nat_eq_self)
  finally show ?thesis .
qed

subsection \<open>11\_homework.c\<close>

text \<open>
  The file \<^verbatim>\<open>1.txt\<close> and the offset that parent and child share. The child writes at the offset, over what is there.
  The result is the parent's exit status and what it prints, \<open>None\<close> in the second place when a full buffer without a NUL is printed.
\<close>

definition write_at :: "nat \<Rightarrow> byte list \<Rightarrow> byte list \<Rightarrow> byte list" where
  "write_at off bs file = take off file @ replicate (off - length file) NUL @ bs @ drop (off + length bs) file"

definition homework_child :: "byte list \<times> nat \<Rightarrow> byte list \<times> nat" where
  "homework_child fo = (write_at (snd fo) ''abcdefg'' (fst fo), snd fo + 7)"

definition homework_main :: "bool \<Rightarrow> bool \<Rightarrow> bool \<Rightarrow> bool \<Rightarrow> byte list \<Rightarrow> int \<times> byte list option" where
  "homework_main open_ok fork_ok write_ok wait_ok file =
     (if \<not> open_ok then (1, Some [])
      else if \<not> fork_ok then (1, Some [])
      else if \<not> wait_ok then (1, Some [])
      else let file' = (if write_ok then fst (homework_child (file, 0)) else file);
               buf = take 128 file' @ replicate (128 - length file') NUL
           in (0, if NUL \<in> set buf then Some (cstr buf) else None))"

subsection \<open>1\_file\_c/4\_lseek.c\<close>

text \<open>
  A file with a hole: the numbers that \<^verbatim>\<open>lseek\<close> and \<^verbatim>\<open>read\<close> return and the string printed, \<open>None\<close> when the full buffer has no NUL.
  All calls succeed, but the \<^verbatim>\<open>open\<close> may fail.
\<close>

definition lseek_main :: "bool \<Rightarrow> byte list \<Rightarrow> int \<times> (nat \<times> nat \<times> byte list option) option" where
  "lseek_main open_ok file =
     (if \<not> open_ok then (1, None)
      else let file' = write_at 32 ''jack'' (write_at 0 ''abcd'' file);
               got = take 1024 file';
               buf = got @ replicate (1024 - length got) NUL
           in (0, Some (32, length got, if NUL \<in> set buf then Some (cstr buf) else None)))"

text \<open>In a new file the bytes in between read as NUL, so only the first word is printed, of 36 bytes read.\<close>

lemma lseek_hole: "lseek_main True [] = (0, Some (32, 36, Some ''abcd''))"
proof -
  have "write_at 32 ''jack'' (write_at 0 ''abcd'' []) = ''abcd'' @ NUL # replicate 27 NUL @ ''jack''"
    by (simp add: write_at_def eval_nat_numeral)
  then show ?thesis by (simp add: lseek_main_def Let_def)
qed

subsection \<open>4\_fork.c\<close>

text \<open>After \<^verbatim>\<open>fork\<close> each process has its own \<^verbatim>\<open>num\<close> and \<^verbatim>\<open>*p\<close>. Parent and child each print a list of pairs (\<^verbatim>\<open>num\<close>, \<^verbatim>\<open>*p\<close>).\<close>

definition fork_parent :: "int \<times> int \<Rightarrow> (int \<times> int) list" where
  "fork_parent m = [m, (fst m + 1, snd m + 1)]"

definition fork_child :: "int \<times> int \<Rightarrow> (int \<times> int) list" where
  "fork_child m = [m]"

definition fork_main :: "bool \<Rightarrow> bool \<Rightarrow> int \<times> (int \<times> int) list \<times> (int \<times> int) list" where
  "fork_main malloc_ok fork_ok =
     (if \<not> malloc_ok then (1, [], [])
      else if \<not> fork_ok then (1, [], [])
      else (0, fork_parent (88, 0), fork_child (88, 0)))"

subsection \<open>Properties\<close>

text \<open>The parent reports the end of its child truthfully: the exit code modulo 256 of one that exits, the signal of one
  that is killed, for every code and every signal number.\<close>

theorem wait_reports_truth:
  assumes "case e of ChildExits c \<Rightarrow> True | ChildKilled sig \<Rightarrow> 0 < sig \<and> sig < 127"
  shows "wait_main True True e =
     (0, Some (case e of ChildExits c \<Rightarrow> Normally (c mod 256) | ChildKilled sig \<Rightarrow> BySignal (int sig)))"
proof (cases e)
  case (ChildExits c)
  then show ?thesis by (simp add: wait_main_def report_status_def status_of_exit)
next
  case (ChildKilled sig)
  with assms have sig: "0 < sig" "sig < 127" by simp_all
  note u = status_of_signal [OF sig]
  have "wait_status (ChildKilled sig) AND 0x7f \<noteq> 0"
  proof
    assume "wait_status (ChildKilled sig) AND 0x7f = 0"
    then show False using u sig by simp
  qed
  then have "\<not> WIFEXITED (wait_status (ChildKilled sig))" by (simp add: WIFEXITED_def)
  moreover have "WIFSIGNALED (wait_status (ChildKilled sig))"
    using u sig by (auto simp: WIFSIGNALED_def Let_def)
  ultimately show ?thesis using ChildKilled u
    by (simp add: wait_main_def report_status_def WTERMSIG_def)
qed

text \<open>Polling with \<^verbatim>\<open>WNOHANG\<close> says of a child that is still running that it was paused, since the -1 left in \<^verbatim>\<open>status\<close> is read as a status.\<close>

theorem waitpid_misreports_running_child: "waitpid_main True True None = (0, Some (Paused False))"
  by (simp add: waitpid_main_def report_status_def WIFEXITED_def WIFSIGNALED_def WSTOPSIG_def WEXITSTATUS_def
      WIFCONTINUED_def Let_def drop_bit_eq_div)

text \<open>The parent reads what the child wrote through the shared descriptor, followed by what was in the file behind it: a longer old file is
  not cut.\<close>

theorem homework_reads_child:
  assumes "length file < 128" "NUL \<notin> set file"
  shows "homework_main True True True True file = (0, Some (''abcdefg'' @ drop 7 file))"
proof -
  define f where "f = ''abcdefg'' @ drop 7 file"
  have child: "fst (homework_child (file, 0)) = f" by (simp add: homework_child_def write_at_def eval_nat_numeral f_def)
  have len: "length f < 128" using assms(1) by (simp add: f_def)
  then have buf: "take 128 f @ replicate (128 - length f) NUL = f @ NUL # replicate (127 - length f) NUL"
    by (simp flip: replicate_Suc)
  have "NUL \<notin> set f" using assms(2) by (auto simp: f_def dest: in_set_dropD)
  then have "NUL \<in> set (f @ NUL # replicate (127 - length f) NUL)" "cstr (f @ NUL # replicate (127 - length f) NUL) = f"
    by (simp_all add: cstr_append_NUL)
  then show ?thesis
    by (simp only: homework_main_def Let_def child buf simp_thms if_True if_False f_def [symmetric])
qed

subsection \<open>Instances\<close>

theorem wait_reports_truth_witness:
  "wait_main True True (ChildExits 10) = (0, Some (Normally 10)) \<and> wait_main True True (ChildKilled 15) = (0, Some (BySignal 15))"
  using wait_reports_truth [of "ChildExits 10"] wait_reports_truth [of "ChildKilled 15"] by simp

theorem homework_reads_child_witness: "homework_main True True True True ''0123456789'' = (0, Some ''abcdefg789'')"
  using homework_reads_child [of "''0123456789''"] by (simp add: eval_nat_numeral)

end
