(* ===== verification/Threads.thy ===== *)
theory Threads
  imports Transition
begin

section \<open>Threads without synchronisation (6\_thread\_c)\<close>

text \<open>
  \<^verbatim>\<open>concurrence_linux/6_thread_c/6_test.c\<close>: two threads that print the alphabet, one letter at a time, with nothing that orders them.
  \<^verbatim>\<open>4_share_pthread.c\<close>: a thread and \<^verbatim>\<open>main\<close> change a global variable and a cell of the heap, and \<^verbatim>\<open>main\<close> frees the cell without a join.
\<close>

subsection \<open>6\_test.c\<close>

text \<open>The loop variables \<^verbatim>\<open>i\<close> of the two threads, what \<^verbatim>\<open>main\<close> has joined (one more when it has printed the newline), the output.\<close>

record letters =
  upper_i :: nat
  lower_i :: nat
  ljoined :: nat
  lout :: "byte list"

definition letter_turn :: "nat \<Rightarrow> nat \<Rightarrow> (byte \<times> nat) option" where
  "letter_turn z i = (if i \<le> z then Some (char_of i, i + 1) else None)"

definition upper_fun :: "letters \<Rightarrow> letters option" where
  "upper_fun s =
     (case letter_turn (of_char (CHR ''Z'')) (upper_i s) of
        None \<Rightarrow> None | Some (c, i) \<Rightarrow> Some (s\<lparr>upper_i := i, lout := lout s @ [c]\<rparr>))"

definition lower_fun :: "letters \<Rightarrow> letters option" where
  "lower_fun s =
     (case letter_turn (of_char (CHR ''z'')) (lower_i s) of
        None \<Rightarrow> None | Some (c, i) \<Rightarrow> Some (s\<lparr>lower_i := i, lout := lout s @ [c]\<rparr>))"

text \<open>\<^verbatim>\<open>main\<close> joins the first thread, then the second, then prints the newline.\<close>

definition letters_main :: "letters \<Rightarrow> letters option" where
  "letters_main s =
     (if ljoined s = 0 then
        (if upper_i s > of_char (CHR ''Z'') then Some (s\<lparr>ljoined := 1\<rparr>) else None)
      else if ljoined s = 1 then
        (if lower_i s > of_char (CHR ''z'') then Some (s\<lparr>ljoined := 2\<rparr>) else None)
      else if ljoined s = 2 then Some (s\<lparr>ljoined := 3, lout := lout s @ [CHR 0x0A]\<rparr>)
      else None)"

datatype letters_agent = Upper | Lower | LettersMain

definition letters_exec :: "letters_agent \<Rightarrow> letters \<Rightarrow> letters option" where
  "letters_exec a s = (case a of Upper \<Rightarrow> upper_fun s | Lower \<Rightarrow> lower_fun s | LettersMain \<Rightarrow> letters_main s)"

definition letters_start :: letters where
  "letters_start = \<lparr>upper_i = of_char (CHR ''A''), lower_i = of_char (CHR ''a''), ljoined = 0, lout = []\<rparr>"

definition letters_from :: "nat \<Rightarrow> nat \<Rightarrow> byte list" where
  "letters_from a b = map char_of [a..<b]"

lemma letters_from_Suc [simp]: "a \<le> b \<Longrightarrow> letters_from a (Suc b) = letters_from a b @ [char_of b]"
  by (simp add: letters_from_def)

lemma letters_from_self [simp]: "letters_from a a = []"
  by (simp add: letters_from_def)

lemma letters_from_Cons: "a < b \<Longrightarrow> letters_from a b = char_of a # letters_from (Suc a) b"
  by (simp add: letters_from_def upt_conv_Cons)

lemma snoc_in_shuffles: "ys @ [x] \<in> shuffles [x] ys" "ys @ [x] \<in> shuffles ys [x]"
  by (induction ys) (auto simp: Cons_in_shuffles_iff)

lemma letters_from_Nil [simp]: "letters_from a b = [] \<longleftrightarrow> b \<le> a"
  by (auto simp: letters_from_def)

lemma Cons_in_letters:
  assumes "c # z \<in> shuffles (letters_from a m) (letters_from b n)"
  shows "a < m \<and> c = char_of a \<and> z \<in> shuffles (letters_from (Suc a) m) (letters_from b n)
     \<or> b < n \<and> c = char_of b \<and> z \<in> shuffles (letters_from a m) (letters_from (Suc b) n)"
proof -
  have "hd (letters_from i k) = char_of i \<and> tl (letters_from i k) = letters_from (Suc i) k" if "i < k" for i k
    using that by (simp add: letters_from_Cons)
  with assms show ?thesis by (auto simp: Cons_in_shuffles_iff not_le)
qed

lemma shuffles_snocI:
  assumes "zs \<in> shuffles xs ys"
  shows "zs @ [x] \<in> shuffles (xs @ [x]) ys" "zs @ [y] \<in> shuffles xs (ys @ [y])"
  using assms
  by (induction xs ys arbitrary: zs rule: shuffles.induct) (auto simp: Cons_in_shuffles_iff snoc_in_shuffles)

text \<open>The invariant: what is out is an interleaving of what each thread has printed.\<close>

definition letters_inv :: "letters \<Rightarrow> bool" where
  "letters_inv s \<longleftrightarrow>
     65 \<le> upper_i s \<and> upper_i s \<le> 91 \<and> 97 \<le> lower_i s \<and> lower_i s \<le> 123 \<and> ljoined s \<le> 3
     \<and> (0 < ljoined s \<longrightarrow> upper_i s = 91) \<and> (1 < ljoined s \<longrightarrow> lower_i s = 123)
     \<and> (\<exists>z \<in> shuffles (letters_from 65 (upper_i s)) (letters_from 97 (lower_i s)).
          lout s = z @ (if ljoined s = 3 then [CHR 0x0A] else []))"

lemma letters_invD:
  assumes "letters_inv s"
  obtains z where "65 \<le> upper_i s" "upper_i s \<le> 91" "97 \<le> lower_i s" "lower_i s \<le> 123" "ljoined s \<le> 3"
    "0 < ljoined s \<Longrightarrow> upper_i s = 91" "1 < ljoined s \<Longrightarrow> lower_i s = 123"
    "z \<in> shuffles (letters_from 65 (upper_i s)) (letters_from 97 (lower_i s))"
    "lout s = z @ (if ljoined s = 3 then [CHR 0x0A] else [])"
  using assms unfolding letters_inv_def by (elim conjE bexE) (rule that; simp)

lemma letters_inv_start: "letters_inv letters_start"
  by (simp add: letters_inv_def letters_start_def)

lemma letters_inv_exec:
  assumes inv: "letters_inv s" and step: "letters_exec a s = Some t"
  shows "letters_inv t"
proof -
  from inv obtain z where I: "65 \<le> upper_i s" "upper_i s \<le> 91" "97 \<le> lower_i s" "lower_i s \<le> 123" "ljoined s \<le> 3"
    "0 < ljoined s \<Longrightarrow> upper_i s = 91" "1 < ljoined s \<Longrightarrow> lower_i s = 123"
    and z: "z \<in> shuffles (letters_from 65 (upper_i s)) (letters_from 97 (lower_i s))"
    and out: "lout s = z @ (if ljoined s = 3 then [CHR 0x0A] else [])"
    by (rule letters_invD) (rule that)
  show ?thesis
  proof (cases a)
    case Upper
    with step have u: "upper_i s \<le> 90" and t: "t = s\<lparr>upper_i := Suc (upper_i s), lout := lout s @ [char_of (upper_i s)]\<rparr>"
      by (auto simp: letters_exec_def upper_fun_def letter_turn_def split: if_splits)
    with I(6) have j: "ljoined s = 0" by (cases "ljoined s") simp_all
    from shuffles_snocI(1) [OF z, of "char_of (upper_i s)"] I u j out show ?thesis
      by (simp add: letters_inv_def t)
  next
    case Lower
    with step have l: "lower_i s \<le> 122" and t: "t = s\<lparr>lower_i := Suc (lower_i s), lout := lout s @ [char_of (lower_i s)]\<rparr>"
      by (auto simp: letters_exec_def lower_fun_def letter_turn_def split: if_splits)
    with I(7) have j: "ljoined s \<le> 1" by (cases "1 < ljoined s") simp_all
    from shuffles_snocI(2) [OF z, of "char_of (lower_i s)"] I l j out show ?thesis
      by (simp add: letters_inv_def t)
  next
    case LettersMain
    with step I z out show ?thesis
      by (auto simp: letters_exec_def letters_main_def letters_inv_def split: if_splits)
  qed
qed

interpretation letter_printers: invariant_system "\<lambda>s. s = letters_start" letters_exec letters_inv
  by unfold_locales (auto simp: letters_inv_start dest: letters_inv_exec)

text \<open>Nobody can move: both threads are through the alphabet and the newline is out.\<close>

lemma letters_stuck:
  assumes "letters_inv s" "\<And>a. letters_exec a s = None"
  shows "upper_i s = 91 \<and> lower_i s = 123 \<and> ljoined s = 3"
proof -
  from assms(2) [of Upper] have u: "\<not> upper_i s \<le> 90"
    by (auto simp: letters_exec_def upper_fun_def letter_turn_def split: if_splits)
  from assms(2) [of Lower] have l: "\<not> lower_i s \<le> 122"
    by (auto simp: letters_exec_def lower_fun_def letter_turn_def split: if_splits)
  from assms(2) [of LettersMain] u l have "ljoined s \<noteq> 0" "ljoined s \<noteq> 1" "ljoined s \<noteq> 2"
    by (auto simp: letters_exec_def letters_main_def split: if_splits)
  moreover from assms(1) have "upper_i s \<le> 91" "lower_i s \<le> 123" "ljoined s \<le> 3" by (simp_all add: letters_inv_def)
  ultimately show ?thesis using u l by simp
qed

text \<open>A schedule for every interleaving.\<close>

lemma letters_schedule:
  assumes "z \<in> shuffles (letters_from a 91) (letters_from b 123)" "a \<le> 91" "b \<le> 123"
  shows "\<exists>as. run_actions letters_exec as \<lparr>upper_i = a, lower_i = b, ljoined = 0, lout = out\<rparr>
     = Some \<lparr>upper_i = 91, lower_i = 123, ljoined = 0, lout = out @ z\<rparr>"
  using assms
proof (induction z arbitrary: a b out)
  case Nil
  then have "a = 91" "b = 123" by (auto simp: letters_from_def)
  then show ?case by (intro exI [of _ "[]"]) simp
next
  case (Cons c z)
  from Cons.prems(1) consider (upper) "a < 91" "c = char_of a" "z \<in> shuffles (letters_from (Suc a) 91) (letters_from b 123)"
    | (lower) "b < 123" "c = char_of b" "z \<in> shuffles (letters_from a 91) (letters_from (Suc b) 123)"
    using Cons_in_letters by blast
  then show ?case
  proof cases
    case upper
    with Cons.IH [of "Suc a" b "out @ [c]"] Cons.prems(3) obtain as where
      "run_actions letters_exec as \<lparr>upper_i = Suc a, lower_i = b, ljoined = 0, lout = out @ [c]\<rparr>
         = Some \<lparr>upper_i = 91, lower_i = 123, ljoined = 0, lout = out @ c # z\<rparr>" by auto
    with upper show ?thesis
      by (intro exI [of _ "Upper # as"]) (simp add: letters_exec_def [of Upper] upper_fun_def letter_turn_def)
  next
    case lower
    with Cons.IH [of a "Suc b" "out @ [c]"] Cons.prems(2) obtain as where
      "run_actions letters_exec as \<lparr>upper_i = a, lower_i = Suc b, ljoined = 0, lout = out @ [c]\<rparr>
         = Some \<lparr>upper_i = 91, lower_i = 123, ljoined = 0, lout = out @ c # z\<rparr>" by auto
    with lower show ?thesis
      by (intro exI [of _ "Lower # as"]) (simp add: letters_exec_def [of Lower] lower_fun_def letter_turn_def)
  qed
qed

text \<open>Without a lock the program can print every interleaving of the two alphabets, and nothing else: these, followed by a newline,
  are exactly the outputs of the executions that have come to their end.\<close>

theorem letters_outputs:
  "(\<exists>as s. run_actions letters_exec as letters_start = Some s \<and> (\<forall>a. letters_exec a s = None) \<and> lout s = out)
   \<longleftrightarrow> (\<exists>z \<in> shuffles ''ABCDEFGHIJKLMNOPQRSTUVWXYZ'' ''abcdefghijklmnopqrstuvwxyz''. out = z @ [CHR 0x0A])"
proof -
  have abc: "letters_from 65 91 = ''ABCDEFGHIJKLMNOPQRSTUVWXYZ''" "letters_from 97 123 = ''abcdefghijklmnopqrstuvwxyz''"
    by (simp_all add: letters_from_def char_of_def bit_0)
  have ends: "\<forall>a. letters_exec a \<lparr>upper_i = 91, lower_i = 123, ljoined = 3, lout = out\<rparr> = None" for out
    by (auto simp: letters_exec_def upper_fun_def lower_fun_def letters_main_def letter_turn_def split: letters_agent.split)
  have "(\<exists>as s. run_actions letters_exec as letters_start = Some s \<and> (\<forall>a. letters_exec a s = None) \<and> lout s = out)
    \<longleftrightarrow> (\<exists>z \<in> shuffles (letters_from 65 91) (letters_from 97 123). out = z @ [CHR 0x0A])" (is "?L \<longleftrightarrow> ?R")
  proof
    assume ?L
    then obtain as s where s: "run_actions letters_exec as letters_start = Some s" "\<And>a. letters_exec a s = None" "lout s = out"
      by blast
    have "letters_inv s" by (rule letter_printers.inv_run [OF letters_inv_start s(1)])
    with letters_stuck [OF this s(2)] s(3) show ?R by (simp add: letters_inv_def)
  next
    assume ?R
    then obtain z where z: "z \<in> shuffles (letters_from 65 91) (letters_from 97 123)" and out: "out = z @ [CHR 0x0A]"
      by blast
    from letters_schedule [OF z, of "[]"] obtain as where
      "run_actions letters_exec as letters_start = Some \<lparr>upper_i = 91, lower_i = 123, ljoined = 0, lout = z\<rparr>"
      by (auto simp: letters_start_def)
    then have "run_actions letters_exec (as @ [LettersMain, LettersMain, LettersMain]) letters_start
        = Some \<lparr>upper_i = 91, lower_i = 123, ljoined = 3, lout = out\<rparr>"
      by (simp add: run_actions_append letters_exec_def letters_main_def out)
    with ends show ?L by (intro exI conjI) auto
  qed
  then show ?thesis unfolding abc .
qed

subsection \<open>4\_share\_pthread.c\<close>

text \<open>
  Where the thread and \<^verbatim>\<open>main\<close> are; \<open>num++\<close> and \<open>(*n)++\<close> are a load into a register and a store. The cell is \<open>None\<close> once it is freed;
  \<open>sundef\<close> says that a freed cell was used. The execution is over then, and when \<^verbatim>\<open>main\<close> has returned. The thread was created.
\<close>

datatype tplace = T_before | T_load_num | T_store_num int | T_load_cell | T_store_cell int | T_after | T_end
datatype mplace = M_load_num | M_store_num int | M_load_cell | M_store_cell int | M_print | M_free | M_return | M_end

record share =
  snum :: int
  scell :: "int option"
  sthread :: tplace
  smain :: mplace
  sseen :: "(bool \<times> int \<times> int) list"   \<comment> \<open>what was printed, \<open>True\<close> by \<^verbatim>\<open>main\<close>\<close>
  sundef :: bool

definition share_print :: "bool \<Rightarrow> share \<Rightarrow> share" where
  "share_print m s =
     (case scell s of None \<Rightarrow> s\<lparr>sundef := True\<rparr> | Some v \<Rightarrow> s\<lparr>sseen := sseen s @ [(m, snum s, v)]\<rparr>)"

definition share_load :: "(int \<Rightarrow> share \<Rightarrow> share) \<Rightarrow> share \<Rightarrow> share" where
  "share_load k s = (case scell s of None \<Rightarrow> s\<lparr>sundef := True\<rparr> | Some v \<Rightarrow> k v s)"

definition share_store :: "int \<Rightarrow> share \<Rightarrow> share" where
  "share_store v s = (case scell s of None \<Rightarrow> s\<lparr>sundef := True\<rparr> | Some _ \<Rightarrow> s\<lparr>scell := Some v\<rparr>)"

definition share_fun :: "share \<Rightarrow> share option" where
  "share_fun s =
     (case sthread s of
        T_before \<Rightarrow> Some ((share_print False s)\<lparr>sthread := T_load_num\<rparr>)
      | T_load_num \<Rightarrow> Some (s\<lparr>sthread := T_store_num (snum s)\<rparr>)
      | T_store_num r \<Rightarrow> Some (s\<lparr>snum := r + 1, sthread := T_load_cell\<rparr>)
      | T_load_cell \<Rightarrow> Some (share_load (\<lambda>v s. s\<lparr>sthread := T_store_cell v\<rparr>) s)
      | T_store_cell r \<Rightarrow> Some ((share_store (r + 1) s)\<lparr>sthread := T_after\<rparr>)
      | T_after \<Rightarrow> Some ((share_print False s)\<lparr>sthread := T_end\<rparr>)
      | T_end \<Rightarrow> None)"

definition share_main :: "share \<Rightarrow> share option" where
  "share_main s =
     (case smain s of
        M_load_num \<Rightarrow> Some (s\<lparr>smain := M_store_num (snum s)\<rparr>)
      | M_store_num r \<Rightarrow> Some (s\<lparr>snum := r - 1, smain := M_load_cell\<rparr>)
      | M_load_cell \<Rightarrow> Some (share_load (\<lambda>v s. s\<lparr>smain := M_store_cell v\<rparr>) s)
      | M_store_cell r \<Rightarrow> Some ((share_store (r - 1) s)\<lparr>smain := M_print\<rparr>)
      | M_print \<Rightarrow> Some ((share_print True s)\<lparr>smain := M_free\<rparr>)
      | M_free \<Rightarrow> Some (s\<lparr>scell := None, smain := M_return\<rparr>)
      | M_return \<Rightarrow> Some (s\<lparr>smain := M_end\<rparr>)
      | M_end \<Rightarrow> None)"

text \<open>\<open>True\<close> is a step of \<^verbatim>\<open>main\<close>.\<close>

definition share_exec :: "bool \<Rightarrow> share \<Rightarrow> share option" where
  "share_exec m s = (if sundef s \<or> smain s = M_end then None else if m then share_main s else share_fun s)"

definition share_start :: share where
  "share_start = \<lparr>snum = 100, scell = Some 90, sthread = T_before, smain = M_load_num, sseen = [], sundef = False\<rparr>"

text \<open>
  The bounds. Whoever has not changed a variable yet leaves room for one change: before the thread's store the value has not grown,
  before the store of \<^verbatim>\<open>main\<close> it has not shrunk. \<open>between b up down v\<close>: \<open>v\<close> is within 1 of \<open>b\<close>, and on the right side.
\<close>

definition between :: "int \<Rightarrow> bool \<Rightarrow> bool \<Rightarrow> int \<Rightarrow> bool" where
  "between b up down v \<longleftrightarrow> (if down then b - 1 else b) \<le> v \<and> v \<le> (if up then b + 1 else b)"

definition thread_inv :: "share \<Rightarrow> bool" where
  "thread_inv s \<longleftrightarrow>
     (case sthread s of
        T_store_num r \<Rightarrow> between 100 False True r
      | T_store_cell r \<Rightarrow> between 90 False True r
      | _ \<Rightarrow> True)"

definition main_inv :: "share \<Rightarrow> bool" where
  "main_inv s \<longleftrightarrow>
     (case smain s of
        M_store_num r \<Rightarrow> between 100 True False r
      | M_store_cell r \<Rightarrow> between 90 True False r
      | _ \<Rightarrow> True)"

fun thread_raised_num :: "tplace \<Rightarrow> bool" where
  "thread_raised_num T_before = False"
| "thread_raised_num T_load_num = False"
| "thread_raised_num (T_store_num r) = False"
| "thread_raised_num _ = True"

fun thread_raised_cell :: "tplace \<Rightarrow> bool" where
  "thread_raised_cell T_after = True"
| "thread_raised_cell T_end = True"
| "thread_raised_cell _ = False"

fun main_lowered_num :: "mplace \<Rightarrow> bool" where
  "main_lowered_num M_load_num = False"
| "main_lowered_num (M_store_num r) = False"
| "main_lowered_num _ = True"

fun main_lowered_cell :: "mplace \<Rightarrow> bool" where
  "main_lowered_cell M_load_num = False"
| "main_lowered_cell (M_store_num r) = False"
| "main_lowered_cell M_load_cell = False"
| "main_lowered_cell (M_store_cell r) = False"
| "main_lowered_cell _ = True"

definition seen_ok :: "(bool \<times> int \<times> int) list \<Rightarrow> bool" where
  "seen_ok xs \<longleftrightarrow> (\<forall>p \<in> set xs. between 100 True True (fst (snd p)) \<and> between 90 True True (snd (snd p)))"

lemma seen_ok_simps [simp]:
  "seen_ok []"
  "seen_ok (xs @ [(m, n, v)]) \<longleftrightarrow> seen_ok xs \<and> between 100 True True n \<and> between 90 True True v"
  by (auto simp: seen_ok_def)

lemma between_steps:
  "between b up down v \<Longrightarrow> between b True True v"
  "between b up down v \<Longrightarrow> between b True down v"
  "between b up down v \<Longrightarrow> between b up True v"
  "between b False down v \<Longrightarrow> between b True down (v + 1)"
  "between b up False v \<Longrightarrow> between b up True (v - 1)"
  by (auto simp: between_def split: if_splits)

lemma between_store:
  "between b False True v \<Longrightarrow> between b False down w \<Longrightarrow> between b True down (v + 1)"
  "between b True False v \<Longrightarrow> between b up False w \<Longrightarrow> between b up True (v - 1)"
  by (auto simp: between_def split: if_splits)

definition share_inv :: "share \<Rightarrow> bool" where
  "share_inv s \<longleftrightarrow> thread_inv s \<and> main_inv s
     \<and> between 100 (thread_raised_num (sthread s)) (main_lowered_num (smain s)) (snum s)
     \<and> (case scell s of None \<Rightarrow> True | Some v \<Rightarrow> between 90 (thread_raised_cell (sthread s)) (main_lowered_cell (smain s)) v)
     \<and> seen_ok (sseen s)"

lemmas share_inv_defs = share_inv_def thread_inv_def main_inv_def

lemma share_inv_fun: "share_inv s \<Longrightarrow> share_fun s = Some t \<Longrightarrow> share_inv t"
  by (cases "sthread s"; cases "scell s")
    (auto simp: share_inv_defs share_fun_def share_print_def share_load_def share_store_def
      intro: between_steps between_store)

lemma share_inv_main: "share_inv s \<Longrightarrow> share_main s = Some t \<Longrightarrow> share_inv t"
  by (cases "smain s"; cases "scell s")
    (auto simp: share_inv_defs share_main_def share_print_def share_load_def share_store_def
      intro: between_steps between_store)

lemma share_inv_start: "share_inv share_start"
  by (simp add: share_inv_defs share_start_def between_def)

interpretation sharing: invariant_system "\<lambda>s. s = share_start" share_exec share_inv
  by unfold_locales
    (auto simp: share_inv_start share_exec_def split: if_splits dest: share_inv_fun share_inv_main)

text \<open>The four steps on one variable, so ordered that the change of both threads, of \<^verbatim>\<open>main\<close> alone, of the thread alone survives.\<close>

definition race :: "int \<Rightarrow> bool list" where
  "race d = (if d = 0 then [False, False, True, True] else if d < 0 then [False, True, False, True] else [False, True, True, False])"

text \<open>Whatever the interleaving, the race loses an update of either variable and does nothing worse to them: what \<^verbatim>\<open>main\<close> may print is
  exactly 99, 100 or 101 together with 89, 90 or 91.\<close>

theorem share_main_prints:
  "(\<exists>as s. run_actions share_exec as share_start = Some s \<and> (True, n, v) \<in> set (sseen s))
   \<longleftrightarrow> n \<in> {99, 100, 101} \<and> v \<in> {89, 90, 91}" (is "?L \<longleftrightarrow> ?R")
proof
  assume ?L
  then obtain as s where s: "run_actions share_exec as share_start = Some s" "(True, n, v) \<in> set (sseen s)" by blast
  from sharing.inv_run [OF share_inv_start s(1)] have "seen_ok (sseen s)" by (simp add: share_inv_def)
  with s(2) show ?R by (auto simp: seen_ok_def between_def)
next
  assume ?R
  then have "\<exists>s. run_actions share_exec (False # race (n - 100) @ race (v - 90) @ [True]) share_start = Some s
      \<and> (True, n, v) \<in> set (sseen s)"
    by (elim conjE insertE)
      (simp_all add: race_def share_exec_def share_fun_def share_main_def share_start_def share_print_def share_load_def share_store_def)
  then show ?L by blast
qed

text \<open>
  \<^verbatim>\<open>main\<close> does not join the thread, so it can free the cell before the thread has looked at it.
\<close>

lemma share_use_after_free:
  "\<exists>s. run_actions share_exec [True, True, True, True, True, True, False] share_start = Some s \<and> sundef s"
  by (simp add: share_exec_def share_fun_def share_main_def share_start_def share_print_def share_load_def share_store_def)

end
