(* ===== verification/ThreadLife.thy ===== *)
theory ThreadLife
  imports Transition
begin

section \<open>The life of a thread (6\_thread\_c)\<close>

text \<open>
  \<^verbatim>\<open>concurrence_linux/6_thread_c/5_pthread_join.c\<close>, \<^verbatim>\<open>7_pthread_detach.c\<close>, \<^verbatim>\<open>8_pthread_exit.c\<close>, \<^verbatim>\<open>9_pthread_cancel.c\<close> and \<^verbatim>\<open>10_pthread_attr.c\<close>: \<^verbatim>\<open>main\<close>
  creates one thread that prints five lines, a second apart, and waits for it, detaches it or cancels it. Each \<^verbatim>\<open>main\<close> is straight-line
  code and is modelled as the list of its calls; the thread is the loop of \<^verbatim>\<open>fun\<close>. Time is not modelled: a \<^verbatim>\<open>sleep\<close> is a point where
  the thread may be delayed. The first \<^verbatim>\<open>pthread_create\<close> and the attribute calls may fail. Joining a detached thread fails while the thread
  runs; its identifier must not be used any more once it has ended (\<open>bad\<close>). The end of \<^verbatim>\<open>main\<close> ends the process.
\<close>

subsection \<open>Threads\<close>

datatype outline = Child nat | Main string | MainRet int

datatype cstat =
    NotYet
  | Printing nat           \<comment> \<open>at the test of the loop with this \<^verbatim>\<open>i\<close>\<close>
  | Sleeping nat
  | Ended int              \<comment> \<open>its return value is kept for a join\<close>
  | Gone

text \<open>The calls of \<^verbatim>\<open>main\<close>, with the message printed when one fails; \<open>Join\<close>: whether a failure leads to \<^verbatim>\<open>return 1\<close>.\<close>

datatype call =
    Attr string | Create bool string | Detach string | Join bool string
  | Say string | SayRet | Key | Delay | Cancel

record life =
  calls :: "call list"
  child :: cstat
  detached :: bool
  cancelled :: bool
  retv :: int
  lines :: "outline list"
  exited :: "int option"
  bad :: bool

definition say :: "outline \<Rightarrow> life \<Rightarrow> life" where
  "say l s = s\<lparr>lines := lines s @ [l]\<rparr>"

definition give_up :: "string \<Rightarrow> life \<Rightarrow> life" where
  "give_up m s = (say (Main m) s)\<lparr>exited := Some 1\<rparr>"

definition finish :: "int \<Rightarrow> life \<Rightarrow> life" where
  "finish v s = s\<lparr>child := if detached s then Gone else Ended v\<rparr>"

text \<open>The next call of \<^verbatim>\<open>main\<close>; \<open>err\<close>: it fails.\<close>

definition main_call :: "bool \<Rightarrow> life \<Rightarrow> life option" where
  "main_call err s =
     (case calls s of
        [] \<Rightarrow> if err then None else Some (s\<lparr>exited := Some 0\<rparr>)
      | c # cs \<Rightarrow>
          (let s' = s\<lparr>calls := cs\<rparr> in
           case c of
             Attr m \<Rightarrow> Some (if err then give_up m s' else s')
           | Create d m \<Rightarrow> Some (if err then give_up m s' else s'\<lparr>child := Printing 0, detached := d\<rparr>)
           | Detach m \<Rightarrow>
               if err then None
               else Some (case child s of Ended v \<Rightarrow> s'\<lparr>child := Gone, detached := True\<rparr> | _ \<Rightarrow> s'\<lparr>detached := True\<rparr>)
           | Join fatal m \<Rightarrow>
               if err then None
               else if detached s then
                 Some (if child s = Gone then s\<lparr>bad := True\<rparr>
                       else if fatal then give_up m s' else say (Main m) s')
               else (case child s of Ended v \<Rightarrow> Some (s'\<lparr>child := Gone, retv := v\<rparr>) | _ \<Rightarrow> None)
           | Say t \<Rightarrow> if err then None else Some (say (Main t) s')
           | SayRet \<Rightarrow> if err then None else Some (say (MainRet (retv s)) s')
           | Key \<Rightarrow> if err then None else Some s'
           | Delay \<Rightarrow> if err then None else Some s'
           | Cancel \<Rightarrow> if err then None
                       else Some (if child s = Gone then s\<lparr>bad := True\<rparr> else s'\<lparr>cancelled := True\<rparr>)))"

text \<open>The thread; \<open>v\<close> is what it returns. It acts on a cancellation in \<^verbatim>\<open>sleep\<close>.\<close>

definition thread_fun :: "int \<Rightarrow> life \<Rightarrow> life option" where
  "thread_fun v s =
     (case child s of
        Printing i \<Rightarrow> Some (if i < 5 then (say (Child i) s)\<lparr>child := Sleeping i\<rparr> else finish v s)
      | Sleeping i \<Rightarrow> Some (if cancelled s then finish (-1) s else s\<lparr>child := Printing (Suc i)\<rparr>)
      | _ \<Rightarrow> None)"

datatype life_act = MainCall bool | ThreadFun

definition life_exec :: "int \<Rightarrow> life_act \<Rightarrow> life \<Rightarrow> life option" where
  "life_exec v a s =
     (if exited s \<noteq> None \<or> bad s then None
      else case a of MainCall err \<Rightarrow> main_call err s | ThreadFun \<Rightarrow> thread_fun v s)"

definition life_start :: "call list \<Rightarrow> life" where
  "life_start prog = \<lparr>calls = prog, child = NotYet, detached = False, cancelled = False, retv = 0, lines = [],
     exited = None, bad = False\<rparr>"

definition life_init :: "call list \<Rightarrow> life \<Rightarrow> bool" where
  "life_init prog s \<longleftrightarrow> s = life_start prog"

subsection \<open>The programs\<close>

definition join_main :: "call list" where
  "join_main = [Create False ''pthread_create failed....'', Say ''main thread runing....'',
     Join True ''pthread_join failed....'', SayRet]"

definition detach_main :: "call list" where
  "detach_main = [Create False ''pthread_create failed'', Detach ''pthread_detach failed'', Join False ''pthread_join faild'',
     Say ''press any key to continue....'', Key]"

definition exit_main :: "call list" where
  "exit_main = [Create False ''pthread_create failed'', Detach ''pthread_detach failed'', Join False ''pthread_join faild'',
     Say ''press any key to continue....'', Key]"

definition cancel_main :: "call list" where
  "cancel_main = [Create False ''pthread_create failed'', Detach ''pthread_detach failed'', Delay,
     Say ''after sleep three seconds, main thread cancel child thread...'', Cancel]"

definition attr_main :: "call list" where
  "attr_main = [Attr ''pthread_attr_init failed'', Attr ''pthread_attr_setdetachstate failed'', Create True ''pthread_create failed'',
     Join False ''pthread is detached status'', Say ''press any key to continue...'', Key]"

subsection \<open>Every run ends\<close>








definition joins :: "call list \<Rightarrow> nat" where
  "joins cs = length (filter (\<lambda>c. case c of Join f m \<Rightarrow> True | _ \<Rightarrow> False) cs)"

lemma joins_Cons [simp]: "joins [] = 0" "joins (c # cs) = (case c of Join f m \<Rightarrow> 1 | _ \<Rightarrow> 0) + joins cs"
  by (auto simp: joins_def split: call.split)










subsection \<open>What the joining program prints\<close>

fun printed :: "cstat \<Rightarrow> nat" where
  "printed NotYet = 0"
| "printed (Printing i) = i"
| "printed (Sleeping i) = Suc i"
| "printed _ = 5"

definition child_lines :: "nat \<Rightarrow> nat \<Rightarrow> outline list" where
  "child_lines a b = map Child [a..<b]"

definition running :: outline where "running = Main ''main thread runing....''"

text \<open>The lines of \<^verbatim>\<open>main\<close> before its join somewhere among the first \<open>p\<close> of the thread, then the rest.\<close>

definition join_shape :: "outline list \<Rightarrow> outline list \<Rightarrow> nat \<Rightarrow> outline list \<Rightarrow> bool" where
  "join_shape m r p ls \<longleftrightarrow> (\<exists>k \<le> p. ls = child_lines 0 k @ m @ child_lines k p @ r)"

lemma join_shape_start: "join_shape [] [] 0 []"
  by (simp add: join_shape_def child_lines_def)

lemma join_shape_child: "join_shape m [] p ls \<Longrightarrow> join_shape m [] (Suc p) (ls @ [Child p])"
  by (auto simp: join_shape_def child_lines_def intro: exI [of _ 0])

lemma child_lines_append: "k \<le> p \<Longrightarrow> child_lines 0 k @ child_lines k p = child_lines 0 p"
  using upt_add_eq_append [of 0 k "p - k"] by (simp add: child_lines_def flip: map_append)

lemma join_shape_main: "join_shape [] [] p ls \<Longrightarrow> join_shape [l] [] p (ls @ [l])"
  unfolding join_shape_def by (intro exI [of _ p]) (auto simp: child_lines_append, simp add: child_lines_def)

lemma join_shape_ret: "join_shape m [] p ls \<Longrightarrow> join_shape m [l] p (ls @ [l])"
  by (auto simp: join_shape_def)

definition join_place :: "life \<Rightarrow> bool" where
  "join_place s \<longleftrightarrow>
     (calls s = join_main \<and> child s = NotYet \<and> join_shape [] [] 0 (lines s))
   \<or> (calls s = tl join_main \<and> child s \<noteq> NotYet \<and> child s \<noteq> Gone \<and> join_shape [] [] (printed (child s)) (lines s))
   \<or> (calls s = drop 2 join_main \<and> child s \<noteq> NotYet \<and> child s \<noteq> Gone \<and> join_shape [running] [] (printed (child s)) (lines s))
   \<or> (calls s = drop 3 join_main \<and> child s = Gone \<and> retv s = 3 \<and> join_shape [running] [] 5 (lines s))
   \<or> (calls s = [] \<and> child s = Gone \<and> join_shape [running] [MainRet 3] 5 (lines s))"

definition join_inv :: "life \<Rightarrow> bool" where
  "join_inv s \<longleftrightarrow> exited s = Some 1 \<or>
     (\<not> bad s \<and> \<not> detached s \<and> \<not> cancelled s \<and> printed (child s) \<le> 5 \<and> (\<forall>w. child s = Ended w \<longrightarrow> w = 3)
      \<and> join_place s \<and> (exited s \<noteq> None \<longrightarrow> calls s = []))"

lemma join_inv_thread:
  assumes "join_inv s" "exited s = None" "thread_fun 3 s = Some t"
  shows "join_inv t"
proof (cases "child s")
  case (Printing i)
  show ?thesis
  proof (cases "i < 5")
    case True
    then have "t = (say (Child i) s)\<lparr>child := Sleeping i\<rparr>" using assms(3) Printing by (simp add: thread_fun_def)
    then show ?thesis using assms(1,2) True Printing join_shape_child [of _ i]
      by (auto simp: join_inv_def join_place_def say_def)
  next
    case False
    then have "t = finish 3 s" "i = 5" using assms Printing by (auto simp: thread_fun_def join_inv_def)
    then show ?thesis using assms(1,2) Printing by (auto simp: join_inv_def join_place_def finish_def)
  qed
next
  case (Sleeping i)
  then have "t = s\<lparr>child := Printing (Suc i)\<rparr>" using assms by (auto simp: thread_fun_def join_inv_def)
  then show ?thesis using assms(1,2) Sleeping by (auto simp: join_inv_def join_place_def)
qed (use assms in \<open>simp_all add: thread_fun_def\<close>)

lemma join_calls:
  "tl join_main = [Say ''main thread runing....'', Join True ''pthread_join failed....'', SayRet]"
  "drop 2 join_main = [Join True ''pthread_join failed....'', SayRet]" "drop 3 join_main = [SayRet]"
  by (simp_all add: join_main_def)

lemma join_inv_main:
  assumes "join_inv s" "exited s = None" "main_call err s = Some t"
  shows "join_inv t"
proof -
  have s: "\<not> bad s" "\<not> detached s" "\<not> cancelled s" "printed (child s) \<le> 5" "\<forall>w. child s = Ended w \<longrightarrow> w = 3"
    using assms(1,2) by (auto simp: join_inv_def)
  have "join_place s" using assms(1,2) by (simp add: join_inv_def)
  then consider
      (create) "calls s = join_main" "child s = NotYet" "join_shape [] [] 0 (lines s)"
    | (say) "calls s = tl join_main" "child s \<noteq> NotYet" "child s \<noteq> Gone" "join_shape [] [] (printed (child s)) (lines s)"
    | (join) "calls s = drop 2 join_main" "child s \<noteq> NotYet" "child s \<noteq> Gone" "join_shape [running] [] (printed (child s)) (lines s)"
    | (ret) "calls s = drop 3 join_main" "child s = Gone" "retv s = 3" "join_shape [running] [] 5 (lines s)"
    | (last) "calls s = []" "child s = Gone" "join_shape [running] [MainRet 3] 5 (lines s)"
    by (auto simp: join_place_def)
  then show ?thesis
  proof cases
    case create
    then have "err \<and> exited t = Some 1 \<or> t = s\<lparr>calls := tl join_main, child := Printing 0, detached := False\<rparr>"
      using assms(3) by (cases err) (simp_all add: main_call_def join_main_def give_up_def say_def Let_def, auto)
    then show ?thesis using create s assms(2) by (auto simp: join_inv_def join_place_def)
  next
    case say
    then have "t = s\<lparr>calls := drop 2 join_main, lines := lines s @ [running]\<rparr>"
      using assms(3) by (auto simp: main_call_def join_calls say_def running_def split: if_splits)
    then show ?thesis using say s assms(2) join_shape_main by (auto simp: join_inv_def join_place_def)
  next
    case join
    then obtain w where "child s = Ended w" "t = s\<lparr>calls := drop 3 join_main, child := Gone, retv := w\<rparr>"
      using assms(3) s(2) by (auto simp: main_call_def join_calls Let_def split: if_splits cstat.splits)
    then show ?thesis using join s assms(2) by (auto simp: join_inv_def join_place_def)
  next
    case ret
    then have "t = s\<lparr>calls := [], lines := lines s @ [MainRet 3]\<rparr>"
      using assms(3) by (auto simp: main_call_def join_calls say_def split: if_splits)
    then show ?thesis using ret s assms(2) join_shape_ret by (auto simp: join_inv_def join_place_def)
  next
    case last
    then have "t = s\<lparr>exited := Some 0\<rparr>" using assms(3) by (auto simp: main_call_def split: if_splits)
    then show ?thesis using last s by (auto simp: join_inv_def join_place_def)
  qed
qed

interpretation join_system: invariant_system "life_init join_main" "life_exec 3" join_inv
proof
  show "join_inv s" if "life_init join_main s" for s
    using that by (simp add: life_init_def life_start_def join_inv_def join_place_def join_shape_start)
  show "join_inv t" if "join_inv s" "life_exec 3 a s = Some t" for a s t
    using that by (cases a) (auto simp: life_exec_def intro: join_inv_thread join_inv_main split: if_splits)
qed

text \<open>The program that joins prints all five lines of the thread, in order, its own first line anywhere among them, and only after all of them the value the
  thread returned; this whenever it returns 0, and it never uses the identifier of a thread that is gone.\<close>

theorem join_main_output:
  assumes "reach (life_init join_main) (lstep (life_exec 3)) s"
  shows "(exited s = Some 0 \<longrightarrow> (\<exists>k \<le> 5. lines s = map Child [0..<k] @ [Main ''main thread runing....''] @ map Child [k..<5] @ [MainRet 3]))
     \<and> (exited s \<noteq> Some 1 \<longrightarrow> \<not> bad s)"
  using join_system.inv_reach [OF assms]
  by (auto simp: join_inv_def join_place_def join_calls join_shape_def child_lines_def running_def join_main_def)

subsection \<open>What a detached or cancelled thread prints\<close>

fun of_child :: "outline list \<Rightarrow> nat list" where
  "of_child [] = []"
| "of_child (Child i # ls) = i # of_child ls"
| "of_child (Main m # ls) = of_child ls"
| "of_child (MainRet v # ls) = of_child ls"

lemma of_child_append [simp]: "of_child (xs @ ys) = of_child xs @ of_child ys"
  by (induction xs rule: of_child.induct) auto

definition all_said :: "bool \<Rightarrow> nat list \<Rightarrow> bool" where
  "all_said x ns \<longleftrightarrow> ns = [0..<5] \<or> x \<and> (\<exists>k \<le> 5. ns = [0..<k])"

fun out_ok :: "bool \<Rightarrow> cstat \<Rightarrow> nat list \<Rightarrow> bool" where
  "out_ok x NotYet ns \<longleftrightarrow> ns = []"
| "out_ok x (Printing i) ns \<longleftrightarrow> i \<le> 5 \<and> ns = [0..<i]"
| "out_ok x (Sleeping i) ns \<longleftrightarrow> i < 5 \<and> ns = [0..<Suc i]"
| "out_ok x (Ended v) ns \<longleftrightarrow> all_said x ns"
| "out_ok x Gone ns \<longleftrightarrow> all_said x ns"

lemma upt_snoc_prefix: "i < n \<Longrightarrow> \<exists>k \<le> n. [0..<i] @ [i] = [0..<k]"
  by (rule exI [of _ "Suc i"]) simp

lemma out_ok_cancel: "out_ok x c ns \<Longrightarrow> out_ok True c ns"
  by (cases c) (auto simp: all_said_def)

lemma out_ok_prefix: "out_ok x c ns \<Longrightarrow> \<exists>k \<le> 5. ns = [0..<k]"
  by (cases c) (auto simp: all_said_def upt_snoc_prefix)

fun is_create :: "call \<Rightarrow> bool" where
  "is_create (Create d m) = True"
| "is_create _ = False"

text \<open>A thread is created once.\<close>

fun one_create :: "call list \<Rightarrow> bool" where
  "one_create (Attr m # cs) = one_create cs"
| "one_create (Create d m # cs) = (filter is_create cs = [])"
| "one_create _ = False"

definition once :: "cstat \<Rightarrow> call list \<Rightarrow> bool" where
  "once c cs \<longleftrightarrow> (if c = NotYet then one_create cs else filter is_create cs = [])"

definition print_inv :: "life \<Rightarrow> bool" where
  "print_inv s \<longleftrightarrow> out_ok (cancelled s) (child s) (of_child (lines s)) \<and> (bad s \<longrightarrow> child s = Gone)
     \<and> (exited s = None \<longrightarrow> once (child s) (calls s))"

lemma print_inv_thread: "print_inv s \<Longrightarrow> \<not> bad s \<Longrightarrow> exited s = None \<Longrightarrow> thread_fun v s = Some t \<Longrightarrow> print_inv t"
  by (cases "child s")
     (auto simp: thread_fun_def print_inv_def say_def finish_def once_def all_said_def le_Suc_eq Suc_le_eq upt_snoc_prefix split: if_splits)

lemma print_inv_main:
  assumes "print_inv s" "\<not> bad s" "exited s = None" "main_call err s = Some t"
  shows "print_inv t"
proof (cases "calls s")
  case Nil
  then show ?thesis using assms by (auto simp: main_call_def print_inv_def split: if_splits)
next
  case (Cons c cs)
  have inv: "out_ok (cancelled s) (child s) (of_child (lines s))" "once (child s) (c # cs)"
    using assms(1,3) Cons by (simp_all add: print_inv_def)
  show ?thesis
  proof (cases c)
    case (Create d m)
    with inv(2) have "child s = NotYet" "filter is_create cs = []" by (auto simp: once_def split: if_splits)
    with inv(1) Create Cons assms(2-4) show ?thesis
      by (auto simp: main_call_def print_inv_def once_def give_up_def say_def Let_def split: if_splits)
  next
    case (Attr m)
    with inv Cons assms(2-4) show ?thesis
      by (auto simp: main_call_def print_inv_def once_def give_up_def say_def Let_def split: if_splits)
  qed (use inv Cons assms(2-4) out_ok_cancel in
        \<open>auto simp: main_call_def print_inv_def once_def give_up_def say_def Let_def split: if_splits cstat.splits\<close>)
qed

definition once_begin :: "life \<Rightarrow> bool" where
  "once_begin s \<longleftrightarrow> (\<exists>prog. one_create prog \<and> s = life_start prog)"

interpretation print_system: invariant_system once_begin "life_exec v" print_inv for v
proof
  show "print_inv s" if "once_begin s" for s
    using that by (auto simp: once_begin_def life_start_def print_inv_def once_def)
  show "print_inv t" if "print_inv s" "life_exec v a s = Some t" for a s t
    using that by (cases a) (auto simp: life_exec_def intro: print_inv_thread print_inv_main split: if_splits)
qed

text \<open>In every one of these programs the thread's lines come out in order, each once; when the thread is gone (in particular when \<^verbatim>\<open>main\<close> has joined or
  cancelled it although its identifier was not valid any more) all five have been printed unless a cancellation cut them short.\<close>

theorem thread_lines_in_order:
  assumes "prog \<in> {join_main, detach_main, exit_main, cancel_main, attr_main}"
    "run_actions (life_exec v) as (life_start prog) = Some s"
  shows "\<exists>k \<le> 5. of_child (lines s) = [0..<k] \<and> (bad s \<and> \<not> cancelled s \<longrightarrow> k = 5)"
proof -
  have "once_begin (life_start prog)"
    using assms(1) by (auto simp: once_begin_def join_main_def detach_main_def exit_main_def cancel_main_def attr_main_def intro!: exI [of _ prog])
  then have "print_inv (life_start prog)" by (rule print_system.inv_init)
  from print_system.inv_run [OF this assms(2)]
  have "out_ok (cancelled s) (child s) (of_child (lines s))" "bad s \<longrightarrow> child s = Gone" by (simp_all add: print_inv_def)
  then show ?thesis using out_ok_prefix by (cases "bad s \<and> \<not> cancelled s") (auto simp: all_said_def)
qed

subsection \<open>Runs\<close>

text \<open>A thread left to itself takes eleven steps.\<close>

definition alone :: "life_act list" where
  "alone = replicate 11 ThreadFun"


lemma join_main_output_witness:
  "\<exists>s :: life. exited s = Some 0 \<and> (\<exists>k \<le> 5. lines s = map Child [0..<k] @ [Main ''main thread runing....''] @ map Child [k..<5] @ [MainRet 3])"
proof -
  have "map_option exited (run_actions (life_exec 3) ([MainCall False, MainCall False] @ alone @ replicate 3 (MainCall False)) (life_start join_main)) = Some (Some 0)"
    by code_simp
  then obtain s where run: "run_actions (life_exec 3) ([MainCall False, MainCall False] @ alone @ replicate 3 (MainCall False)) (life_start join_main) = Some s"
    and e: "exited s = Some 0" by auto
  have "life_init join_main (life_start join_main)" by (simp add: life_init_def)
  then have "reach (life_init join_main) (lstep (life_exec 3)) s"
    using reach_run [OF reach.start [of "life_init join_main"] run] by simp
  from join_main_output [OF this] e show ?thesis by blast
qed

lemma thread_lines_in_order_witness:
  "\<exists>s :: life. bad s \<and> of_child (lines s) = [0..<5]"
proof -
  have "map_option (\<lambda>s. (bad s, cancelled s)) (run_actions (life_exec 0) ([MainCall False, MainCall False] @ alone @ [MainCall False]) (life_start detach_main)) = Some (True, False)"
    by code_simp
  then obtain s where run: "run_actions (life_exec 0) ([MainCall False, MainCall False] @ alone @ [MainCall False]) (life_start detach_main) = Some s"
    and b: "bad s" "\<not> cancelled s" by auto
  from thread_lines_in_order [OF _ run] b show ?thesis by auto
qed

text \<open>The detaching programs join the thread they detached; the join is meant to fail, and does so while the thread runs. A thread that has ended meanwhile has
  no identifier any more.\<close>

theorem detached_join_run:
  "map_option (\<lambda>s. (bad s, of_child (lines s))) (run_actions (life_exec 0) ([MainCall False, MainCall False] @ alone @ [MainCall False]) (life_start detach_main))
     = Some (True, [0..<5])"
  "map_option (\<lambda>s. (exited s, of_child (lines s))) (run_actions (life_exec 0) (replicate 6 (MainCall False)) (life_start detach_main))
     = Some (Some 0, [])"
  "map_option (\<lambda>s. (bad s, of_child (lines s))) (run_actions (life_exec 0) ([MainCall False, MainCall False, MainCall False] @ alone @ [MainCall False]) (life_start attr_main))
     = Some (True, [0..<5])"
  "map_option (\<lambda>s. (bad s, of_child (lines s))) (run_actions (life_exec 0) ([MainCall False, MainCall False] @ alone @ replicate 3 (MainCall False)) (life_start cancel_main))
     = Some (True, [0..<5])"
  by code_simp+

end
