(* ===== verification/Signals.thy ===== *)
theory Signals
  imports Prelude
begin

section \<open>Signals and a daemon (4\_signal\_c, 5\_process\_group)\<close>

text \<open>
  \<^verbatim>\<open>concurrence_linux/4_signal_c/7_sigset.c\<close>: signal sets. \<^verbatim>\<open>8_sigprocmask.c\<close>: a signal that is blocked and released.
  \<^verbatim>\<open>5_process_group/3_daemo.c\<close>: a daemon that creates a file named after the time at every alarm.
\<close>

subsection \<open>7\_sigset.c\<close>

text \<open>The signals that the C library keeps for itself, so that \<^verbatim>\<open>sigfillset\<close> leaves them out, are a parameter.\<close>

type_synonym sigset = "nat set"

definition sigemptyset :: sigset where
  "sigemptyset = {}"

definition sigfillset :: "sigset \<Rightarrow> sigset" where
  "sigfillset internal = {1..64} - internal"

definition sigaddset :: "sigset \<Rightarrow> nat \<Rightarrow> sigset" where
  "sigaddset S sig = insert sig S"

definition sigdelset :: "sigset \<Rightarrow> nat \<Rightarrow> sigset" where
  "sigdelset S sig = S - {sig}"

definition show_sigset :: "sigset \<Rightarrow> byte list" where
  "show_sigset S = map (\<lambda>i. if i \<in> S then CHR ''1'' else CHR ''0'') [1..<33] @ [CHR 0x0A]"

definition sigset_main :: "sigset \<Rightarrow> byte list list" where
  "sigset_main internal =
     (let set1 = sigemptyset;
          set2 = sigfillset internal;
          set3 = sigdelset set2 5;
          set4 = sigaddset set3 5
      in [show_sigset set1, show_sigset set2, show_sigset set3, show_sigset set4])"

lemma length_show_sigset [simp]: "length (show_sigset S) = 33"
  by (simp add: show_sigset_def)

lemma nth_show_sigset:
  "i < 33 \<Longrightarrow> show_sigset S ! i = (if i = 32 then CHR 0x0A else if Suc i \<in> S then CHR ''1'' else CHR ''0'')"
  by (auto simp: show_sigset_def nth_append)

text \<open>A line shows exactly the set's first 32 signals; adding or deleting one of them changes its place in the line.\<close>

lemma show_sigset_inj: "show_sigset S = show_sigset T \<longleftrightarrow> (\<forall>i < 32. Suc i \<in> S \<longleftrightarrow> Suc i \<in> T)"
proof
  assume eq: "show_sigset S = show_sigset T"
  show "\<forall>i < 32. Suc i \<in> S \<longleftrightarrow> Suc i \<in> T"
  proof (intro allI impI)
    fix i :: nat
    assume "i < 32"
    then show "Suc i \<in> S \<longleftrightarrow> Suc i \<in> T"
      using nth_show_sigset [of i S] nth_show_sigset [of i T] eq by (simp split: if_splits)
  qed
next
  assume "\<forall>i < 32. Suc i \<in> S \<longleftrightarrow> Suc i \<in> T"
  then show "show_sigset S = show_sigset T"
    by (intro nth_equalityI) (simp_all add: nth_show_sigset)
qed

lemma show_sigset_update:
  assumes "1 \<le> sig" "sig \<le> 32"
  shows "show_sigset (sigaddset S sig) = (show_sigset S)[sig - 1 := CHR ''1'']"
    and "show_sigset (sigdelset S sig) = (show_sigset S)[sig - 1 := CHR ''0'']"
  using assms by (auto intro!: nth_equalityI simp: nth_show_sigset nth_list_update sigaddset_def sigdelset_def)

lemma sigset_main_lines:
  "sigset_main internal =
    (let full = show_sigset (sigfillset internal)
     in [replicate 32 CHR ''0'' @ [CHR 0x0A], full, full[4 := CHR ''0''], full[4 := CHR ''1'']])"
proof -
  have "show_sigset sigemptyset = replicate 32 CHR ''0'' @ [CHR 0x0A]"
    by (simp add: show_sigset_def sigemptyset_def map_replicate_const)
  then show ?thesis by (simp add: sigset_main_def show_sigset_update Let_def)
qed

subsection \<open>8\_sigprocmask.c\<close>

text \<open>
  The signal side of the process: its mask, its pending signals, and what it has printed.
\<close>

datatype sigout = Caught nat | Said nat | Unmasked "nat list"
  \<comment> \<open>a line of the handler, the \<open>n\<close>-th message of \<^verbatim>\<open>main\<close>, the numbers of the pending signals\<close>

record sigproc =
  blocked :: sigset
  pending :: sigset
  sigout :: "sigout list"

definition sigint :: nat where
  "sigint = 2"

definition sig_fun :: "nat \<Rightarrow> sigproc \<Rightarrow> sigproc" where
  "sig_fun signum s = s\<lparr>sigout := sigout s @ [Caught signum]\<rparr>"

text \<open>One more \<^verbatim>\<open>SIGINT\<close> arrives: a blocked one is remembered, once; the handler runs for the others.\<close>

definition sig_arrive :: "sigproc \<Rightarrow> sigproc" where
  "sig_arrive s = (if sigint \<in> blocked s then s\<lparr>pending := insert sigint (pending s)\<rparr> else sig_fun sigint s)"

text \<open>A new mask takes effect: the handler runs for a pending \<^verbatim>\<open>SIGINT\<close> that it lets through.\<close>

definition set_mask :: "sigset \<Rightarrow> sigproc \<Rightarrow> sigproc" where
  "set_mask m s =
     (if sigint \<in> pending s \<and> sigint \<notin> m then sig_fun sigint (s\<lparr>blocked := m, pending := pending s - {sigint}\<rparr>)
      else s\<lparr>blocked := m\<rparr>)"

definition sig_say :: "nat \<Rightarrow> sigproc \<Rightarrow> sigproc" where
  "sig_say n s = s\<lparr>sigout := sigout s @ [Said n]\<rparr>"

text \<open>\<^verbatim>\<open>getchar\<close>: \<open>n\<close> times \<^verbatim>\<open>SIGINT\<close> arrives before the key.\<close>

definition wait_key :: "nat \<Rightarrow> sigproc \<Rightarrow> sigproc" where
  "wait_key n s = (sig_arrive ^^ n) s"

definition sigprocmask_main :: "nat \<Rightarrow> nat \<Rightarrow> nat \<Rightarrow> nat \<Rightarrow> sigproc \<Rightarrow> sigproc" where
  "sigprocmask_main a b c d s0 =
     (let s = wait_key a (sig_say 1 s0);
          old_set = blocked s;
          s = sig_say 2 (set_mask (blocked s \<union> sigaddset sigemptyset sigint) s);
          s = wait_key b (sig_say 3 s);
          s = s\<lparr>sigout := sigout s @ [Unmasked (filter (\<lambda>i. i \<in> pending s) [1..<33])]\<rparr>;
          s = wait_key c (sig_say 4 s);
          s = sig_say 5 (set_mask old_set s)
      in wait_key d (sig_say 6 s))"

lemma arrive_open: "sigint \<notin> blocked s \<Longrightarrow> (sig_arrive ^^ n) s = s\<lparr>sigout := sigout s @ replicate n (Caught sigint)\<rparr>"
proof (induction n)
  case (Suc n)
  then show ?case by (simp add: sig_arrive_def sig_fun_def replicate_append_same)
qed simp

lemma arrive_blocked:
  "sigint \<in> blocked s \<Longrightarrow> (sig_arrive ^^ n) s = (if n = 0 then s else s\<lparr>pending := insert sigint (pending s)\<rparr>)"
  by (induction n) (simp_all add: sig_arrive_def)

lemma unmask_parts:
  "sig_say n s = s\<lparr>sigout := sigout s @ [Said n]\<rparr>"
  "sigint \<notin> m \<Longrightarrow> set_mask m s = s\<lparr>blocked := m, pending := pending s - {sigint},
     sigout := sigout s @ (if sigint \<in> pending s then [Caught sigint] else [])\<rparr>"
  "sigint \<in> m \<Longrightarrow> set_mask m s = s\<lparr>blocked := m\<rparr>"
  by (auto simp: sig_say_def set_mask_def sig_fun_def)

text \<open>Of any number of \<^verbatim>\<open>SIGINT\<close> that come while it is blocked, one is delivered when the mask is restored, and none is
  lost or delivered otherwise: the whole output, for every number of arrivals in each of the four waits.\<close>

theorem sigprocmask_coalesces:
  assumes "sigint \<notin> blocked s" "pending s = {}" "sigout s = []"
  shows "sigprocmask_main a b c d s =
    s\<lparr>sigout := [Said 1] @ replicate a (Caught 2) @ [Said 2, Said 3, Unmasked (if 0 < b then [2] else []), Said 4]
        @ (if 0 < b + c then [Caught 2] else []) @ [Said 5, Said 6] @ replicate d (Caught 2)\<rparr>"
proof -
  have unm: "filter (\<lambda>i. i \<in> (if b = 0 then {} else {2})) [1..<33::nat] = (if 0 < b then [2] else [])"
  proof -
    have "[1..<33::nat] = 1 # 2 # [3..<33]" by (simp add: upt_conv_Cons)
    then show ?thesis by (simp del: upt.simps)
  qed
  show ?thesis
    using assms unm
    by (cases "b = 0"; cases "c = 0")
      (simp_all add: sigprocmask_main_def Let_def wait_key_def arrive_open arrive_blocked unmask_parts sigaddset_def sigint_def
        del: upt.simps)
qed

subsection \<open>3\_daemo.c\<close>

text \<open>The broken-down local time, and what \<^verbatim>\<open>%d\<close> prints.\<close>

record tm =
  tm_year :: int
  tm_mon :: int
  tm_mday :: int
  tm_hour :: int
  tm_min :: int
  tm_sec :: int

text \<open>The buffer \<^verbatim>\<open>name\<close> has 50 bytes. The command that is run, if there is a local time and the name fits.\<close>

datatype log_result = NoLog | RunCommand "byte list" | Overrun

definition write_currrent_time :: "tm option \<Rightarrow> log_result" where
  "write_currrent_time pT =
     (case pT of
        None \<Rightarrow> NoLog
      | Some t \<Rightarrow>
          (let name = ''touch /tmp/log/'' @ show_int (tm_year t + 1900) @ show_int (tm_mon t + 1) @ show_int (tm_mday t)
                @ show_int (tm_hour t) @ show_int (tm_min t) @ show_int (tm_sec t) @ ''.log''
           in if length name + 1 \<le> 50 then RunCommand name else Overrun))"

text \<open>
  The daemon when it has started: its descriptors among the standard three, its directory and file mask, the timer in seconds
  (first alarm, then every). \<open>Inl\<close>: the exit status of the parent or of a child that gives up.
\<close>

record daemon =
  dfds :: "nat set"
  dcwd :: "byte list"
  dmask :: nat
  dtimer :: "nat \<times> nat"

definition daemon_main :: "bool \<Rightarrow> bool \<Rightarrow> bool \<Rightarrow> bool \<Rightarrow> nat set \<Rightarrow> int \<times> (int + daemon) option" where
  "daemon_main fork_ok setsid_ok chdir_ok timer_ok fds =
     (if \<not> fork_ok then (1, None)
      else (0, Some
        (if \<not> setsid_ok then Inl 1
         else if \<not> chdir_ok then Inl 1
         else if \<not> timer_ok then Inl 1
         else Inr \<lparr>dfds = fds - {0} - {1} - {0}, dcwd = ''/'', dmask = 0, dtimer = (1, 2)\<rparr>)))"

text \<open>The second, counted from the start, of the \<open>n\<close>-th alarm.\<close>

definition alarm_at :: "daemon \<Rightarrow> nat \<Rightarrow> nat" where
  "alarm_at d n = fst (dtimer d) + n * snd (dtimer d)"

definition tm_ok :: "tm \<Rightarrow> bool" where
  "tm_ok t \<longleftrightarrow> \<bar>tm_year t + 1900\<bar> < 2 ^ 31 \<and> 0 \<le> tm_mon t \<and> tm_mon t \<le> 11 \<and> 1 \<le> tm_mday t \<and> tm_mday t \<le> 31
     \<and> 0 \<le> tm_hour t \<and> tm_hour t \<le> 23 \<and> 0 \<le> tm_min t \<and> tm_min t \<le> 59 \<and> 0 \<le> tm_sec t \<and> tm_sec t \<le> 60"

text \<open>The buffer of the daemon's log name is large enough: at every local time whose year does not overflow an \<^verbatim>\<open>int\<close> the command is run, and the
  handler never writes outside of the buffer.\<close>

theorem daemon_name_fits:
  assumes "tm_ok t"
  shows "\<exists>name. write_currrent_time (Some t) = RunCommand name \<and> length name \<le> 40"
proof -
  have two: "length (show_int x) \<le> 2" if "0 \<le> x" "x < 100" for x
    using length_show_int(2) [of x 2] that by simp
  have "length (show_int (tm_year t + 1900)) \<le> 11"
    using length_show_int(1) [of "tm_year t + 1900" 10] assms by (simp add: tm_ok_def)
  moreover have "length (show_int (tm_mon t + 1)) \<le> 2" "length (show_int (tm_mday t)) \<le> 2" "length (show_int (tm_hour t)) \<le> 2"
    "length (show_int (tm_min t)) \<le> 2" "length (show_int (tm_sec t)) \<le> 2"
    using assms by (auto intro!: two simp: tm_ok_def)
  ultimately show ?thesis by (simp add: write_currrent_time_def)
qed

text \<open>The fields are not padded, so different times can have the same name: the eleventh of January and the first of November.\<close>

lemma daemon_names_collide:
  "\<exists>t u. tm_ok t \<and> tm_ok u \<and> t \<noteq> u \<and> write_currrent_time (Some t) = write_currrent_time (Some u)"
proof (intro exI conjI)
  let ?t = "\<lparr>tm_year = 124, tm_mon = 0, tm_mday = 11, tm_hour = 8, tm_min = 0, tm_sec = 0\<rparr>"
  let ?u = "\<lparr>tm_year = 124, tm_mon = 10, tm_mday = 1, tm_hour = 8, tm_min = 0, tm_sec = 0\<rparr>"
  show "tm_ok ?t" "tm_ok ?u" "?t \<noteq> ?u" by (simp_all add: tm_ok_def)
  show "write_currrent_time (Some ?t) = write_currrent_time (Some ?u)"
    by (simp add: write_currrent_time_def show_int_def dec.simps)
qed

text \<open>The daemon keeps its standard error open, and its alarms are two seconds apart.\<close>

lemma daemon_state:
  "daemon_main True True True True {0, 1, 2} = (0, Some (Inr d)) \<Longrightarrow> dfds d = {2} \<and> alarm_at d (Suc n) = alarm_at d n + 2"
  by (auto simp: daemon_main_def alarm_at_def)

subsection \<open>Instances\<close>

theorem sigprocmask_coalesces_witness:
  "sigprocmask_main 1 3 2 0 \<lparr>blocked = {}, pending = {}, sigout = []\<rparr> =
    \<lparr>blocked = {}, pending = {},
      sigout = [Said 1, Caught 2, Said 2, Said 3, Unmasked [2], Said 4, Caught 2, Said 5, Said 6]\<rparr>"
  using sigprocmask_coalesces [of "\<lparr>blocked = {}, pending = {}, sigout = []\<rparr>" 1 3 2 0] by simp

theorem daemon_name_fits_witness:
  "\<exists>name. write_currrent_time (Some \<lparr>tm_year = 124, tm_mon = 0, tm_mday = 11, tm_hour = 8, tm_min = 0, tm_sec = 0\<rparr>) = RunCommand name
     \<and> length name \<le> 40"
  by (rule daemon_name_fits) (simp add: tm_ok_def)

end
