(* ===== verification/FileDemos.thy ===== *)
theory FileDemos
  imports Processes
begin

section \<open>Files (1\_file\_c, 3\_pipe\_c/7\_mmap.c)\<close>

text \<open>
  \<^verbatim>\<open>concurrence_linux/1_file_c/2_wirte.c\<close>, \<^verbatim>\<open>3_read.c\<close>, \<^verbatim>\<open>5_chdir.c\<close>, \<^verbatim>\<open>6_dir.c\<close> and \<^verbatim>\<open>3_pipe_c/7_mmap.c\<close>. A file is absent or its bytes; the
  results of the calls are arguments, what they do to the file or the buffer is modelled. A program is its exit status and what
  it prints or the file it leaves; \<open>None\<close>: undefined behaviour or death by a signal. \<^verbatim>\<open>3_read.c\<close> declares a C++ string it does not use, without which
  it compiles.
\<close>

subsection \<open>Writing and reading\<close>

definition write_text :: "byte list" where "write_text = ''hello jack''"

text \<open>\<open>k\<close>: how many bytes \<^verbatim>\<open>write\<close> takes, \<open>None\<close> when it fails. The file is created but not truncated.\<close>

definition write_main :: "bool \<Rightarrow> nat option \<Rightarrow> byte list option \<Rightarrow> int \<times> byte list option" where
  "write_main open_ok k file =
     (if \<not> open_ok then (1, file)
      else let f = (case file of None \<Rightarrow> [] | Some f \<Rightarrow> f) in
           case k of None \<Rightarrow> (1, Some f) | Some k \<Rightarrow> (0, Some (write_at 0 (take k write_text) f)))"

definition read_main :: "bool \<Rightarrow> bool \<Rightarrow> byte list option \<Rightarrow> (int \<times> byte list) option" where
  "read_main open_ok read_ok file =
     (case file of
        None \<Rightarrow> Some (1, [])
      | Some f \<Rightarrow>
          if \<not> open_ok \<or> \<not> read_ok then Some (1, [])
          else let got = take 1024 f; buf = got @ drop (length got) (CHR ''0'' # replicate 1023 NUL) in
               if NUL \<notin> set buf then None else Some (0, ''content is :'' @ cstr buf @ [CHR 0x0A]))"

lemma read_buffer:
  assumes "f \<noteq> []" "NUL \<notin> set f"
  shows "read_main True True (Some f) = (if length f < 1024 then Some (0, ''content is :'' @ f @ [CHR 0x0A]) else None)"
proof (cases "length f < 1024")
  case True
  define n where "n = 1023 - length f"
  have "drop (length f) (CHR ''0'' # replicate 1023 NUL) = NUL # replicate n NUL"
    using True assms(1) by (cases f) (auto simp: n_def drop_Cons' simp flip: replicate_Suc)
  moreover from this have "cstr (f @ NUL # replicate n NUL) = f" using assms(2) by (simp add: cstr_append_NUL)
  ultimately show ?thesis using True assms by (simp add: read_main_def Let_def)
next
  case False
  then have "NUL \<notin> set (take 1024 f)" using assms(2) by (auto dest: in_set_takeD)
  with False show ?thesis by (simp add: read_main_def Let_def)
qed

text \<open>What one program writes is what the other prints, followed by the rest of a longer file that was there before; a file that fills the buffer is
  printed past its end, and of an empty one the character 0 is printed, with which the buffer is initialised.\<close>

theorem write_then_read:
  assumes "NUL \<notin> set old"
  shows "fst (write_main True (Some 10) (Some old)) = 0"
    "read_main True True (snd (write_main True (Some 10) (Some old)))
       = (if length old < 1024 then Some (0, ''content is :hello jack'' @ drop 10 old @ [CHR 0x0A]) else None)"
    "read_main True True (Some []) = Some (0, ''content is :0'' @ [CHR 0x0A])"
proof -
  have w: "write_main True (Some 10) (Some old) = (0, Some (''hello jack'' @ drop 10 old))"
    by (simp add: write_main_def write_text_def write_at_def eval_nat_numeral)
  then show "fst (write_main True (Some 10) (Some old)) = 0" by simp
  have "NUL \<notin> set (''hello jack'' @ drop 10 old)" using assms by (auto dest: in_set_dropD)
  from read_buffer [OF _ this] w
  show "read_main True True (snd (write_main True (Some 10) (Some old)))
       = (if length old < 1024 then Some (0, ''content is :hello jack'' @ drop 10 old @ [CHR 0x0A]) else None)"
    by (auto simp: less_diff_conv)
  have "cstr (CHR ''0'' # NUL # replicate 1022 NUL) = [CHR ''0'']" by (simp add: cstr_def)
  then show "read_main True True (Some []) = Some (0, ''content is :0'' @ [CHR 0x0A])"
    by (simp add: read_main_def Let_def numeral_eq_Suc)
qed

subsection \<open>7\_mmap.c\<close>

definition mmap_file_text :: "byte list" where "mmap_file_text = ''hesdfsdfdsfdfdfjojsafsdfdsf''"

text \<open>The mapping is of 1024 bytes whatever the length of the file: bytes past its end in the same page are lost, a page without any byte of the
  file cannot be touched.\<close>

definition mmap_file_main :: "bool \<Rightarrow> bool \<Rightarrow> byte list option \<Rightarrow> (int \<times> byte list option) option" where
  "mmap_file_main open_ok mmap_ok file =
     (case file of
        None \<Rightarrow> Some (1, None)
      | Some f \<Rightarrow>
          if \<not> open_ok \<or> \<not> mmap_ok then Some (1, Some f)
          else if f = [] then None
          else Some (0, Some (take (length f) (mmap_file_text @ drop (length mmap_file_text) f))))"

text \<open>The file keeps its length, a short one gets the beginning of the text only, and an empty one kills the program.\<close>

theorem mmap_keeps_length:
  "mmap_file_main True True (Some f) = None \<longleftrightarrow> f = []"
  "mmap_file_main True True (Some f) = Some (0, Some g) \<Longrightarrow> length g = length f \<and> prefix (take (length f) mmap_file_text) g"
  by (auto simp: mmap_file_main_def split: if_splits)

subsection \<open>5\_chdir.c\<close>

definition getcwd_buf :: "byte list \<Rightarrow> byte list option" where
  "getcwd_buf cwd = (if length cwd < 128 then Some cwd else None)"

definition chdir_main :: "bool \<Rightarrow> byte list \<Rightarrow> int \<times> byte list list" where
  "chdir_main chdir_ok cwd =
     (case getcwd_buf cwd of
        None \<Rightarrow> (1, [])
      | Some a \<Rightarrow>
          if \<not> chdir_ok then (1, [a])
          else (case getcwd_buf ''/usr/local'' of None \<Rightarrow> (1, [a]) | Some b \<Rightarrow> (0, [a, b])))"

subsection \<open>6\_dir.c\<close>

text \<open>The switch over \<^verbatim>\<open>d_type\<close>, with the values of \<^verbatim>\<open>dirent.h\<close>.\<close>

definition type_text :: "nat \<Rightarrow> byte list" where
  "type_text t =
     (if t = 6 then ''This is a block device'' else if t = 2 then ''This is a character device''
      else if t = 4 then ''This is a directory'' else if t = 1 then ''This is a name pipe''
      else if t = 10 then ''This is a symbolic link'' else if t = 8 then ''This is a regular file''
      else if t = 12 then ''This is a UNIX domain socket'' else ''The file tpe could not be determined'')"

definition entry_line :: "byte list \<times> nat \<Rightarrow> byte list" where
  "entry_line e = ''filename is: '' @ fst e @ [CHR 0x09] @ type_text (snd e) @ [CHR 0x0A]"

fun dir_loop :: "(byte list \<times> nat) list \<Rightarrow> byte list" where
  "dir_loop [] = []"
| "dir_loop (d # ds) = entry_line d @ dir_loop ds"

definition dir_main :: "nat \<Rightarrow> (byte list \<times> nat) list option \<Rightarrow> int \<times> byte list" where
  "dir_main argc dir =
     (if argc \<noteq> 2 then (1, []) else case dir of None \<Rightarrow> (1, []) | Some ds \<Rightarrow> (0, dir_loop ds))"

lemma until_same:
  assumes "x \<notin> set a" "x \<notin> set b" "a @ x # r = b @ x # s"
  shows "a = b \<and> r = s"
  using assms
proof (induction a arbitrary: b)
  case Nil
  then show ?case by (cases b) auto
next
  case (Cons c a)
  then show ?case by (cases b) auto
qed

lemma type_text_no_NL: "CHR 0x0A \<notin> set (type_text t)"
  by (simp add: type_text_def)

text \<open>The listing of a directory determines the names and what is said of them, when no name contains a tabulator; otherwise a name can
  pretend to be two files.\<close>

theorem dir_listing_determines:
  assumes "list_all (\<lambda>e. CHR 0x09 \<notin> set (fst e)) ds" "list_all (\<lambda>e. CHR 0x09 \<notin> set (fst e)) es"
    "dir_main 2 (Some ds) = dir_main 2 (Some es)"
  shows "map (map_prod id type_text) ds = map (map_prod id type_text) es"
proof -
  have "dir_loop ds = dir_loop es" using assms(3) by (simp add: dir_main_def)
  with assms(1,2) show ?thesis
  proof (induction ds arbitrary: es)
    case Nil
    then show ?case by (cases es) (simp_all add: entry_line_def)
  next
    case (Cons d ds)
    from Cons.prems(3) obtain e es' where es: "es = e # es'" by (cases es) (auto simp: entry_line_def)
    have "fst d @ CHR 0x09 # (type_text (snd d) @ CHR 0x0A # dir_loop ds)
        = fst e @ CHR 0x09 # (type_text (snd e) @ CHR 0x0A # dir_loop es')"
      using Cons.prems(3) by (simp add: es entry_line_def)
    then have "fst d = fst e" "type_text (snd d) @ CHR 0x0A # dir_loop ds = type_text (snd e) @ CHR 0x0A # dir_loop es'"
      using until_same [of "CHR 0x09" "fst d" "fst e"] Cons.prems(1,2) es by simp_all
    moreover from this(2) have "type_text (snd d) = type_text (snd e)" "dir_loop ds = dir_loop es'"
      using until_same [OF type_text_no_NL type_text_no_NL] by blast+
    ultimately show ?case using Cons es by (simp add: map_prod_def split_beta)
  qed
qed

theorem dir_listing_forged:
  "dir_main 2 (Some [(''a'' @ [CHR 0x09] @ ''This is a directory'' @ [CHR 0x0A] @ ''filename is: b'', 8)])
     = dir_main 2 (Some [(''a'', 4), (''b'', 8)])"
  by (simp add: dir_main_def entry_line_def type_text_def)

end
