(* ===== verification/TcpSocket.thy ===== *)
theory TcpSocket
  imports Wrap
begin

section \<open>Length-prefixed messages (tcp\_linux/TcpSocket.cpp)\<close>

text \<open>
  \<^verbatim>\<open>src/tcp_linux/TcpSocket.cpp\<close>: reading and writing a given number of bytes, waiting with a timeout, and messages with a
  length in front. The file does not compile (conditions assign to \<^verbatim>\<open>errno\<close>, an \<^verbatim>\<open>int\<close> and a \<^verbatim>\<open>string\<close> are passed to \<^verbatim>\<open>memcpy\<close>,
  \<^verbatim>\<open>recvMessage\<close> returns strings as \<^verbatim>\<open>int\<close>); the members below are modelled with these conversions as they are meant. The
  functions that connect are in \<open>TcpServer\<close>. \<open>sel\<close> is what \<^verbatim>\<open>select\<close> returns.
\<close>

definition ETIMEDOUT :: errno where
  "ETIMEDOUT = EOTHER 110"

definition TimeoutError :: int where "TimeoutError = 3002"
definition MallocError :: int where "MallocError = 3004"

definition readTimeout :: "nat \<Rightarrow> int \<Rightarrow> ('z world_scheme, int) io" where
  "readTimeout wait_seconds sel =
     (if wait_seconds > 0 then
        (if sel = 0 then fail_with ETIMEDOUT (-1) else if sel = 1 then ret 0 else ret sel)
      else ret 0)"

definition writeTimeout :: "nat \<Rightarrow> int \<Rightarrow> ('z world_scheme, int) io" where
  "writeTimeout wait_seconds sel =
     (if wait_seconds > 0 then
        (if sel = 0 then fail_with ETIMEDOUT (-1) else if sel = 1 then ret 0 else ret sel)
      else ret 0)"

text \<open>\<^verbatim>\<open>fcntl\<close> with \<^verbatim>\<open>F_GETFL\<close> fails on a descriptor that is not open; the only flag modelled is \<^verbatim>\<open>O_NONBLOCK\<close>.\<close>

definition setNonBlock :: "fd \<Rightarrow> ('z world_scheme, int) io" where
  "setNonBlock fd w =
     (if fd \<notin> set (opened w) then fail_with EBADF (-1) w else (Ret 0, w\<lparr>nonblk := (nonblk w)(fd := True)\<rparr>))"

definition setBlock :: "fd \<Rightarrow> ('z world_scheme, int) io" where
  "setBlock fd w =
     (if fd \<notin> set (opened w) then fail_with EBADF (-1) w else (Ret 0, w\<lparr>nonblk := (nonblk w)(fd := False)\<rparr>))"

definition disConnect :: "fd \<Rightarrow> ('z world_scheme, unit) io" where
  "disConnect connfd = (if connfd \<noteq> 0 then andthen (sys_close connfd) (\<lambda>_. ret ()) else ret ())"

text \<open>The loop of \<^verbatim>\<open>readn\<close> is that of \<^verbatim>\<open>Readn\<close> with \<^verbatim>\<open>recv\<close>; a negative \<^verbatim>\<open>count\<close> is returned at once.\<close>

definition sock_readn :: "fd \<Rightarrow> int \<Rightarrow> ('z world_scheme, int \<times> byte list) io" where
  "sock_readn fd count = (if count < 0 then ret (count, []) else readn_loop fd (nat count) (nat count) [])"

text \<open>A \<^verbatim>\<open>send\<close> that takes none of some bytes has used up an entry of the script.\<close>

lemma sys_write_none:
  "sys_write fd bufp w = (Ret 0, w') \<Longrightarrow> bufp \<noteq> [] \<Longrightarrow> length (wrq w' fd) < length (wrq w fd)"
  by (auto simp: sys_write_def split: if_splits list.splits wr_res.splits)

text \<open>
  \<^verbatim>\<open>writen\<close> returns the variable \<^verbatim>\<open>nwritten\<close>, the result of the last \<^verbatim>\<open>send\<close>; \<open>None\<close> is its indeterminate initial value.
\<close>

function sock_writen :: "fd \<Rightarrow> int option \<Rightarrow> byte list \<Rightarrow> ('z world_scheme, int) io" where
  "sock_writen fd nwritten bufp w =
     (if bufp \<noteq> [] then
        andthen (sys_write fd bufp) (\<lambda>r w'.
          if r < 0 then (if cerrno w' = EINTR then sock_writen fd (Some r) bufp w' else ret (-1) w')
          else if r = 0 then sock_writen fd (Some r) bufp w'
          else sock_writen fd (Some r) (drop (nat r) bufp) w') w
      else (case nwritten of None \<Rightarrow> undef w | Some r \<Rightarrow> ret r w))"
  by pat_completeness auto
termination
  by (relation "measure (\<lambda>(fd, nw, ptr, w). length ptr + length (wrq w fd))")
     (auto dest: sys_write_fail_consumes sys_write_progress sys_write_none)

declare sock_writen.simps [simp del]

subsection \<open>Messages\<close>

text \<open>The four bytes of the header in memory, and the length read from them.\<close>

definition header_bytes :: "32 word \<Rightarrow> byte list" where
  "header_bytes x = map char_of (map uint (bytes32 x))"

definition header_value :: "byte list \<Rightarrow> 32 word" where
  "header_value bs = load32 (of_char (bs ! 0)) (of_char (bs ! 1)) (of_char (bs ! 2)) (of_char (bs ! 3))"

text \<open>
  \<^verbatim>\<open>malloc(sizeof(len))\<close> has room for the header alone: with any data \<^verbatim>\<open>memcpy\<close> writes behind the block.
\<close>

definition sendMessage :: "fd \<Rightarrow> bool \<Rightarrow> int \<Rightarrow> byte list \<Rightarrow> nat \<Rightarrow> ('z world_scheme, int) io" where
  "sendMessage connfd malloc_ok sel sendData timeout =
     andthen (writeTimeout timeout sel) (\<lambda>r w.
       if r = 0 then
         (let len = length sendData + 4;
              data = header_bytes (htonl (word_of_nat len)) @ sendData
          in if \<not> malloc_ok then ret MallocError w
             else if length data > 4 then undef w
             else andthen (sock_writen connfd None data) (\<lambda>writen.
               if writen < int len then ret writen else ret 0) w)
       else ret (if r = -1 \<and> cerrno w = ETIMEDOUT then TimeoutError else r) w)"

text \<open>
  \<^verbatim>\<open>n + 1\<close> is an \<^verbatim>\<open>int\<close>; a negative size does not fit a \<^verbatim>\<open>size_t\<close>, so \<^verbatim>\<open>malloc\<close> fails; a null pointer that is made a
  string is undefined.
\<close>

definition recvMessage :: "fd \<Rightarrow> bool \<Rightarrow> int \<Rightarrow> nat \<Rightarrow> ('z world_scheme, byte list) io" where
  "recvMessage connfd malloc_ok sel timeout =
     andthen (readTimeout timeout sel) (\<lambda>r.
       if r \<noteq> 0 then ret []
       else andthen (sock_readn connfd 4) (\<lambda>hdr.
         if fst hdr = -1 then ret []
         else if fst hdr < 4 then ret []
         else let n = sint (ntohl (header_value (snd hdr))) in
           if n = 2147483647 then undef
           else if n + 1 < 0 \<or> \<not> malloc_ok then undef
           else andthen (sock_readn connfd n) (\<lambda>body.
             if fst body = -1 then ret []
             else if fst body < n then ret []
             else ret (cstr (snd body)))))"

text \<open>What \<^verbatim>\<open>sendMessage\<close> is to put on the wire: the length counts the header too.\<close>

definition frame :: "byte list \<Rightarrow> byte list" where
  "frame d = header_bytes (htonl (word_of_nat (length d + 4))) @ d"

lemma length_header [simp]: "length (header_bytes x) = 4"
  by (simp add: header_bytes_def bytes32_def)

lemma header_value_bytes: "header_value (header_bytes x @ rest) = x"
proof -
  have "(of_char (char_of (uint b) :: char) :: 8 word) = b" for b :: "8 word"
  proof -
    have "(of_char (char_of (uint b) :: char) :: 8 word) = of_int (of_char (char_of (uint b) :: char))"
      by (simp only: of_int_of_char)
    also have "\<dots> = of_int (uint b)"
      using uint_lt2p [of b] by (simp only: of_char_of) simp
    finally show ?thesis by simp
  qed
  then show ?thesis
    by (simp add: header_value_def header_bytes_def bytes32_def)
qed

lemma header_of_length:
  assumes "int n + 4 < 2147483647"
  shows "sint (ntohl (header_value (header_bytes (htonl (word_of_nat (n + 4)))))) = int n + 4"
proof -
  have "sint (word_of_nat m :: 32 word) = int m" if "m < 2147483647" for m
    using that by (simp add: signed_of_nat signed_take_bit_int_eq_self)
  from this [of "n + 4"] assms have "sint (word_of_nat (n + 4) :: 32 word) = int n + 4" by linarith
  then show ?thesis using header_value_bytes [of _ "[]"] by (simp add: ntohl_def)
qed

subsection \<open>Properties\<close>

lemma sock_readn_clean:
  assumes "clean fd w" "0 \<le> n"
  obtains w' where
    "sock_readn fd n w = (Ret (int (min (nat n) (length (arriving fd w))), take (nat n) (arriving fd w)), w')"
    "nat n \<le> length (arriving fd w) \<Longrightarrow> clean fd w' \<and> arriving fd w' = drop (nat n) (arriving fd w)"
  using readn_loop_clean [OF assms(1), of "[]" "nat n" "nat n"] assms(2) by (auto simp: sock_readn_def)

text \<open>C29: The two sides disagree about the length in front of a message: the sender counts the header, the receiver does not. Of a well-formed message the
  receiver also takes the next four bytes, the header of the message after it; without one it waits for them until the end of the
  connection and drops the message.\<close>

theorem recvMessage_takes_next_header:
  assumes "clean fd w" "arriving fd w = frame d @ rest" "int (length d) + 4 < 2147483647"
  shows "\<exists>w'. recvMessage fd True 1 timeout w = (Ret (if 4 \<le> length rest then cstr (d @ take 4 rest) else []), w')
     \<and> (4 \<le> length rest \<longrightarrow> clean fd w' \<and> arriving fd w' = drop 4 rest)"
proof -
  let ?h = "header_bytes (htonl (word_of_nat (length d + 4)))"
  let ?n = "int (length d) + 4"
  have all: "arriving fd w = ?h @ d @ rest" using assms(2) by (simp add: frame_def)
  obtain w1 where w1: "sock_readn fd 4 w = (Ret (4, ?h), w1)" "clean fd w1" "arriving fd w1 = d @ rest"
    by (rule sock_readn_clean [OF assms(1), of 4]) (simp_all add: all)
  obtain w2 where w2: "sock_readn fd ?n w1 = (Ret (int (min (length d + 4) (length (d @ rest))), take (length d + 4) (d @ rest)), w2)"
    "length d + 4 \<le> length (d @ rest) \<Longrightarrow> clean fd w2 \<and> arriving fd w2 = drop (length d + 4) (d @ rest)"
    by (rule sock_readn_clean [OF w1(2), of ?n]) (simp_all add: w1(3) nat_add_distrib)
  have "recvMessage fd True 1 timeout w = (Ret (if 4 \<le> length rest then cstr (d @ take 4 rest) else []), w2)"
    using w1(1) w2(1) header_of_length [OF assms(3)] assms(3)
    by (simp add: recvMessage_def readTimeout_def Let_def min_def)
  with w2(2) show ?thesis by simp
qed

text \<open>\<^verbatim>\<open>writen\<close> hands every byte to the kernel in order, but what it returns is the size of the last piece, so that a
  caller that compares it with the length takes a write in several pieces for a failure.\<close>

theorem sock_writen_returns_last_piece:
  assumes "fd \<in> set (opened w)" "writable (wrq w fd)" "bs \<noteq> []"
  shows "\<exists>w' pre last. sock_writen fd None bs w = (Ret (int (length last)), w') \<and> bs = pre @ last \<and> last \<noteq> []
     \<and> sent_on fd (trace w') = sent_on fd (trace w) @ bs"
proof -
  have "\<exists>w' pre last. sock_writen fd nw bs w = (Ret (int (length last)), w') \<and> bs = pre @ last \<and> last \<noteq> []
     \<and> sent_on fd (trace w') = sent_on fd (trace w) @ bs" for nw
    using assms
  proof (induction fd nw bs w rule: sock_writen.induct)
    case (1 fd nw bs w)
    from "1.prems" show ?case
    proof (cases rule: sys_write_writable)
      case (eintr w')
      from "1.IH"(1) [OF "1.prems"(3) eintr(1)] eintr "1.prems"(3) show ?thesis
        by (auto simp: sock_writen.simps [of fd nw bs w])
    next
      case (some k w')
      show ?thesis
      proof (cases "drop k bs = []")
        case True
        with some "1.prems"(3) have "sock_writen fd nw bs w = (Ret (int (length bs)), w')" "trace w' = trace w @ [Sent fd bs]"
          by (auto simp: sock_writen.simps [of fd nw bs w] sock_writen.simps [of fd _ "[]" w'])
        then show ?thesis using "1.prems"(3) by (intro exI [of _ w'] exI [of _ "[]"] exI [of _ bs]) simp
      next
        case False
        from "1.IH"(3) [OF "1.prems"(3) some(1)] some False obtain w'' pre last where
          "sock_writen fd (Some (int k)) (drop k bs) w' = (Ret (int (length last)), w'')" "drop k bs = pre @ last" "last \<noteq> []"
          "sent_on fd (trace w'') = sent_on fd (trace w) @ bs" by auto
        moreover from this(2) have "bs = (take k bs @ pre) @ last" by (metis append_assoc append_take_drop_id)
        ultimately show ?thesis using some "1.prems"(3)
          by (intro exI [of _ w''] exI [of _ "take k bs @ pre"] exI [of _ last])
            (simp add: sock_writen.simps [of fd nw bs w])
      qed
    qed
  qed
  then show ?thesis .
qed

text \<open>A message that is not empty overruns the block it is put together in.\<close>

lemma sendMessage_overruns: "d \<noteq> [] \<Longrightarrow> fst (sendMessage fd True 1 d timeout w) = Undef"
  by (simp add: sendMessage_def writeTimeout_def Let_def)

text \<open>A write in two pieces: all eight bytes are out, and 5 is returned.\<close>

lemma sock_writen_misreports:
  "\<exists>w'. sock_writen 5 None ''abcdefgh'' ((conn_world 5 [])\<lparr>wrq := (\<lambda>_. [WTake 3])\<rparr>) = (Ret 5, w') \<and> sent_on 5 (trace w') = ''abcdefgh''"
  by (simp add: sock_writen.simps sys_write_def)

subsection \<open>Instances\<close>

lemma header_6: "cstr (header_bytes (htonl 6)) = []"
  by (simp add: header_bytes_def bytes32_htonl) (simp add: bytes32_def char_of_def)

theorem recvMessage_takes_next_header_witness:
  "\<exists>w'. recvMessage 5 True 1 3 (conn_world 5 [RData (frame ''hi'' @ frame ''yo''), RData []]) = (Ret ''hi'', w')
     \<and> arriving 5 w' = ''yo''"
proof -
  let ?w = "conn_world 5 [RData (frame ''hi'' @ frame ''yo''), RData []]"
  have "frame ''hi'' \<noteq> []" by (simp add: frame_def)
  then have "clean 5 ?w" "arriving 5 ?w = frame ''hi'' @ frame ''yo''"
    by (simp_all add: clean_def arriving_def)
  from recvMessage_takes_next_header [OF this, of 3] show ?thesis
    by (auto simp: frame_def header_6)
qed

theorem sock_writen_returns_last_piece_witness:
  "\<exists>w' pre last. sock_writen 5 None ''abcdefgh'' ((conn_world 5 [])\<lparr>wrq := (\<lambda>_. [WTake 3])\<rparr>) = (Ret (int (length last)), w')
     \<and> ''abcdefgh'' = pre @ last \<and> last \<noteq> [] \<and> sent_on 5 (trace w') = ''abcdefgh''"
  using sock_writen_returns_last_piece [of 5 "(conn_world 5 [])\<lparr>wrq := (\<lambda>_. [WTake 3])\<rparr>" "''abcdefgh''"] by simp

end
