(* ===== verification/TcpServer.thy ===== *)
theory TcpServer
  imports TcpSocket
begin

section \<open>Setting up connections (tcp\_linux/TcpSocket.cpp, TcpServer.cpp)\<close>

text \<open>
  \<^verbatim>\<open>TcpSocket::connectServer\<close>, \<^verbatim>\<open>TcpSocket::connectTimeout\<close> and the class \<^verbatim>\<open>TcpServer\<close>. The files do not compile; read as follows:
  the assignment \<^verbatim>\<open>errno = EINPROGRESS\<close> in a condition as the comparison its comment describes, the second declaration
  of \<^verbatim>\<open>ret\<close> in \<^verbatim>\<open>connectServer\<close> as an assignment, \<^verbatim>\<open>m_lfd\<close> as the member \<^verbatim>\<open>lfd\<close>, and \<^verbatim>\<open>wait_seconds\<close> of \<^verbatim>\<open>clientAccept\<close>, which is declared
  nowhere, as an argument. Everything else is taken literally. \<open>psize\<close> is the size of a pointer. The results of
  successive calls of \<^verbatim>\<open>select\<close> are a list of pairs of the return value and the \<^verbatim>\<open>errno\<close> it sets.
\<close>

definition EINVAL :: errno where "EINVAL = EOTHER 22"
definition EINPROGRESS :: errno where "EINPROGRESS = EOTHER 115"
definition ParamError :: int where "ParamError = 3001"

text \<open>The number of an \<^verbatim>\<open>errno\<close>, which these functions return.\<close>

fun errno_num :: "errno \<Rightarrow> int" where
  "errno_num EINTR = 4"
| "errno_num EAGAIN = 11"
| "errno_num EBADF = 9"
| "errno_num EEXIST = 17"
| "errno_num ENOENT = 2"
| "errno_num EISDIR = 21"
| "errno_num ECONNABORTED = 103"
| "errno_num ECONNRESET = 104"
| "errno_num ESRCH = 3"
| "errno_num (EOTHER n) = int n"

text \<open>\<^verbatim>\<open>connect\<close> with an address length: one that is too short for an internet address is \<^verbatim>\<open>EINVAL\<close>.\<close>

definition SOCKADDR_SIZE :: nat where "SOCKADDR_SIZE = 16"

definition sys_connect_len :: "fd \<Rightarrow> sockaddr_in \<Rightarrow> nat \<Rightarrow> ('z world_scheme, int) io" where
  "sys_connect_len fd a len =
     (if len < SOCKADDR_SIZE then fail_with EINVAL (-1) else sys_connect fd a)"

text \<open>\<^verbatim>\<open>do ret = select(...); while (ret < 0 && errno == EINTR);\<close>\<close>

fun select_loop :: "(int \<times> errno) list \<Rightarrow> ('z world_scheme, int) io" where
  "select_loop [] = (\<lambda>w. (Blocked, w))"
| "select_loop ((r, e) # sels) =
     (if r < 0 then (if e = EINTR then andthen (modify (\<lambda>w. w\<lparr>cerrno := EINTR\<rparr>)) (\<lambda>_. select_loop sels)
                     else fail_with e r)
      else ret r)"

definition FD_SET_SIZE :: int where "FD_SET_SIZE = 1024"

subsection \<open>The client\<close>

text \<open>
  \<open>so\<close>: what \<^verbatim>\<open>getsockopt\<close> returns and the pending error it stores (0 for none).
\<close>

definition connectTimeout ::
  "nat \<Rightarrow> fd \<Rightarrow> sockaddr_in \<Rightarrow> nat \<Rightarrow> (int \<times> errno) list \<Rightarrow> int \<times> nat \<Rightarrow> ('z world_scheme, int) io" where
  "connectTimeout psize connfd addr wait_seconds sels so =
     (let finish = (\<lambda>r. andthen (if wait_seconds > 0 then setBlock connfd else ret 0) (\<lambda>_. ret r)) in
      andthen (if wait_seconds > 0 then setNonBlock connfd else ret 0) (\<lambda>_.
      andthen (sys_connect_len connfd addr psize) (\<lambda>r.
      andthen (gets cerrno) (\<lambda>e.
        if r < 0 \<and> e = EINPROGRESS then
          if connfd < 0 \<or> FD_SET_SIZE \<le> connfd then undef
          else andthen (select_loop sels) (\<lambda>r.
            if r < 0 then ret (-1)
            else if r = 0 then andthen (fail_with ETIMEDOUT (-1)) finish
            else if r = 1 then
              (if fst so - 1 \<noteq> 0 then ret (-1)
               else if snd so = 0 then ret 0
               else fail_with (EOTHER (snd so)) (-1))
            else finish r)
        else finish r))))"

text \<open>The result, and the descriptor the member \<^verbatim>\<open>connfd\<close> is left with (\<open>None\<close>: not set).\<close>

definition connectServer ::
  "nat \<Rightarrow> byte list \<Rightarrow> 16 word \<Rightarrow> int \<Rightarrow> (int \<times> errno) list \<Rightarrow> int \<times> nat \<Rightarrow>
     ('z world_scheme, int \<times> fd option) io" where
  "connectServer psize ip port timeout sels so =
     (if unat port < 1024 \<or> timeout < 0 then ret (ParamError, None)
      else andthen sys_socket (\<lambda>connfd.
        if connfd < 0 then andthen (gets cerrno) (\<lambda>e. ret (errno_num e, Some connfd))
        else
          let cliaddr = \<lparr>sin_family = AF_INET, sin_port = htons port, sin_addr = inet_addr (cstr ip)\<rparr> in
          andthen (connectTimeout psize connfd cliaddr (nat timeout) sels so) (\<lambda>r.
          andthen (gets cerrno) (\<lambda>e.
            if r < 0 then
              (if r = -1 \<and> e = ETIMEDOUT then ret (TimeoutError, Some connfd)
               else ret (errno_num e, Some connfd))
            else ret (r, Some connfd)))))"

subsection \<open>The server\<close>

text \<open>The result and the member \<^verbatim>\<open>lfd\<close>.\<close>

definition setListen :: "16 word \<Rightarrow> ('z world_scheme, int \<times> fd) io" where
  "setListen port =
     andthen sys_socket (\<lambda>lfd.
       let failed = andthen (gets cerrno) (\<lambda>e. ret (errno_num e, lfd)) in
       if lfd \<noteq> 0 then failed
       else andthen (sys_set_reuseaddr lfd) (\<lambda>r.
         if r = -1 then failed
         else andthen (sys_bind lfd \<lparr>sin_family = AF_INET, sin_port = htons port, sin_addr = INADDR_ANY\<rparr>) (\<lambda>r.
           if r = -1 then failed
           else andthen (sys_listen lfd 128) (\<lambda>r. if r = -1 then failed else ret (r, lfd)))))"

text \<open>The new \<^verbatim>\<open>TcpSocket\<close> is its descriptor, a null pointer is \<open>None\<close>.\<close>

definition clientAccept :: "fd \<Rightarrow> nat \<Rightarrow> (int \<times> errno) list \<Rightarrow> ('z world_scheme, fd option) io" where
  "clientAccept lfd wait_seconds sels =
     (let acc = andthen (sys_accept lfd) (\<lambda>connfd. ret (if connfd = -1 then None else Some connfd)) in
      if wait_seconds > 0 then
        if lfd < 0 \<or> FD_SET_SIZE \<le> lfd then undef
        else andthen (select_loop sels) (\<lambda>r. if r \<le> 0 then ret None else acc)
      else acc)"

definition DisServerFd :: "fd \<Rightarrow> ('z world_scheme, unit) io" where
  "DisServerFd lfd = (if lfd \<noteq> 0 then andthen (sys_close lfd) (\<lambda>_. ret ()) else ret ())"

subsection \<open>Properties\<close>

lemma fresh_fd_zero: "0 \<notin> set fds \<Longrightarrow> fresh_fd fds = 0"
  unfolding fresh_fd_def by (subst upt_conv_Cons) simp_all

lemma fresh_fd_nonneg [simp]: "0 \<le> fresh_fd fds"
  by (simp add: fresh_fd_def)

lemma fresh_fd_pos: "0 \<in> set fds \<Longrightarrow> 0 < fresh_fd fds"
  using fresh_fd_notin [of fds] fresh_fd_nonneg [of fds] by (cases "fresh_fd fds = 0") (simp_all only: order_less_le, auto)

text \<open>Interrupted calls of \<^verbatim>\<open>select\<close> are repeated.\<close>

lemma select_loop_interrupted:
  assumes "0 \<le> r"
  obtains e' where "select_loop (replicate k (-1, EINTR) @ (r, e) # sels) w = (Ret r, w\<lparr>cerrno := e'\<rparr>)"
proof -
  have "\<exists>e'. select_loop (replicate k (-1, EINTR) @ (r, e) # sels) w = (Ret r, w\<lparr>cerrno := e'\<rparr>)"
  proof (induction k arbitrary: w)
    case 0
    have "w\<lparr>cerrno := cerrno w\<rparr> = w" by simp
    then show ?case using assms by (intro exI [of _ "cerrno w"]) (simp add: ret_def)
  next
    case (Suc k)
    from Suc.IH [of "w\<lparr>cerrno := EINTR\<rparr>"] show ?case by (simp add: andthen_def)
  qed
  then show ?thesis using that by blast
qed

text \<open>C26: \<^verbatim>\<open>connectServer\<close> cannot succeed: it passes the size of a pointer as the length of the address, which
  \<^verbatim>\<open>connect\<close> refuses, so that it returns \<^verbatim>\<open>EINVAL\<close>; the socket it made stays open with every call, blocking again and connected to
  nothing. Wrong parameters are reported before.\<close>

theorem connectServer_never_connects:
  assumes "netq w = []" "psize < SOCKADDR_SIZE"
  shows "if unat port < 1024 \<or> timeout < 0 then connectServer psize ip port timeout sels so w = (Ret (ParamError, None), w)
     else \<exists>w' fd. connectServer psize ip port timeout sels so w = (Ret (22, Some fd), w') \<and> fd \<notin> set (opened w)
       \<and> opened w' = fd # opened w \<and> peer w' = peer w \<and> \<not> nonblk w' fd"
proof (cases "unat port < 1024 \<or> timeout < 0")
  case True
  then show ?thesis by (auto simp: connectServer_def)
next
  case False
  have "EINVAL \<noteq> EINPROGRESS" "EINVAL \<noteq> ETIMEDOUT" "errno_num EINVAL = 22"
    by (simp_all add: EINVAL_def EINPROGRESS_def ETIMEDOUT_def)
  with False assms fresh_fd_notin [of "opened w"] show ?thesis
    by (cases "0 < timeout")
       (simp_all add: connectServer_def connectTimeout_def sys_connect_len_def setNonBlock_def setBlock_def
        sys_socket_def net_verdict_def fail_with_def andthen_def ret_def gets_def Let_def leD)
qed

text \<open>With a right length too, the test of the result of \<^verbatim>\<open>getsockopt\<close> is wrong (\<^verbatim>\<open>sockret -1\<close> for \<^verbatim>\<open>sockret == -1\<close>): a connection
  that is established while \<^verbatim>\<open>select\<close> waits is reported as failed, and the socket left non-blocking.\<close>

theorem connectTimeout_established_fails:
  assumes "netq w = Some EINPROGRESS # q" "SOCKADDR_SIZE \<le> psize" "0 < wait_seconds"
    "fd \<in> set (opened w)" "0 \<le> fd" "fd < FD_SET_SIZE"
  shows "\<exists>w'. connectTimeout psize fd addr wait_seconds (replicate k (-1, EINTR) @ [(1, e)]) (0, err) w = (Ret (-1), w')
     \<and> nonblk w' fd"
proof -
  let ?w = "w\<lparr>nonblk := (nonblk w)(fd := True), netq := q, cerrno := EINPROGRESS\<rparr>"
  obtain e' where "select_loop (replicate k (-1, EINTR) @ [(1, e)]) ?w = (Ret 1, ?w\<lparr>cerrno := e'\<rparr>)"
    by (rule select_loop_interrupted [of 1 k e "[]" ?w]) simp_all
  with assms show ?thesis
    by (simp add: connectTimeout_def sys_connect_len_def sys_connect_def setNonBlock_def net_verdict_def
        andthen_def ret_def gets_def Let_def)
qed

text \<open>\<^verbatim>\<open>setListen\<close> listens only when standard input is closed: every descriptor but 0 is taken for a failure of \<^verbatim>\<open>socket\<close>. It then returns whatever
  \<^verbatim>\<open>errno\<close> held, 0 included, and leaves an unbound socket behind. When it does listen, \<^verbatim>\<open>DisServerFd\<close>, which tests
  for the same descriptor, never closes the listener.\<close>

theorem setListen_needs_descriptor_zero:
  assumes "netq w = []"
  shows "if 0 \<in> set (opened w)
     then \<exists>w' fd. setListen port w = (Ret (errno_num (cerrno w), fd), w') \<and> fd \<notin> set (opened w) \<and> opened w' = fd # opened w
        \<and> bound w' fd = None \<and> \<not> listening w' fd
     else \<exists>w'. setListen port w = (Ret (0, 0), w') \<and> opened w' = 0 # opened w \<and> listening w' 0 \<and> reuse w' 0
        \<and> bound w' 0 = Some \<lparr>sin_family = AF_INET, sin_port = htons port, sin_addr = INADDR_ANY\<rparr>
        \<and> DisServerFd 0 w' = (Ret (), w')"
proof (cases "0 \<in> set (opened w)")
  case True
  with assms fresh_fd_pos [OF True] fresh_fd_notin [of "opened w"] show ?thesis
    by (simp add: setListen_def sys_socket_def net_verdict_def andthen_def ret_def gets_def Let_def)
next
  case False
  with assms fresh_fd_zero [OF False] show ?thesis
    by (simp add: setListen_def sys_socket_def sys_set_reuseaddr_def sys_bind_def sys_listen_def DisServerFd_def
        net_verdict_def andthen_def ret_def gets_def modify_def Let_def)
qed

text \<open>\<^verbatim>\<open>clientAccept\<close> waits through interruptions and returns the next connection, or a null pointer when none
  came in time or \<^verbatim>\<open>accept\<close> failed.\<close>

theorem clientAccept_next:
  assumes "lfd \<in> set (opened w)" "0 \<le> lfd" "lfd < FD_SET_SIZE" "0 < wait_seconds" "accq w lfd = r # q" "0 \<le> n"
  shows "\<exists>w'. clientAccept lfd wait_seconds (replicate k (-1, EINTR) @ [(n, e)]) w =
      (Ret (if n = 0 then None else case r of AConn c \<Rightarrow> Some (new_fd c (opened w)) | AFail _ \<Rightarrow> None), w')
     \<and> accq w' lfd = (if n = 0 then r # q else q)"
proof -
  obtain e' where "select_loop (replicate k (-1, EINTR) @ [(n, e)]) w = (Ret n, w\<lparr>cerrno := e'\<rparr>)"
    by (rule select_loop_interrupted [OF assms(6)])
  moreover have "new_fd c (opened w) \<noteq> -1" for c using new_fd_props(2) [of c "opened w"] by linarith
  ultimately show ?thesis
    using assms by (cases r) (auto simp: clientAccept_def sys_accept_def fail_with_def andthen_def ret_def Let_def)
qed

subsection \<open>Instances\<close>

theorem connectServer_never_connects_witness:
  "\<exists>w' fd. connectServer 8 ''127.0.0.1'' 8888 5 [] (0, 0) world0 = (Ret (22, Some fd), w') \<and> opened w' = [fd, 0, 1, 2]"
  using connectServer_never_connects [of world0 8 8888 5 "''127.0.0.1''" "[]" "(0, 0)"]
  by (auto simp: world0_def SOCKADDR_SIZE_def)

theorem connectTimeout_established_fails_witness:
  "\<exists>w'. connectTimeout 16 5 a 2 [(-1, EINTR), (1, EINTR)] (0, 0) ((conn_world 5 [])\<lparr>netq := [Some EINPROGRESS]\<rparr>) = (Ret (-1), w')"
  using connectTimeout_established_fails [of "(conn_world 5 [])\<lparr>netq := [Some EINPROGRESS]\<rparr>" "[]" 16 2 5 a 1 EINTR 0]
  by (auto simp: conn_world_def world0_def SOCKADDR_SIZE_def FD_SET_SIZE_def)

theorem setListen_needs_descriptor_zero_witness:
  "(\<exists>w' fd. setListen 8888 (world0\<lparr>cerrno := EOTHER 0\<rparr>) = (Ret (0, fd), w') \<and> \<not> listening w' fd)
   \<and> (\<exists>w'. setListen 8888 (world0\<lparr>opened := [1, 2]\<rparr>) = (Ret (0, 0), w') \<and> listening w' 0)"
proof
  show "\<exists>w' fd. setListen 8888 (world0\<lparr>cerrno := EOTHER 0\<rparr>) = (Ret (0, fd), w') \<and> \<not> listening w' fd"
    using setListen_needs_descriptor_zero [of "world0\<lparr>cerrno := EOTHER 0\<rparr>" 8888]
    by (auto simp: world0_def)
  show "\<exists>w'. setListen 8888 (world0\<lparr>opened := [1, 2]\<rparr>) = (Ret (0, 0), w') \<and> listening w' 0"
    using setListen_needs_descriptor_zero [of "world0\<lparr>opened := [1, 2]\<rparr>" 8888]
    by (auto simp: world0_def)
qed

theorem clientAccept_next_witness:
  "\<exists>w'. clientAccept 5 2 [(-1, EINTR), (1, EINTR)] ((conn_world 5 [])\<lparr>accq := (\<lambda>_. [AConn 9])\<rparr>) = (Ret (Some 9), w')"
  using clientAccept_next [of 5 "(conn_world 5 [])\<lparr>accq := (\<lambda>_. [AConn 9])\<rparr>" 2 "AConn 9" "[]" 1 1 EINTR]
  by (auto simp: conn_world_def world0_def FD_SET_SIZE_def new_fd_def)

end
