(* ===== verification/KeyShm.thy ===== *)
theory KeyShm
  imports Prelude
begin

section \<open>A table of keys in shared memory (shm\_test/SecKeyShm.cpp)\<close>

text \<open>
  \<^verbatim>\<open>src/shm_test/SecKeyShm.h\<close> and \<^verbatim>\<open>SecKeyShm.cpp\<close>: an array of nodes in shared memory, searched by the identifiers of client and
  server; a node of zeros is vacant. The C++ source misspells some names (\<^verbatim>\<open>serverId\<close>, \<^verbatim>\<open>m_maxNode\<close>); the model reads them as the members they stand for. The character
  arrays of a node are the lists of their bytes. An array without a NUL that is printed or compared as a C string is undefined (\<open>None\<close>). \<open>mapped\<close>:
  \<^verbatim>\<open>shmat\<close> succeeds.
\<close>

record shm_node =
  nstatus :: int
  seckeyID :: int
  clientID :: "byte list"
  serverID :: "byte list"
  seckey :: "byte list"

text \<open>The constructor \<^verbatim>\<open>NodeSHMInfo()\<close>.\<close>

definition NodeSHMInfo :: shm_node where
  "NodeSHMInfo = \<lparr>nstatus = 0, seckeyID = 0, clientID = replicate 12 NUL, serverID = replicate 12 NUL, seckey = replicate 128 NUL\<rparr>"

definition InitShm :: "nat \<Rightarrow> shm_node list" where
  "InitShm maxNode = replicate maxNode NodeSHMInfo"

definition strings_ok :: "shm_node \<Rightarrow> bool" where
  "strings_ok n \<longleftrightarrow> NUL \<in> set (clientID n) \<and> NUL \<in> set (serverID n)"

text \<open>The search of both functions: the index of the first node with these identifiers, or the size of the table.\<close>

fun find_node :: "byte list \<Rightarrow> byte list \<Rightarrow> shm_node list \<Rightarrow> nat option" where
  "find_node c s [] = Some 0"
| "find_node c s (n # ns) =
     (if \<not> strings_ok n then None
      else if cstr (clientID n) = c \<and> cstr (serverID n) = s then Some 0
      else map_option Suc (find_node c s ns))"

text \<open>
  A failed \<^verbatim>\<open>shmat\<close> is answered with \<^verbatim>\<open>return NULL\<close>, which is the 0 of success.
\<close>

definition ShmWrite :: "bool \<Rightarrow> shm_node \<Rightarrow> shm_node list \<Rightarrow> (int \<times> shm_node list) option" where
  "ShmWrite mapped info t =
     (if \<not> mapped then Some (0, t)
      else if t \<noteq> [] \<and> \<not> strings_ok info then None
      else case find_node (cstr (clientID info)) (cstr (serverID info)) t of
        None \<Rightarrow> None
      | Some i \<Rightarrow>
          (if i < length t then Some (0, t[i := info])
           else let j = first_index (\<lambda>n. n = NodeSHMInfo) t
                in if j < length t then Some (0, t[j := info]) else Some (-1, t)))"

text \<open>The arguments are strings; the node found is printed, its key included.\<close>

definition ShmRead :: "bool \<Rightarrow> byte list \<Rightarrow> byte list \<Rightarrow> shm_node list \<Rightarrow> shm_node option" where
  "ShmRead mapped c s t =
     (if \<not> mapped then Some NodeSHMInfo
      else case find_node (cstr c) (cstr s) t of
        None \<Rightarrow> None
      | Some i \<Rightarrow>
          (if i < length t then (if NUL \<in> set (seckey (t ! i)) then Some (t ! i) else None)
           else Some NodeSHMInfo))"

subsection \<open>The table as a map\<close>

text \<open>Well-formed nodes, and the map from pairs of identifiers to nodes that a table stands for; the empty pair is the key of vacant nodes.\<close>

definition node_ok :: "shm_node \<Rightarrow> bool" where
  "node_ok n \<longleftrightarrow> strings_ok n \<and> NUL \<in> set (seckey n)"

definition table_ok :: "shm_node list \<Rightarrow> bool" where
  "table_ok t \<longleftrightarrow> (\<forall>n \<in> set t. node_ok n)"

definition node_key :: "shm_node \<Rightarrow> byte list \<times> byte list" where
  "node_key n = (cstr (clientID n), cstr (serverID n))"

definition table_map :: "shm_node list \<Rightarrow> byte list \<times> byte list \<Rightarrow> shm_node option" where
  "table_map t k = (if k = ([], []) then None else find (\<lambda>n. node_key n = k) t)"

lemma node_ok_vacant [simp]: "node_ok NodeSHMInfo" "node_key NodeSHMInfo = ([], [])"
  by (simp_all add: node_ok_def strings_ok_def NodeSHMInfo_def node_key_def numeral_eq_Suc)

lemma find_node_first_index:
  "table_ok t \<Longrightarrow> find_node c s t = Some (first_index (\<lambda>n. node_key n = (c, s)) t)"
  by (induction t) (auto simp: table_ok_def node_ok_def node_key_def)

lemma find_first_index:
  "find P xs = (if first_index P xs < length xs then Some (xs ! first_index P xs) else None)"
  by (induction xs) auto

lemma find_update_hit:
  assumes "first_index P xs < length xs" "P x"
  shows "find P (xs[first_index P xs := x]) = Some x"
  using assms by (induction xs) auto

lemma find_update_none: "\<forall>y \<in> set xs. \<not> P y \<Longrightarrow> j < length xs \<Longrightarrow> P x \<Longrightarrow> find P (xs[j := x]) = Some x"
  by (induction xs arbitrary: j) (auto split: nat.split)

lemma find_update_other: "j < length xs \<Longrightarrow> \<not> P (xs ! j) \<Longrightarrow> \<not> P x \<Longrightarrow> find P (xs[j := x]) = find P xs"
  by (induction xs arbitrary: j) (auto split: nat.split)

lemma table_ok_update: "table_ok t \<Longrightarrow> node_ok n \<Longrightarrow> table_ok (t[i := n])"
  unfolding table_ok_def using set_update_subset_insert [of t i n] by blast

text \<open>Writing as an update of the map a table stands for.\<close>

lemma ShmWrite_map:
  assumes "table_ok t" "node_ok info" "node_key info \<noteq> ([], [])"
  shows "\<exists>r t'. ShmWrite True info t = Some (r, t') \<and> table_ok t' \<and> length t' = length t
     \<and> (if table_map t (node_key info) = None \<and> NodeSHMInfo \<notin> set t then r = -1 \<and> t' = t
        else r = 0 \<and> table_map t' = (table_map t)(node_key info \<mapsto> info))"
proof -
  let ?P = "\<lambda>n. node_key n = node_key info"
  let ?V = "\<lambda>n. n = NodeSHMInfo"
  have s: "strings_ok info" using assms(2) by (simp add: node_ok_def)
  have f: "find_node (cstr (clientID info)) (cstr (serverID info)) t = Some (first_index ?P t)"
    using find_node_first_index [OF assms(1)] by (simp add: node_key_def)
  have upd: "table_map (t[i := info]) = (table_map t)(node_key info \<mapsto> info)"
    if "i < length t" "node_key (t ! i) \<in> {node_key info, ([], [])}" "find ?P (t[i := info]) = Some info" for i
  proof
    fix k
    show "table_map (t[i := info]) k = ((table_map t)(node_key info \<mapsto> info)) k"
      using that assms(3) find_update_other [of i t "\<lambda>n. node_key n = k" info]
      by (auto simp: table_map_def)
  qed
  consider (found) "first_index ?P t < length t" | (vacant) "\<not> first_index ?P t < length t" "first_index ?V t < length t"
    | (full) "\<not> first_index ?P t < length t" "\<not> first_index ?V t < length t" by blast
  then show ?thesis
  proof cases
    case found
    note hit = first_index_hit [OF found]
    have "find ?P (t[first_index ?P t := info]) = Some info" by (rule find_update_hit [OF found]) simp
    with found hit have "table_map (t[first_index ?P t := info]) = (table_map t)(node_key info \<mapsto> info)"
      by (intro upd) simp_all
    moreover have "table_map t (node_key info) \<noteq> None" using found assms(3) by (simp add: table_map_def find_first_index)
    ultimately show ?thesis using found s f table_ok_update [OF assms(1,2)] by (simp add: ShmWrite_def)
  next
    case vacant
    note hit = first_index_hit [OF vacant(2)]
    have none: "\<forall>n \<in> set t. \<not> ?P n" using vacant(1) first_index_none [of ?P t] first_index_le [of ?P t] by simp
    have "find ?P (t[first_index ?V t := info]) = Some info" by (rule find_update_none [OF none vacant(2)]) simp
    with vacant(2) hit have "table_map (t[first_index ?V t := info]) = (table_map t)(node_key info \<mapsto> info)"
      by (intro upd) simp_all
    moreover have "NodeSHMInfo \<in> set t" using vacant(2) hit by (metis nth_mem)
    ultimately show ?thesis using vacant s f table_ok_update [OF assms(1,2)] by (simp add: ShmWrite_def Let_def)
  next
    case full
    then have "NodeSHMInfo \<notin> set t" using first_index_none [of ?V t] first_index_le [of ?V t] by auto
    moreover have "table_map t (node_key info) = None" using full(1) by (simp add: table_map_def find_first_index)
    ultimately show ?thesis using full s f assms(1) by (simp add: ShmWrite_def Let_def)
  qed
qed

text \<open>C28: Writing a node is an update of the map: the table's well-formedness is kept; a node written is found under its identifiers and no other
  entry changes; the write fails exactly when there is neither an entry for the identifiers nor a vacant node, and then changes nothing.\<close>

theorem shm_write_updates_map:
  assumes "table_ok t" "node_ok info" "node_key info \<noteq> ([], [])"
  shows "\<exists>r t'. ShmWrite True info t = Some (r, t') \<and> table_ok t' \<and> length t' = length t
     \<and> (if table_map t (node_key info) = None \<and> NodeSHMInfo \<notin> set t then r = -1 \<and> t' = t
        else r = 0 \<and> table_map t' = (table_map t)(node_key info \<mapsto> info))"
  by (rule ShmWrite_map [OF assms])

text \<open>Reading is a lookup in the map: the node stored under the identifiers, or a vacant node when there is none.\<close>

theorem shm_read_looks_up:
  assumes "table_ok t" "(cstr c, cstr s) \<noteq> ([], [])"
  shows "ShmRead True c s t = Some (case table_map t (cstr c, cstr s) of Some n \<Rightarrow> n | None \<Rightarrow> NodeSHMInfo)"
proof -
  let ?i = "first_index (\<lambda>n. node_key n = (cstr c, cstr s)) t"
  have "NUL \<in> set (seckey (t ! ?i))" if "?i < length t"
    using assms(1) that by (auto simp: table_ok_def node_ok_def)
  then show ?thesis using find_node_first_index [OF assms(1)] assms(2)
    by (auto simp: ShmRead_def table_map_def find_first_index)
qed

text \<open>A failed attachment is reported as success, with nothing written.\<close>

lemma shm_write_unmapped: "ShmWrite False info t = Some (0, t)"
  by (simp add: ShmWrite_def)

subsection \<open>Instances\<close>

definition key_node :: shm_node where
  "key_node = \<lparr>nstatus = 1, seckeyID = 7, clientID = ''alice'' @ replicate 7 NUL, serverID = ''srv'' @ replicate 9 NUL,
     seckey = ''k'' @ replicate 127 NUL\<rparr>"

lemma key_node_ok: "node_ok key_node" "node_key key_node = (''alice'', ''srv'')" "table_ok (InitShm 2)"
proof -
  show "node_ok key_node" "node_key key_node = (''alice'', ''srv'')"
    by (simp_all add: node_ok_def strings_ok_def key_node_def node_key_def numeral_eq_Suc)
  show "table_ok (InitShm 2)" by (simp add: InitShm_def table_ok_def)
qed

theorem shm_write_updates_map_witness:
  "\<exists>r t'. ShmWrite True key_node (InitShm 2) = Some (r, t') \<and> r = 0
     \<and> table_map t' = (table_map (InitShm 2))(node_key key_node \<mapsto> key_node)"
  using shm_write_updates_map [of "InitShm 2" key_node] key_node_ok
  by (auto simp: InitShm_def)

theorem shm_read_looks_up_witness: "ShmRead True ''alice'' ''srv'' [NodeSHMInfo, key_node] = Some key_node"
proof -
  have "table_ok [NodeSHMInfo, key_node]" using key_node_ok(1) by (simp add: table_ok_def)
  with shm_read_looks_up [of "[NodeSHMInfo, key_node]" "''alice''" "''srv''"] key_node_ok(2) show ?thesis
    by (simp add: table_map_def)
qed

end
