(* ===== verification/SharedMemory.thy ===== *)
theory SharedMemory
  imports KeyShm Transition
begin

section \<open>Shared memory segments (shm\_test)\<close>

text \<open>
  The System V calls on a kernel of segments, the class \<^verbatim>\<open>BaseShm\<close> over them, \<^verbatim>\<open>SecKeyShm\<close> as the class that adds the
  key table of \<open>KeyShm\<close>, and the programs \<^verbatim>\<open>write_shm.c\<close> and \<^verbatim>\<open>read_shm.c\<close> as two processes. A segment is an array of cells
  of one type, nodes or bytes, and its size is counted in cells. Every attachment has an address of its own, which
  no other attachment ever gets.
\<close>

subsection \<open>The kernel\<close>

record 'c seg =
  skey :: int
  cells :: "'c list"
  marked :: bool               \<comment> \<open>to be removed when nobody is attached any more\<close>

record 'c shm =
  seg_of :: "nat \<Rightarrow> 'c seg option"
  next_seg :: nat
  attached_to :: "nat \<Rightarrow> nat option"   \<comment> \<open>from the address of an attachment to its segment\<close>
  next_addr :: nat

definition has_key :: "'c shm \<Rightarrow> int \<Rightarrow> nat \<Rightarrow> bool" where
  "has_key k key i = (case seg_of k i of Some s \<Rightarrow> skey s = key \<and> \<not> marked s | None \<Rightarrow> False)"

text \<open>\<^verbatim>\<open>shmget\<close>; key 0 is \<^verbatim>\<open>IPC_PRIVATE\<close>. A new segment holds zeros (\<open>z\<close>).\<close>

definition shmget :: "int \<Rightarrow> nat \<Rightarrow> bool \<Rightarrow> 'c \<Rightarrow> 'c shm \<Rightarrow> int \<times> 'c shm" where
  "shmget key n create z k =
     (case (if key = 0 then None else find (has_key k key) [0..<next_seg k]) of
        Some i \<Rightarrow> (if length (cells (the (seg_of k i))) < n then (-1, k) else (int i, k))
      | None \<Rightarrow>
          if (create \<or> key = 0) \<and> 0 < n
          then (int (next_seg k), k\<lparr>seg_of := (seg_of k)(next_seg k \<mapsto> \<lparr>skey = key, cells = replicate n z, marked = False\<rparr>),
                                    next_seg := Suc (next_seg k)\<rparr>)
          else (-1, k))"

definition shmat :: "int \<Rightarrow> 'c shm \<Rightarrow> nat option \<times> 'c shm" where
  "shmat i k =
     (if i < 0 \<or> seg_of k (nat i) = None then (None, k)
      else (Some (next_addr k), k\<lparr>attached_to := (attached_to k)(next_addr k \<mapsto> nat i), next_addr := Suc (next_addr k)\<rparr>))"

definition nattch :: "nat \<Rightarrow> 'c shm \<Rightarrow> nat" where
  "nattch i k = length (filter (\<lambda>a. attached_to k a = Some i) [0..<next_addr k])"

definition reap :: "nat \<Rightarrow> 'c shm \<Rightarrow> 'c shm" where
  "reap i k =
     (case seg_of k i of
        None \<Rightarrow> k
      | Some s \<Rightarrow> if marked s \<and> nattch i k = 0 then k\<lparr>seg_of := (seg_of k)(i := None)\<rparr> else k)"

definition shmdt :: "nat \<Rightarrow> 'c shm \<Rightarrow> int \<times> 'c shm" where
  "shmdt a k =
     (case attached_to k a of
        None \<Rightarrow> (-1, k)
      | Some i \<Rightarrow> (0, reap i (k\<lparr>attached_to := (attached_to k)(a := None)\<rparr>)))"

definition shm_rmid :: "int \<Rightarrow> 'c shm \<Rightarrow> int \<times> 'c shm" where
  "shm_rmid i k =
     (if i < 0 then (-1, k)
      else case seg_of k (nat i) of
        None \<Rightarrow> (-1, k)
      | Some s \<Rightarrow> (0, reap (nat i) (k\<lparr>seg_of := (seg_of k)(nat i \<mapsto> s\<lparr>marked := True\<rparr>)\<rparr>)))"

text \<open>The cells an address points to, and a store to them.\<close>

definition cells_at :: "nat \<Rightarrow> 'c shm \<Rightarrow> 'c list option" where
  "cells_at a k = (case attached_to k a of None \<Rightarrow> None | Some i \<Rightarrow> map_option cells (seg_of k i))"

definition store_at :: "nat \<Rightarrow> 'c list \<Rightarrow> 'c shm \<Rightarrow> 'c shm" where
  "store_at a cs k =
     (case attached_to k a of
        None \<Rightarrow> k
      | Some i \<Rightarrow> k\<lparr>seg_of := (seg_of k)(i := map_option (\<lambda>s. s\<lparr>cells := cs\<rparr>) (seg_of k i))\<rparr>)"

subsection \<open>BaseShm\<close>

text \<open>The member \<^verbatim>\<open>ptr\<close> is indeterminate until \<^verbatim>\<open>mapShm\<close>, which can also leave \<^verbatim>\<open>(void *)-1\<close> in it: both are \<open>Wild\<close>.\<close>

datatype sptr = Wild | Addr nat

record base_shm =
  bptr :: sptr
  shmId :: int

definition getShmKeyId :: "int \<Rightarrow> nat \<Rightarrow> bool \<Rightarrow> 'c \<Rightarrow> 'c shm \<Rightarrow> base_shm \<times> 'c shm" where
  "getShmKeyId key n create z k = (case shmget key n create z k of (i, k') \<Rightarrow> (\<lparr>bptr = Wild, shmId = i\<rparr>, k'))"

definition BaseShm_open :: "int \<Rightarrow> 'c \<Rightarrow> 'c shm \<Rightarrow> base_shm \<times> 'c shm" where
  "BaseShm_open key z = getShmKeyId key 0 False z"

definition BaseShm_open_path :: "(byte list \<Rightarrow> int) \<Rightarrow> byte list \<Rightarrow> 'c \<Rightarrow> 'c shm \<Rightarrow> base_shm \<times> 'c shm" where
  "BaseShm_open_path ftok path z = getShmKeyId (ftok path) 0 False z"

definition BaseShm :: "int \<Rightarrow> nat \<Rightarrow> 'c \<Rightarrow> 'c shm \<Rightarrow> base_shm \<times> 'c shm" where
  "BaseShm key n z = getShmKeyId key n True z"

definition BaseShm_path :: "(byte list \<Rightarrow> int) \<Rightarrow> byte list \<Rightarrow> nat \<Rightarrow> 'c \<Rightarrow> 'c shm \<Rightarrow> base_shm \<times> 'c shm" where
  "BaseShm_path ftok path n z = getShmKeyId (ftok path) n True z"

definition mapShm :: "'z base_shm_scheme \<Rightarrow> 'c shm \<Rightarrow> nat option \<times> 'z base_shm_scheme \<times> 'c shm" where
  "mapShm o1 k =
     (case shmat (shmId o1) k of
        (None, k') \<Rightarrow> (None, o1\<lparr>bptr := Wild\<rparr>, k')
      | (Some a, k') \<Rightarrow> (Some a, o1\<lparr>bptr := Addr a\<rparr>, k'))"

definition unmapShm :: "'z base_shm_scheme \<Rightarrow> 'c shm \<Rightarrow> int \<times> 'c shm" where
  "unmapShm o1 k = (case bptr o1 of Wild \<Rightarrow> (-1, k) | Addr a \<Rightarrow> shmdt a k)"

definition delShm :: "'z base_shm_scheme \<Rightarrow> 'c shm \<Rightarrow> int \<times> 'c shm" where
  "delShm o1 k = shm_rmid (shmId o1) k"

subsection \<open>SecKeyShm\<close>

text \<open>The constructor that takes a path does not set \<^verbatim>\<open>maxNode\<close>: \<open>junk\<close>.\<close>

record sec_shm = base_shm +
  maxNode :: nat

definition SecKeyShm :: "int \<Rightarrow> nat \<Rightarrow> shm_node shm \<Rightarrow> sec_shm \<times> shm_node shm" where
  "SecKeyShm key n k =
     (case BaseShm key n NodeSHMInfo k of (b, k') \<Rightarrow> (base_shm.extend b \<lparr>maxNode = n\<rparr>, k'))"

definition SecKeyShm_path :: "(byte list \<Rightarrow> int) \<Rightarrow> byte list \<Rightarrow> nat \<Rightarrow> nat \<Rightarrow> shm_node shm \<Rightarrow> sec_shm \<times> shm_node shm" where
  "SecKeyShm_path ftok path n junk k =
     (case BaseShm_path ftok path n NodeSHMInfo k of (b, k') \<Rightarrow> (base_shm.extend b \<lparr>maxNode = junk\<rparr>, k'))"

text \<open>\<^verbatim>\<open>InitShm\<close> writes through the member: undefined (\<open>None\<close>) unless that is an attachment.\<close>

definition sec_init :: "sec_shm \<Rightarrow> shm_node shm \<Rightarrow> shm_node shm option" where
  "sec_init o1 k =
     (case bptr o1 of
        Wild \<Rightarrow> None
      | Addr a \<Rightarrow>
          (case cells_at a k of
             None \<Rightarrow> None
           | Some t \<Rightarrow> if maxNode o1 \<le> length t
                       then Some (store_at a (InitShm (maxNode o1) @ drop (maxNode o1) t) k) else None))"

text \<open>
  \<^verbatim>\<open>ShmWrite\<close> and \<^verbatim>\<open>ShmRead\<close> around the work on the table: they attach, and detach at the end, \<^verbatim>\<open>ShmWrite\<close> twice when it has used a
  vacant node. Reading past the segment is undefined.
\<close>

definition sec_write :: "sec_shm \<Rightarrow> shm_node \<Rightarrow> shm_node shm \<Rightarrow> (int \<times> sec_shm \<times> shm_node shm) option" where
  "sec_write o1 info k =
     (case mapShm o1 k of
        (None, o2, k1) \<Rightarrow> Some (0, o2, k1)
      | (Some a, o2, k1) \<Rightarrow>
          (case cells_at a k1 of
             None \<Rightarrow> None
           | Some t \<Rightarrow>
               if length t < maxNode o1 \<and> find_node (cstr (clientID info)) (cstr (serverID info)) t = Some (length t) then None
               else case ShmWrite True info (take (maxNode o1) t) of
                 None \<Rightarrow> None
               | Some (r, t') \<Rightarrow>
                   (let k2 = snd (unmapShm o2 (store_at a (t' @ drop (maxNode o1) t) k1))
                    in Some (r, o2, if r = 0 \<and> find_node (cstr (clientID info)) (cstr (serverID info)) (take (maxNode o1) t)
                                      = Some (length t') then snd (unmapShm o2 k2) else k2))))"

definition sec_read :: "sec_shm \<Rightarrow> byte list \<Rightarrow> byte list \<Rightarrow> shm_node shm \<Rightarrow> (shm_node \<times> sec_shm \<times> shm_node shm) option" where
  "sec_read o1 c s k =
     (case mapShm o1 k of
        (None, o2, k1) \<Rightarrow> Some (NodeSHMInfo, o2, k1)
      | (Some a, o2, k1) \<Rightarrow>
          (case cells_at a k1 of
             None \<Rightarrow> None
           | Some t \<Rightarrow>
               if length t < maxNode o1 \<and> find_node (cstr c) (cstr s) t = Some (length t) then None
               else map_option (\<lambda>n. (n, o2, snd (unmapShm o2 k1))) (ShmRead True c s (take (maxNode o1) t))))"

subsection \<open>The class as a map shared between processes\<close>

definition shm_ok :: "'c shm \<Rightarrow> bool" where
  "shm_ok k \<longleftrightarrow> (\<forall>a \<ge> next_addr k. attached_to k a = None) \<and> (\<forall>i \<ge> next_seg k. seg_of k i = None)"

lemma reap_attached [simp]: "attached_to (reap i k) = attached_to k" "next_addr (reap i k) = next_addr k"
    "next_seg (reap i k) = next_seg k"
  by (simp_all add: reap_def split: option.split)

lemma reap_unmarked: "seg_of k i = Some s \<Longrightarrow> \<not> marked s \<Longrightarrow> reap i k = k"
  by (simp add: reap_def)

lemma shmdt_twice: "attached_to k a = None \<Longrightarrow> shmdt a k = (-1, k)"
  by (simp add: shmdt_def)

text \<open>The table in segment \<open>i\<close>, seen through an object that holds its identifier.\<close>

definition refers :: "sec_shm \<Rightarrow> nat \<Rightarrow> shm_node list \<Rightarrow> shm_node shm \<Rightarrow> bool" where
  "refers o1 i t k \<longleftrightarrow> shm_ok k \<and> shmId o1 = int i \<and> maxNode o1 = length t \<and> t \<noteq> []
     \<and> (\<exists>s. seg_of k i = Some s \<and> cells s = t \<and> \<not> marked s)"

lemma attach:
  assumes "refers o1 i t k"
  shows "mapShm o1 k = (Some (next_addr k), o1\<lparr>bptr := Addr (next_addr k)\<rparr>,
      k\<lparr>attached_to := (attached_to k)(next_addr k \<mapsto> i), next_addr := Suc (next_addr k)\<rparr>)"
    "attached_to k (next_addr k) = None"
  using assms by (auto simp: refers_def shm_ok_def mapShm_def shmat_def)

lemma sec_write_refers:
  assumes "refers o1 i t k" "ShmWrite True info t = Some (r, t')" "length t' = length t"
  shows "\<exists>o2 k'. sec_write o1 info k = Some (r, o2, k') \<and> attached_to k' = attached_to k
     \<and> (\<forall>p. shmId p = int i \<longrightarrow> maxNode p = length t \<longrightarrow> refers p i t' k')"
proof -
  obtain s where s: "seg_of k i = Some s" "cells s = t" "\<not> marked s" and n: "maxNode o1 = length t"
    and ok: "shm_ok k" "t \<noteq> []"
    using assms(1) by (auto simp: refers_def)
  let ?a = "next_addr k"
  let ?k' = "k\<lparr>seg_of := (seg_of k)(i \<mapsto> s\<lparr>cells := t'\<rparr>), next_addr := Suc ?a\<rparr>"
  let ?k1 = "k\<lparr>attached_to := (attached_to k)(?a \<mapsto> i), next_addr := Suc ?a\<rparr>"
  have none: "(attached_to k)(?a := None) = attached_to k" using attach(2) [OF assms(1)] by (simp add: fun_upd_idem)
  have dt: "shmdt ?a (store_at ?a t' ?k1) = (0, ?k')"
    using s none by (simp add: shmdt_def store_at_def reap_unmarked)
  have at: "attached_to ?k' ?a = None" using attach(2) [OF assms(1)] by simp
  have cell: "cells_at ?a ?k1 = Some t" using s by (simp add: cells_at_def)
  have "sec_write o1 info k = Some (r, o1\<lparr>bptr := Addr ?a\<rparr>, ?k')"
    unfolding sec_write_def attach(1) [OF assms(1)]
    using cell dt shmdt_twice [OF at] assms(2) n by (simp add: unmapShm_def Let_def)
  moreover have "refers p i t' ?k'" if "shmId p = int i" "maxNode p = length t" for p
    using that s ok assms(3) by (auto simp: refers_def shm_ok_def)
  ultimately show ?thesis by auto
qed

lemma sec_read_refers:
  assumes "refers o1 i t k" "ShmRead True c s t = Some n"
  shows "\<exists>o2 k'. sec_read o1 c s k = Some (n, o2, k') \<and> attached_to k' = attached_to k
     \<and> (\<forall>p. refers p i t k \<longrightarrow> refers p i t k')"
proof -
  obtain g where g: "seg_of k i = Some g" "cells g = t" "\<not> marked g" and l: "maxNode o1 = length t"
    using assms(1) by (auto simp: refers_def)
  let ?a = "next_addr k"
  let ?k' = "k\<lparr>next_addr := Suc ?a\<rparr>"
  let ?k1 = "k\<lparr>attached_to := (attached_to k)(?a \<mapsto> i), next_addr := Suc ?a\<rparr>"
  have none: "(attached_to k)(?a := None) = attached_to k" using attach(2) [OF assms(1)] by (simp add: fun_upd_idem)
  have dt: "shmdt ?a ?k1 = (0, ?k')"
    using g none by (simp add: shmdt_def reap_unmarked)
  have cell: "cells_at ?a ?k1 = Some t" using g by (simp add: cells_at_def)
  have "sec_read o1 c s k = Some (n, o1\<lparr>bptr := Addr ?a\<rparr>, ?k')"
    unfolding sec_read_def attach(1) [OF assms(1)]
    using cell dt assms(2) l by (simp add: unmapShm_def)
  moreover have "refers p i t ?k'" if "refers p i t k" for p
    using that by (auto simp: refers_def shm_ok_def)
  ultimately show ?thesis by auto
qed

text \<open>C27: What one process writes, every process that has the table open reads: \<^verbatim>\<open>ShmWrite\<close> through one object updates the map, and a later \<^verbatim>\<open>ShmRead\<close> through
  any other object of the same segment is a lookup in the updated map, for every pair of identifiers; and no
  attachment is left behind by either.\<close>

theorem sec_shm_shared_map:
  assumes "refers o1 i t k" "refers p i t k" "table_ok t" "node_ok info" "node_key info \<noteq> ([], [])"
    "(cstr c, cstr s) \<noteq> ([], [])"
  shows "\<exists>r o2 k'. sec_write o1 info k = Some (r, o2, k') \<and> attached_to k' = attached_to k
     \<and> (let m = (if table_map t (node_key info) = None \<and> NodeSHMInfo \<notin> set t then table_map t
                 else (table_map t)(node_key info \<mapsto> info))
        in \<exists>p' k''. sec_read p c s k' = Some (case m (cstr c, cstr s) of Some n \<Rightarrow> n | None \<Rightarrow> NodeSHMInfo, p', k'')
             \<and> attached_to k'' = attached_to k)"
proof -
  obtain r t' where w: "ShmWrite True info t = Some (r, t')" "table_ok t'" "length t' = length t"
    and m: "table_map t' = (if table_map t (node_key info) = None \<and> NodeSHMInfo \<notin> set t then table_map t
                 else (table_map t)(node_key info \<mapsto> info))"
    using ShmWrite_map [OF assms(3,4,5)] by fastforce
  obtain o2 k' where o2: "sec_write o1 info k = Some (r, o2, k')" "attached_to k' = attached_to k" "refers p i t' k'"
    using sec_write_refers [OF assms(1) w(1,3)] assms(2) by (auto simp: refers_def)
  have "ShmRead True c s t' = Some (case table_map t' (cstr c, cstr s) of Some n \<Rightarrow> n | None \<Rightarrow> NodeSHMInfo)"
    by (rule shm_read_looks_up [OF w(2) assms(6)])
  from sec_read_refers [OF o2(3) this] show ?thesis
    unfolding Let_def m [symmetric] using o2(1,2) by auto
qed

subsection \<open>What the class does not offer\<close>

datatype sec_op = SecWrite shm_node | SecRead "byte list" "byte list"

fun sec_run :: "sec_op list \<Rightarrow> sec_shm \<times> shm_node shm \<Rightarrow> (sec_shm \<times> shm_node shm) option" where
  "sec_run [] x = Some x"
| "sec_run (SecWrite info # ops) (o1, k) =
     (case sec_write o1 info k of None \<Rightarrow> None | Some (_, o2, k') \<Rightarrow> sec_run ops (o2, k'))"
| "sec_run (SecRead c s # ops) (o1, k) =
     (case sec_read o1 c s k of None \<Rightarrow> None | Some (_, o2, k') \<Rightarrow> sec_run ops (o2, k'))"

definition unmapped :: "sec_shm \<Rightarrow> 'c shm \<Rightarrow> bool" where
  "unmapped o1 k \<longleftrightarrow> (\<forall>a. bptr o1 = Addr a \<longrightarrow> attached_to k a = None)"

lemma unmapped_unmap: "unmapped o1 (snd (unmapShm o1 k))"
  by (auto simp: unmapped_def unmapShm_def shmdt_def split: option.splits)

lemma mapShm_None: "mapShm o1 k = (None, o2, k') \<Longrightarrow> bptr o2 = Wild"
  by (auto simp: mapShm_def split: prod.splits option.splits)

lemma sec_write_unmaps: "sec_write o1 info k = Some (r, o2, k') \<Longrightarrow> unmapped o2 k'"
  unfolding sec_write_def
  by (auto simp: Let_def unmapped_unmap unmapped_def [of o2 k'] dest!: mapShm_None
      split: prod.splits option.splits if_splits)
     (metis unmapped_def unmapped_unmap)+

lemma sec_read_unmaps: "sec_read o1 c s k = Some (n, o2, k') \<Longrightarrow> unmapped o2 k'"
  unfolding sec_read_def
  by (auto simp: unmapped_def [of o2 k'] dest!: mapShm_None split: prod.splits option.splits if_splits)
     (metis unmapped_def unmapped_unmap)+

lemma sec_run_unmaps: "sec_run ops (o1, k) = Some (o2, k') \<Longrightarrow> unmapped o1 k \<Longrightarrow> unmapped o2 k'"
  by (induction ops "(o1, k)" arbitrary: o1 k rule: sec_run.induct)
     (auto split: option.splits dest: sec_write_unmaps sec_read_unmaps)

text \<open>\<^verbatim>\<open>InitShm\<close> can never be called: the constructors do not attach, and every operation detaches at its end without
  clearing the member, so that after any history of writes and reads it writes through a pointer that is not valid.\<close>

theorem sec_init_never_safe:
  assumes "SecKeyShm key n k = (o1, k1)" "sec_run ops (o1, k1) = Some (o2, k2)"
  shows "sec_init o2 k2 = None"
proof -
  have "unmapped o1 k1"
    using assms(1) by (auto simp: SecKeyShm_def BaseShm_def getShmKeyId_def unmapped_def base_shm.extend_def split: prod.splits)
  from sec_run_unmaps [OF assms(2) this] show ?thesis
    by (auto simp: sec_init_def unmapped_def cells_at_def split: sptr.split option.splits)
qed

text \<open>Opening an existing table with more nodes than it was made with fails unnoticed: the object behaves like one whose writes all
  succeed and which is always empty.\<close>

theorem sec_too_large_drops_writes:
  assumes "find (has_key k key) [0..<next_seg k] = Some i" "seg_of k i = Some g" "length (cells g) < n" "key \<noteq> 0"
    "SecKeyShm key n k = (o1, k1)"
  shows "k1 = k \<and> (\<exists>o2. sec_write o1 info k1 = Some (0, o2, k) \<and> sec_read o2 c s k = Some (NodeSHMInfo, o2, k))"
  using assms
  by (auto simp: SecKeyShm_def BaseShm_def getShmKeyId_def shmget_def base_shm.extend_def sec_write_def sec_read_def
      mapShm_def shmat_def)

text \<open>Of the paths that \<^verbatim>\<open>ftok\<close> knows no key for, all name one segment, the one of key -1, so that programs that have nothing
  to do with each other share a table.\<close>

lemma find_snoc: "find P xs = None \<Longrightarrow> P x \<Longrightarrow> find P (xs @ [x]) = Some x"
  by (induction xs) (auto split: if_splits)

theorem missing_paths_share:
  assumes "ftok p = -1" "ftok q = -1" "find (has_key k (-1)) [0..<next_seg k] = None" "0 < n" "m \<le> n"
  shows "\<exists>o1 k1 o2. BaseShm_path ftok p n z k = (o1, k1) \<and> BaseShm_path ftok q m z k1 = (o2, k1) \<and> shmId o1 = shmId o2 \<and> 0 \<le> shmId o1"
proof -
  let ?j = "next_seg k"
  let ?k1 = "k\<lparr>seg_of := (seg_of k)(?j \<mapsto> \<lparr>skey = -1, cells = replicate n z, marked = False\<rparr>), next_seg := Suc ?j\<rparr>"
  have "shmget (-1) n True z k = (int ?j, ?k1)" using assms(3,4) by (simp add: shmget_def)
  moreover have "find (has_key ?k1 (-1)) [0..<next_seg ?k1] = Some ?j"
  proof -
    have "\<forall>i < ?j. \<not> has_key k (-1) i" using assms(3) by (simp add: find_None_iff)
    then have "find (has_key ?k1 (-1)) [0..<?j] = None" by (auto simp: find_None_iff has_key_def)
    moreover have "has_key ?k1 (-1) ?j" by (simp add: has_key_def)
    ultimately show ?thesis by (simp add: find_snoc)
  qed
  ultimately show ?thesis using assms by (simp add: BaseShm_path_def getShmKeyId_def shmget_def)
qed

subsection \<open>write\_shm.c and read\_shm.c\<close>

text \<open>
  Both programs create or open the segment of key 100, attach, copy, wait for a key, detach and remove the segment. No
  result is looked at. \<open>sz\<close> is the size of the segment (4096) and \<open>rlen\<close> how much the reader copies (1024); the
  copies go byte by byte, so that the other process can run in between.
\<close>

datatype shpc = SGet | SAttach int | SCopy int nat nat | SKey int nat | SRemove int | SDone | SCrash

record shm_demo =
  dmem :: "byte shm"
  writer :: shpc
  reader :: shpc
  rbuf :: "byte list"
  rprinted :: "byte list option"

definition demo_text :: "byte list" where
  "demo_text = ''hello''"

datatype demo_act = Writer | Reader

text \<open>The calls the programs share: new place and memory; \<open>SCopy\<close> is theirs alone.\<close>

definition demo_call :: "nat \<Rightarrow> shpc \<Rightarrow> byte shm \<Rightarrow> (shpc \<times> byte shm) option" where
  "demo_call sz pc k =
     (case pc of
        SGet \<Rightarrow> (case shmget 100 sz True NUL k of (i, k') \<Rightarrow> Some (SAttach i, k'))
      | SAttach i \<Rightarrow>
          (case shmat i k of (None, k') \<Rightarrow> Some (SCrash, k') | (Some a, k') \<Rightarrow> Some (SCopy i a 0, k'))
      | SKey i a \<Rightarrow> Some (SRemove i, snd (shmdt a k))
      | SRemove i \<Rightarrow> Some (SDone, snd (shm_rmid i k))
      | _ \<Rightarrow> None)"

definition write_shm :: "nat \<Rightarrow> shm_demo \<Rightarrow> shm_demo option" where
  "write_shm sz s =
     (case writer s of
        SCopy i a j \<Rightarrow>
          (if j < Suc (length demo_text) then
             (case cells_at a (dmem s) of
                None \<Rightarrow> Some (s\<lparr>writer := SCrash\<rparr>)
              | Some cs \<Rightarrow> if j < length cs
                           then Some (s\<lparr>dmem := store_at a (cs[j := (demo_text @ [NUL]) ! j]) (dmem s), writer := SCopy i a (Suc j)\<rparr>)
                           else Some (s\<lparr>writer := SCrash\<rparr>))
           else Some (s\<lparr>writer := SKey i a\<rparr>))
      | pc \<Rightarrow> map_option (\<lambda>(pc', k). s\<lparr>writer := pc', dmem := k\<rparr>) (demo_call sz pc (dmem s)))"

text \<open>The reader prints its array as a string: without a NUL in it that is undefined.\<close>

definition read_shm :: "nat \<Rightarrow> nat \<Rightarrow> shm_demo \<Rightarrow> shm_demo option" where
  "read_shm sz rlen s =
     (case reader s of
        SCopy i a j \<Rightarrow>
          (if j < rlen then
             (case cells_at a (dmem s) of
                None \<Rightarrow> Some (s\<lparr>reader := SCrash\<rparr>)
              | Some cs \<Rightarrow> if j < length cs then Some (s\<lparr>rbuf := rbuf s @ [cs ! j], reader := SCopy i a (Suc j)\<rparr>)
                           else Some (s\<lparr>reader := SCrash\<rparr>))
           else if NUL \<in> set (rbuf s) then Some (s\<lparr>rprinted := Some (cstr (rbuf s)), reader := SKey i a\<rparr>)
           else Some (s\<lparr>reader := SCrash\<rparr>))
      | pc \<Rightarrow> map_option (\<lambda>(pc', k). s\<lparr>reader := pc', dmem := k\<rparr>) (demo_call sz pc (dmem s)))"

definition demo_exec :: "nat \<Rightarrow> nat \<Rightarrow> demo_act \<Rightarrow> shm_demo \<Rightarrow> shm_demo option" where
  "demo_exec sz rlen act s = (case act of Writer \<Rightarrow> write_shm sz s | Reader \<Rightarrow> read_shm sz rlen s)"

definition demo_start :: shm_demo where
  "demo_start = \<lparr>dmem = \<lparr>seg_of = (\<lambda>_. None), next_seg = 0, attached_to = (\<lambda>_. None), next_addr = 0\<rparr>,
     writer = SGet, reader = SGet, rbuf = [], rprinted = None\<rparr>"

text \<open>A byte at position \<open>j\<close> is 0 or the one of the text.\<close>

definition text_byte :: "nat \<Rightarrow> byte \<Rightarrow> bool" where
  "text_byte j c \<longleftrightarrow> c = NUL \<or> (j < length demo_text \<and> c = demo_text ! j)"

definition text_mem :: "byte list \<Rightarrow> bool" where
  "text_mem cs \<longleftrightarrow> (\<forall>j < length cs. text_byte j (cs ! j))"

fun copied :: "shpc \<Rightarrow> nat option" where
  "copied SGet = Some 0"
| "copied (SAttach i) = Some 0"
| "copied (SCopy i a j) = Some j"
| "copied _ = None"

definition demo_inv :: "nat \<Rightarrow> shm_demo \<Rightarrow> bool" where
  "demo_inv rlen s \<longleftrightarrow>
     (\<forall>i g. seg_of (dmem s) i = Some g \<longrightarrow> text_mem (cells g)) \<and> text_mem (rbuf s)
     \<and> (\<forall>n. copied (reader s) = Some n \<longrightarrow> length (rbuf s) = n)
     \<and> (\<forall>t. rprinted s = Some t \<longrightarrow> prefix t demo_text)"

lemma text_byte_NUL [simp]: "text_byte j NUL" "text_byte j ((demo_text @ [NUL]) ! j) \<or> Suc (length demo_text) \<le> j"
  by (auto simp: text_byte_def nth_append)

lemma text_mem_update: "text_mem cs \<Longrightarrow> text_byte j c \<Longrightarrow> text_mem (cs[j := c])"
  unfolding text_mem_def by (metis length_list_update nth_list_update nth_list_update_neq)

lemma text_mem_prefix: "text_mem cs \<Longrightarrow> prefix (cstr cs) demo_text"
proof -
  let ?n = "length (cstr cs)"
  assume mem: "text_mem cs"
  have at: "cstr cs ! j = cs ! j" "cs ! j \<noteq> NUL" "j < length cs" if "j < ?n" for j
  proof -
    have "prefix (cstr cs) cs" by (simp add: cstr_def takeWhile_is_prefix)
    then obtain r where r: "cs = cstr cs @ r" by (auto simp: prefix_def)
    show "cstr cs ! j = cs ! j" by (subst (2) r) (simp add: nth_append that)
    then show "cs ! j \<noteq> NUL" using that NUL_notin_cstr [of cs] by (metis nth_mem)
    show "j < length cs" using that length_cstr [of cs] by simp
  qed
  have same: "j < length demo_text \<and> cstr cs ! j = demo_text ! j" if "j < ?n" for j
    using mem at [OF that] by (auto simp: text_mem_def text_byte_def)
  have "?n \<le> length demo_text" using same [of "?n - 1"] by (cases ?n) auto
  then have "cstr cs = take ?n demo_text" using same by (intro nth_equalityI) auto
  then show "prefix (cstr cs) demo_text" by (metis take_is_prefix)
qed

text \<open>The kernel calls keep the contents of every segment.\<close>

lemma text_mem_reap: "seg_of (reap i k) j = Some g \<Longrightarrow> seg_of k j = Some g"
  by (auto simp: reap_def split: option.splits if_splits)

lemma demo_call_mem:
  assumes "demo_call sz pc k = Some (pc', k')" "\<And>i g. seg_of k i = Some g \<Longrightarrow> text_mem (cells g)" "seg_of k' i = Some g"
  shows "text_mem (cells g)"
proof -
  have zeros: "text_mem (replicate sz NUL)" by (simp add: text_mem_def)
  from assms show ?thesis
    by (auto simp: demo_call_def shmget_def shmat_def shmdt_def shm_rmid_def zeros
        split: shpc.splits option.splits if_splits prod.splits dest!: text_mem_reap)
qed

lemma demo_call_copied: "demo_call sz pc k = Some (pc', k') \<Longrightarrow> copied pc' = Some n \<Longrightarrow> copied pc = Some n"
  by (auto simp: demo_call_def split: shpc.splits prod.splits option.splits)

lemma store_at_mem:
  assumes "seg_of (store_at a cs k) i = Some g" "text_mem cs" "\<And>i g. seg_of k i = Some g \<Longrightarrow> text_mem (cells g)"
  shows "text_mem (cells g)"
  using assms by (auto simp: store_at_def split: option.splits if_splits)

lemma cells_at_mem: "cells_at a k = Some cs \<Longrightarrow> (\<And>i g. seg_of k i = Some g \<Longrightarrow> text_mem (cells g)) \<Longrightarrow> text_mem cs"
  by (auto simp: cells_at_def split: option.splits)

lemma text_mem_snoc: "text_mem bs \<Longrightarrow> text_byte (length bs) c \<Longrightarrow> text_mem (bs @ [c])"
  by (auto simp: text_mem_def nth_append less_Suc_eq)

lemma demo_inv_write:
  assumes "demo_inv rlen s" "write_shm sz s = Some t"
  shows "demo_inv rlen t"
proof (cases "\<exists>i a j. writer s = SCopy i a j")
  case True
  then obtain i a j where pc: "writer s = SCopy i a j" by blast
  have mem: "\<And>i g. seg_of (dmem s) i = Some g \<Longrightarrow> text_mem (cells g)" using assms(1) by (simp add: demo_inv_def)
  have "text_mem (cs[j := (demo_text @ [NUL]) ! j])" if "cells_at a (dmem s) = Some cs" "j < Suc (length demo_text)" for cs
  proof (rule text_mem_update)
    show "text_mem cs" by (rule cells_at_mem [OF that(1) mem])
    show "text_byte j ((demo_text @ [NUL]) ! j)" using text_byte_NUL(2) [of j] that(2) by (auto simp: text_byte_def nth_append)
  qed
  then have "t = s\<lparr>writer := writer t\<rparr> \<or>
      (\<exists>cs. text_mem cs \<and> t = s\<lparr>dmem := store_at a cs (dmem s), writer := writer t\<rparr>)"
    using assms(2) pc by (auto simp: write_shm_def split: if_splits option.splits)
  then show ?thesis
  proof (elim disjE exE conjE)
    assume "t = s\<lparr>writer := writer t\<rparr>"
    moreover have "demo_inv rlen (s\<lparr>writer := x\<rparr>)" for x using assms(1) by (simp add: demo_inv_def)
    ultimately show ?thesis by metis
  next
    fix cs
    assume cs: "text_mem cs" "t = s\<lparr>dmem := store_at a cs (dmem s), writer := writer t\<rparr>"
    have "demo_inv rlen (s\<lparr>dmem := store_at a cs (dmem s), writer := x\<rparr>)" for x
      using assms(1) store_at_mem [OF _ cs(1) mem] by (auto simp: demo_inv_def)
    with cs(2) show ?thesis by metis
  qed
next
  case False
  then have "map_option (\<lambda>(pc', k). s\<lparr>writer := pc', dmem := k\<rparr>) (demo_call sz (writer s) (dmem s)) = Some t"
    using assms(2) by (auto simp: write_shm_def split: shpc.splits)
  then obtain pc' k' where "demo_call sz (writer s) (dmem s) = Some (pc', k')" "t = s\<lparr>writer := pc', dmem := k'\<rparr>"
    by auto
  then show ?thesis using assms(1) demo_call_mem by (simp add: demo_inv_def)
qed

lemma demo_inv_read:
  assumes "demo_inv rlen s" "read_shm sz rlen s = Some t"
  shows "demo_inv rlen t"
proof (cases "\<exists>i a j. reader s = SCopy i a j")
  case True
  then obtain i a j where pc: "reader s = SCopy i a j" by blast
  have mem: "\<And>i g. seg_of (dmem s) i = Some g \<Longrightarrow> text_mem (cells g)" using assms(1) by (simp add: demo_inv_def)
  have "text_mem (rbuf s @ [cs ! j])" if "cells_at a (dmem s) = Some cs" "j < length cs" for cs
    using assms(1) cells_at_mem [OF that(1) mem] that(2) pc
    by (intro text_mem_snoc) (auto simp: demo_inv_def text_mem_def)
  moreover have "prefix (cstr (rbuf s)) demo_text"
    using assms(1) by (intro text_mem_prefix) (simp add: demo_inv_def)
  ultimately show ?thesis
    using assms pc by (auto simp: read_shm_def demo_inv_def split: if_splits option.splits)
next
  case False
  then have "map_option (\<lambda>(pc', k). s\<lparr>reader := pc', dmem := k\<rparr>) (demo_call sz (reader s) (dmem s)) = Some t"
    using assms(2) by (auto simp: read_shm_def split: shpc.splits)
  then obtain pc' k' where "demo_call sz (reader s) (dmem s) = Some (pc', k')" "t = s\<lparr>reader := pc', dmem := k'\<rparr>"
    by auto
  then show ?thesis using assms(1) demo_call_mem demo_call_copied by (simp add: demo_inv_def)
qed

definition demo_init :: "shm_demo \<Rightarrow> bool" where
  "demo_init s \<longleftrightarrow> s = demo_start"

interpretation shm_demo_system: invariant_system demo_init "demo_exec sz rlen" "demo_inv rlen" for sz rlen
proof
  show "demo_inv rlen s" if "demo_init s" for s
    using that by (simp add: demo_init_def demo_start_def demo_inv_def text_mem_def)
  show "demo_inv rlen t" if "demo_inv rlen s" "demo_exec sz rlen a s = Some t" for a s t
    using that by (cases a) (auto simp: demo_exec_def intro: demo_inv_write demo_inv_read)
qed

text \<open>Under every interleaving of the two programs, byte by byte, what the reader prints is a prefix of what the writer writes.\<close>

theorem shm_reader_prints_prefix:
  assumes "reach demo_init (lstep (demo_exec sz rlen)) s" "rprinted s = Some out"
  shows "prefix out ''hello''"
  using shm_demo_system.inv_reach [OF assms(1)] assms(2) by (simp add: demo_inv_def demo_text_def)

definition remove_first :: "demo_act list" where
  "remove_first = [Reader, Writer, Writer] @ replicate 9 Writer @ [Reader]"

text \<open>The programs can also bring one another down: when one removes the segment after the other has got its identifier
  and before it attaches, \<^verbatim>\<open>shmat\<close> fails, and the other copies through \<^verbatim>\<open>(void *)-1\<close>.\<close>

theorem shm_reader_crashes:
  assumes "6 \<le> sz"
  shows "\<exists>s. run_actions (demo_exec sz rlen) remove_first demo_start = Some s \<and> writer s = SDone \<and> reader s = SCrash"
  using assms
  by (simp add: remove_first_def numeral_eq_Suc demo_exec_def demo_start_def write_shm_def read_shm_def demo_call_def shmget_def
      shmat_def shmdt_def shm_rmid_def reap_def nattch_def cells_at_def store_at_def has_key_def demo_text_def)

subsection \<open>Instances\<close>

definition no_segments :: "'c shm" where
  "no_segments = \<lparr>seg_of = (\<lambda>_. None), next_seg = 0, attached_to = (\<lambda>_. None), next_addr = 0\<rparr>"

definition table_obj :: "sec_shm" where
  "table_obj = \<lparr>bptr = Wild, shmId = 0, maxNode = 2\<rparr>"

lemma table_obj: "SecKeyShm 7 2 no_segments = (table_obj, snd (SecKeyShm 7 2 no_segments))"
    "refers table_obj 0 (InitShm 2) (snd (SecKeyShm 7 2 no_segments))"
  by (simp_all add: SecKeyShm_def BaseShm_def getShmKeyId_def shmget_def no_segments_def table_obj_def refers_def shm_ok_def
      InitShm_def base_shm.extend_def)

theorem sec_shm_shared_map_witness:
  "\<exists>r o2 k' p' k''. sec_write table_obj key_node (snd (SecKeyShm 7 2 no_segments)) = Some (r, o2, k')
     \<and> sec_read table_obj ''alice'' ''srv'' k' = Some (key_node, p', k'')"
proof -
  have "NodeSHMInfo \<in> set (InitShm 2)" by (simp add: InitShm_def)
  then show ?thesis
    using sec_shm_shared_map [OF table_obj(2) table_obj(2) key_node_ok(3,1), of "''alice''" "''srv''"] key_node_ok(2)
    by (auto simp: Let_def)
qed

theorem sec_init_never_safe_witness:
  "\<exists>o2 k2. sec_run [SecRead ''alice'' ''srv''] (table_obj, snd (SecKeyShm 7 2 no_segments)) = Some (o2, k2) \<and> sec_init o2 k2 = None"
proof -
  have "ShmRead True ''alice'' ''srv'' (InitShm 2) = Some NodeSHMInfo"
    using shm_read_looks_up [OF key_node_ok(3), of "''alice''" "''srv''"] by (simp add: table_map_def InitShm_def numeral_2_eq_2)
  from sec_read_refers [OF table_obj(2) this] obtain o2 k2 where
    "sec_read table_obj ''alice'' ''srv'' (snd (SecKeyShm 7 2 no_segments)) = Some (NodeSHMInfo, o2, k2)" by blast
  then have run: "sec_run [SecRead ''alice'' ''srv''] (table_obj, snd (SecKeyShm 7 2 no_segments)) = Some (o2, k2)" by simp
  with sec_init_never_safe [OF table_obj(1) run] show ?thesis by blast
qed

theorem sec_too_large_drops_writes_witness:
  "\<exists>o1 o2. SecKeyShm 7 3 (snd (SecKeyShm 7 2 no_segments)) = (o1, snd (SecKeyShm 7 2 no_segments))
     \<and> sec_write o1 key_node (snd (SecKeyShm 7 2 no_segments)) = Some (0, o2, snd (SecKeyShm 7 2 no_segments))"
proof -
  let ?k = "snd (SecKeyShm 7 2 no_segments)"
  have k: "find (has_key ?k 7) [0..<next_seg ?k] = Some 0"
      "seg_of ?k 0 = Some \<lparr>skey = 7, cells = replicate 2 NodeSHMInfo, marked = False\<rparr>"
    by (simp_all add: SecKeyShm_def BaseShm_def getShmKeyId_def shmget_def no_segments_def has_key_def)
  obtain o1 k1 where "SecKeyShm 7 3 ?k = (o1, k1)" by fastforce
  with sec_too_large_drops_writes [OF k, of 3 o1 k1 key_node "[]" "[]"] show ?thesis by auto
qed

theorem missing_paths_share_witness:
  "\<exists>o1 k1 o2. BaseShm_path (\<lambda>_. -1) ''/a'' 4 NUL no_segments = (o1, k1) \<and> BaseShm_path (\<lambda>_. -1) ''/b'' 4 NUL k1 = (o2, k1)
     \<and> shmId o1 = shmId o2"
  using missing_paths_share [of "\<lambda>_. -1" "''/a''" "''/b''" no_segments 4 4 NUL] by (auto simp: no_segments_def)

definition hello_run :: "demo_act list" where
  "hello_run = replicate 9 Writer @ replicate 9 Reader"

theorem shm_reader_prints_prefix_witness:
  "\<exists>out. rprinted (the (run_actions (demo_exec 8 6) hello_run demo_start)) = Some out \<and> prefix out ''hello''"
proof -
  have out: "map_option rprinted (run_actions (demo_exec 8 6) hello_run demo_start) = Some (Some ''hello'')" by code_simp
  then obtain s where run: "run_actions (demo_exec 8 6) hello_run demo_start = Some s" "rprinted s = Some ''hello''" by auto
  have "reach demo_init (lstep (demo_exec 8 6)) s"
    by (rule reach_from_init [OF _ run(1)]) (simp add: demo_init_def)
  from shm_reader_prints_prefix [OF this run(2)] run show ?thesis by simp
qed

theorem shm_reader_crashes_witness:
  "\<exists>s. run_actions (demo_exec 4096 1024) remove_first demo_start = Some s \<and> reader s = SCrash"
  using shm_reader_crashes [of 4096 1024] by auto

end
