(* ===== verification/OpenSsl.thy ===== *)
theory OpenSsl
  imports Io Pub
begin

section \<open>The OpenSSL examples (openssl\_test)\<close>

text \<open>
  \<^verbatim>\<open>src/openssl_test/test_md5.c\<close>, \<^verbatim>\<open>aes_test.c\<close> and \<^verbatim>\<open>rsa_test.c\<close>. The functions of OpenSSL are arguments; what they are relied on for is a
  hypothesis of the theorem that needs it. Modelled is what the programs do with their buffers, which is where
  they go wrong: sizes, terminating NULs and return values. A string literal is its bytes and a NUL.
\<close>

definition overlay :: "nat \<Rightarrow> byte list \<Rightarrow> byte list \<Rightarrow> byte list" where
  "overlay k bs mem = take k mem @ bs @ drop (k + length bs) mem"

lemma length_overlay: "k + length bs \<le> length mem \<Longrightarrow> length (overlay k bs mem) = length mem"
  by (simp add: overlay_def)

subsection \<open>test\_md5.c\<close>

definition hex2 :: "byte \<Rightarrow> byte list" where
  "hex2 b = [hexdigit (uchar b div 16), hexdigit (uchar b mod 16)]"

text \<open>\<^verbatim>\<open>for (i = 0; i < 16; i++) sprintf(&res[i * 2], "%02x", md[i])\<close>; \<open>None\<close> is a write outside of \<^verbatim>\<open>res\<close>.\<close>

fun md5_hex :: "nat \<Rightarrow> byte list \<Rightarrow> byte list \<Rightarrow> byte list option" where
  "md5_hex i [] res = Some res"
| "md5_hex i (b # md) res =
     (if 2 * i + 3 \<le> length res then md5_hex (Suc i) md (overlay (2 * i) (hex2 b @ [NUL]) res) else None)"

definition md5_main :: "'c \<Rightarrow> ('c \<Rightarrow> byte list \<Rightarrow> 'c) \<Rightarrow> ('c \<Rightarrow> byte list) \<Rightarrow> byte list option" where
  "md5_main init update final = map_option cstr (md5_hex 0 (final (update init ''hello'')) (replicate 33 NUL))"

text \<open>Two digits read back.\<close>

fun unhex_all :: "byte list \<Rightarrow> byte list" where
  "unhex_all (a # b # s) = unhex a b # unhex_all s"
| "unhex_all _ = []"

lemma unhex_all_hex2: "unhex_all (concat (map hex2 md)) = md"
  by (induction md) (simp_all add: hex2_def unhex_escape)

lemma hexdigit_not_NUL [simp]: "n < 16 \<Longrightarrow> hexdigit n \<noteq> NUL"
  using isxdigit_hexdigit isxdigit_not_NUL by blast

lemma hex2_no_NUL: "NUL \<notin> set (concat (map hex2 md))"
proof -
  have "uchar b div 16 < 16" for b using uchar_less [of b] by (simp add: div_less_iff_less_mult)
  then show ?thesis by (auto simp: hex2_def dest: sym)
qed

lemma md5_hex_writes:
  assumes "length res = 2 * i + 2 * length md + 1" "res ! (2 * i + 2 * length md) = NUL"
  shows "md5_hex i md res = Some (take (2 * i) res @ concat (map hex2 md) @ [NUL])"
  using assms
proof (induction md arbitrary: i res)
  case Nil
  then show ?case using take_Suc_conv_app_nth [of "2 * i" res] by simp
next
  case (Cons b md)
  let ?res = "overlay (2 * i) (hex2 b @ [NUL]) res"
  have fits: "2 * i + 3 \<le> length res" using Cons.prems(1) by simp
  then have len: "length ?res = length res" by (simp add: length_overlay hex2_def)
  have tk: "take (2 * Suc i) ?res = take (2 * i) res @ hex2 b"
    using fits by (simp add: overlay_def hex2_def)
  have "?res ! (2 * Suc i + 2 * length md) = NUL"
    using Cons.prems by (auto simp: overlay_def hex2_def nth_append nth_Cons split: nat.split)
  with Cons.IH [of ?res "Suc i"] len Cons.prems(1) fits tk show ?case by simp
qed

text \<open>For any digest of sixteen bytes the program prints its 32 hexadecimal digits: the array of 33 bytes is never overrun, the
  printed string is terminated, and reading its digits in pairs gives the digest back, so that different
  digests print differently.\<close>

theorem md5_prints_digest:
  assumes "length (final (update init ''hello'')) = 16"
  shows "\<exists>out. md5_main init update final = Some out \<and> length out = 32 \<and> (\<forall>c \<in> set out. isxdigit c)
     \<and> unhex_all out = final (update init ''hello'')"
proof -
  let ?md = "final (update init ''hello'')"
  have "md5_hex 0 ?md (replicate 33 NUL) = Some (concat (map hex2 ?md) @ [NUL])"
    using md5_hex_writes [of "replicate 33 NUL" 0 ?md] assms by simp
  then have "md5_main init update final = Some (concat (map hex2 ?md))"
    using hex2_no_NUL [of ?md] by (simp add: md5_main_def cstr_append_NUL)
  moreover have "length (concat (map hex2 ?md)) = 32" using assms by (simp add: length_concat hex2_def sum_list_triv comp_def)
  moreover have "uchar b div 16 < 16" for b using uchar_less [of b] by (simp add: div_less_iff_less_mult)
  then have "\<forall>c \<in> set (concat (map hex2 ?md)). isxdigit c" by (auto simp: hex2_def isxdigit_hexdigit)
  ultimately show ?thesis using unhex_all_hex2 by blast
qed

subsection \<open>aes\_test.c\<close>

definition AES_BLOCK_SIZE :: nat where "AES_BLOCK_SIZE = 16"

definition aes_length :: "nat \<Rightarrow> nat" where
  "aes_length len = (if len mod 16 \<noteq> 0 then (len div 16 + 1) * 16 else len)"

text \<open>
  \<^verbatim>\<open>encrypt_decrypt\<close> for a key and a text given as string literals: what the two calls of \<^verbatim>\<open>printf\<close> print. \<open>ekey\<close>, \<open>dkey\<close>: the 128 bit key
  schedules; \<open>cbc\<close>: \<^verbatim>\<open>AES_cbc_encrypt\<close>. \<open>None\<close>: a read or write outside of an object.
\<close>

definition aes_encrypt_decrypt ::
  "(byte list \<Rightarrow> 'k) \<Rightarrow> (byte list \<Rightarrow> 'k) \<Rightarrow> (bool \<Rightarrow> byte list \<Rightarrow> 'k \<Rightarrow> byte list \<Rightarrow> byte list) \<Rightarrow>
     byte list \<Rightarrow> byte list \<Rightarrow> (byte list \<times> byte list) option" where
  "aes_encrypt_decrypt ekey dkey cbc sec str =
     (let key = sec @ [NUL]; text = str @ [NUL];
          lengtn = aes_length (length (cstr text) + 1);
          iv = replicate AES_BLOCK_SIZE (char_of (1 :: nat))
      in if length key < 16 then None
         else if length text < lengtn then None
         else if AES_BLOCK_SIZE < lengtn then None
         else let cipher = cbc True (take lengtn text) (ekey (take 16 key)) iv
              in if NUL \<notin> set cipher then None
                 else let decode = cbc False (take lengtn cipher) (dkey (take 16 key)) iv
                      in Some (cstr cipher, cstr (decode[lengtn - 1 := NUL])))"

definition aes_main ::
  "(byte list \<Rightarrow> 'k) \<Rightarrow> (byte list \<Rightarrow> 'k) \<Rightarrow> (bool \<Rightarrow> byte list \<Rightarrow> 'k \<Rightarrow> byte list \<Rightarrow> byte list) \<Rightarrow> (byte list \<times> byte list) option" where
  "aes_main ekey dkey cbc = aes_encrypt_decrypt ekey dkey cbc ''xll'' ''hello''"

text \<open>The rounded-up length reads past the text, and more than one block overruns the arrays: the function is defined for texts of exactly
  fifteen characters only, with a key of at least as many, and when the ciphertext happens to contain a NUL. Then it
  prints the text again. The program's own key and text have three and five characters.\<close>

theorem aes_defined_iff:
  assumes "NUL \<notin> set str"
    "\<And>k p iv. length p = 16 \<Longrightarrow> length (cbc True p (ekey k) iv) = 16 \<and> cbc False (cbc True p (ekey k) iv) (dkey k) iv = p"
  shows "(aes_encrypt_decrypt ekey dkey cbc sec str \<noteq> None \<longleftrightarrow>
       length str = 15 \<and> 15 \<le> length sec
       \<and> NUL \<in> set (cbc True (str @ [NUL]) (ekey (take 16 (sec @ [NUL]))) (replicate 16 (char_of (1 :: nat)))))
     \<and> (\<forall>c d. aes_encrypt_decrypt ekey dkey cbc sec str = Some (c, d) \<longrightarrow> d = str)
     \<and> aes_main ekey dkey cbc = None"
proof -
  have len: "length (cstr (str @ [NUL])) = length str" using assms(1) by (simp add: cstr_append_NUL)
  have "15 \<noteq> length str \<Longrightarrow> aes_length (length str + 1) \<le> 16 \<Longrightarrow> \<not> aes_length (length str + 1) \<le> length str + 1"
    by (auto simp: aes_length_def split: if_splits)
  then have "aes_encrypt_decrypt ekey dkey cbc sec str = None" if "length str \<noteq> 15"
    using that len by (auto simp: aes_encrypt_decrypt_def Let_def AES_BLOCK_SIZE_def)
  moreover have "aes_encrypt_decrypt ekey dkey cbc sec str =
     (if 15 \<le> length sec \<and> NUL \<in> set (cbc True (str @ [NUL]) (ekey (take 16 (sec @ [NUL]))) (replicate 16 (char_of (1 :: nat))))
      then Some (cstr (cbc True (str @ [NUL]) (ekey (take 16 (sec @ [NUL]))) (replicate 16 (char_of (1 :: nat)))), str)
      else None)" if l: "length str = 15"
  proof -
    have "aes_length 16 = 16" by (simp add: aes_length_def)
    moreover have "(str @ [NUL])[15 := NUL] = str @ [NUL]" using l by (simp add: list_update_append)
    ultimately show ?thesis
      using len l assms by (auto simp: aes_encrypt_decrypt_def Let_def AES_BLOCK_SIZE_def cstr_append_NUL)
  qed
  moreover have "aes_main ekey dkey cbc = None" by (simp add: aes_main_def aes_encrypt_decrypt_def Let_def)
  ultimately show ?thesis by (cases "length str = 15") (simp_all split: if_splits)
qed

subsection \<open>rsa\_test.c\<close>

text \<open>
  \<^verbatim>\<open>rsa_pri_pub_generate\<close>: the files it has written, and what it has allocated and not freed. The flags: the allocations of the key and of the
  number, the generation, and the two calls of \<^verbatim>\<open>fopen\<close>, which are not looked at.
\<close>

definition rsa_pri_pub_generate ::
  "bool \<Rightarrow> bool \<Rightarrow> bool \<Rightarrow> bool \<Rightarrow> bool \<Rightarrow> (string list \<times> string list) outcome" where
  "rsa_pri_pub_generate rsa big gen pub priv =
     (if \<not> rsa then Ret ([], [])
      else if \<not> big then Ret ([], [''rsa''])
      else if \<not> gen then Ret ([], [''rsa'', ''big''])
      else if \<not> pub \<or> \<not> priv then Undef
      else Ret ([''public.pem'', ''private.pem''], []))"

text \<open>
  \<^verbatim>\<open>encrypt_decrypt\<close>, the strings it prints. A key is \<open>None\<close> when its file cannot be opened; \<open>sz\<close> is \<^verbatim>\<open>RSA_size\<close>; \<open>enc\<close> and \<open>decr\<close> return a
  number and the bytes they store; \<open>junk\<close> is what \<^verbatim>\<open>malloc\<close> leaves in a block. \<^verbatim>\<open>strlen\<close> and \<^verbatim>\<open>%s\<close> of a block without a NUL read past its end. \<open>m1\<close> and \<open>m2\<close>: whether the
  two allocations succeed.
\<close>

definition rsa_cipher ::
  "('k \<Rightarrow> nat) \<Rightarrow> (byte list \<Rightarrow> 'k \<Rightarrow> int \<times> byte list) \<Rightarrow> (nat \<Rightarrow> byte list) \<Rightarrow> 'k \<Rightarrow> byte list" where
  "rsa_cipher sz enc junk pk = overlay 0 (snd (enc ''hello'' pk)) (junk (sz pk))"

definition rsa_encrypt_decrypt ::
  "('k \<Rightarrow> nat) \<Rightarrow> (byte list \<Rightarrow> 'k \<Rightarrow> int \<times> byte list) \<Rightarrow> (byte list \<Rightarrow> 'k \<Rightarrow> int \<times> byte list) \<Rightarrow> (nat \<Rightarrow> byte list) \<Rightarrow>
     bool \<Rightarrow> bool \<Rightarrow> 'k option \<Rightarrow> 'k option \<Rightarrow> byte list list outcome" where
  "rsa_encrypt_decrypt sz enc decr junk m1 m2 pub priv =
     (case pub of None \<Rightarrow> Ret [''open public.pem failed'']
      | Some pk \<Rightarrow>
     (case priv of None \<Rightarrow> Ret [''open private.pem failed'']
      | Some sk \<Rightarrow>
          if \<not> m1 then Ret [''malloc failed'']
          else if fst (enc ''hello'' pk) = 0 then Ret [''encrypt failed'']
          else
            let cipher = rsa_cipher sz enc junk pk in
            if NUL \<notin> set cipher then Undef
            else if \<not> m2 then Ret [''cipher: '' @ cstr cipher, ''malloc failed'']
            else
              let r = decr (cstr cipher) sk; decode = overlay 0 (snd r) (junk (sz sk)) in
              if fst r = 0 then Ret [''cipher: '' @ cstr cipher, ''decrypt failed'']
              else if NUL \<notin> set decode then Undef
              else Ret [''cipher: '' @ cstr cipher, ''decode: '' @ cstr decode]))"

text \<open>The program never decrypts what it has encrypted: it takes the length of the binary ciphertext with \<^verbatim>\<open>strlen\<close>. Whatever the library does, either
  the ciphertext has no NUL and is read past its end, or what is passed to the decryption is a proper initial
  part of it; and as a failure is reported as -1 and compared with 0, a failed decryption is followed by
  printing memory that was never written.\<close>

theorem rsa_never_decrypts_its_cipher:
  assumes "enc ''hello'' pk = (r, out)" "r \<noteq> 0" "length out = sz pk" "\<And>n. length (junk n) = n"
    "\<And>c. length c < sz pk \<Longrightarrow> decr c sk = (-1, [])"
  shows "rsa_encrypt_decrypt sz enc decr junk True True (Some pk) (Some sk) =
     (if NUL \<in> set out \<and> NUL \<in> set (junk (sz sk)) then Ret [''cipher: '' @ cstr out, ''decode: '' @ cstr (junk (sz sk))] else Undef)
     \<and> (NUL \<in> set out \<longrightarrow> strict_prefix (cstr (rsa_cipher sz enc junk pk)) out)"
proof -
  have cipher: "rsa_cipher sz enc junk pk = out" using assms(1,3,4) by (simp add: rsa_cipher_def overlay_def)
  have short: "length (cstr out) < length out" if "NUL \<in> set out"
    using that by (induction out) auto
  have "strict_prefix (cstr (rsa_cipher sz enc junk pk)) out" if "NUL \<in> set out"
    unfolding cipher strict_prefix_def using that by (auto simp: cstr_def takeWhile_is_prefix)
  moreover have "rsa_encrypt_decrypt sz enc decr junk True True (Some pk) (Some sk) =
     (if NUL \<in> set out \<and> NUL \<in> set (junk (sz sk)) then Ret [''cipher: '' @ cstr out, ''decode: '' @ cstr (junk (sz sk))] else Undef)"
    using assms short cipher by (auto simp: rsa_encrypt_decrypt_def Let_def overlay_def)
  ultimately show ?thesis by blast
qed

subsection \<open>Instances\<close>

theorem md5_prints_digest_witness:
  "\<exists>out. md5_main [] (@) (\<lambda>c. take 16 (c @ replicate 16 (CHR 0xAB))) = Some out \<and> length out = 32"
  using md5_prints_digest [of "\<lambda>c. take 16 (c @ replicate 16 (CHR 0xAB))" "(@)" "[]"] by auto

text \<open>A block cipher that reverses the block.\<close>

theorem aes_defined_iff_witness:
  "aes_encrypt_decrypt (\<lambda>k. k) (\<lambda>k. k) (\<lambda>e p k iv. rev p) (replicate 15 CHR ''k'') ''fifteen letters'' \<noteq> None
   \<and> aes_main (\<lambda>k. k) (\<lambda>k. k) (\<lambda>e p k iv. rev p) = None"
  using aes_defined_iff [of "''fifteen letters''" "\<lambda>e p k iv. rev p" "\<lambda>k. k" "\<lambda>k. k" "replicate 15 CHR ''k''"] by simp

theorem rsa_never_decrypts_its_cipher_witness:
  "rsa_encrypt_decrypt (\<lambda>_. 8) (\<lambda>p k. (8, ''xy'' @ [NUL] @ p)) (\<lambda>c k. if length c < 8 then (-1, []) else (5, ''hello''))
     (\<lambda>n. replicate n NUL) True True (Some ()) (Some ()) = Ret [''cipher: xy'', ''decode: '']"
  using rsa_never_decrypts_its_cipher [of "\<lambda>p k. (8, ''xy'' @ [NUL] @ p)" "()" 8 "''xy'' @ [NUL] @ ''hello''" "\<lambda>_. 8"
      "\<lambda>n. replicate n NUL" "\<lambda>c k. if length c < 8 then (-1, []) else (5, ''hello'')" "()"]
  by (simp add: cstr_def numeral_eq_Suc)

end
