(* ===== verification/AddressBook.thy ===== *)
theory AddressBook
  imports Io
begin

section \<open>The address book (protobuf\_test)\<close>

text \<open>
  \<^verbatim>\<open>src/protobuf_test/add_person.cc\<close> and \<^verbatim>\<open>list_people.cc\<close>. The code that \<^verbatim>\<open>protoc\<close> generates and the library are arguments: \<open>parse\<close> and
  \<open>ser\<close> between books and the contents of a file, of any type \<open>'f\<close>, the time stamps \<open>'t\<close> and how they are printed. Standard
  input is modelled as the C++ standard has it, with the two state bits that make later reads fail. The prompts are not
  modelled. \<^verbatim>\<open>add_person.cc\<close> lacks its last brace.
\<close>

subsection \<open>Messages\<close>

record phone =
  number :: "byte list"
  ptype :: int

record 't person =
  pname :: "byte list"
  pid :: int
  email :: "byte list"
  phones :: "phone list"
  last_updated :: "'t option"

type_synonym 't book = "'t person list"

subsection \<open>Standard input\<close>

record istream =
  inp :: "byte list"
  eofbit :: bool
  failbit :: bool

abbreviation NL :: byte where "NL \<equiv> CHR 0x0A"

definition good :: "istream \<Rightarrow> bool" where
  "good s \<longleftrightarrow> \<not> eofbit s \<and> \<not> failbit s"

definition cin_of :: "byte list \<Rightarrow> istream" where
  "cin_of bs = \<lparr>inp = bs, eofbit = False, failbit = False\<rparr>"

text \<open>\<^verbatim>\<open>getline\<close> into an empty string.\<close>

definition cin_getline :: "istream \<Rightarrow> byte list \<times> istream" where
  "cin_getline s =
     (if \<not> good s then ([], s\<lparr>failbit := True\<rparr>)
      else let l = takeWhile (\<lambda>c. c \<noteq> NL) (inp s) in
           case drop (length l) (inp s) of
             [] \<Rightarrow> (l, s\<lparr>inp := [], eofbit := True, failbit := (l = [])\<rparr>)
           | _ # r \<Rightarrow> (l, s\<lparr>inp := r\<rparr>))"

text \<open>\<^verbatim>\<open>cin.ignore(256, '\n')\<close>.\<close>

definition cin_ignore :: "nat \<Rightarrow> istream \<Rightarrow> istream" where
  "cin_ignore n s =
     (if \<not> good s then s\<lparr>failbit := True\<rparr>
      else let l = takeWhile (\<lambda>c. c \<noteq> NL) (inp s) in
           if n \<le> length l then s\<lparr>inp := drop n (inp s)\<rparr>
           else case drop (length l) (inp s) of
                  [] \<Rightarrow> s\<lparr>inp := [], eofbit := True\<rparr>
                | _ # r \<Rightarrow> s\<lparr>inp := r\<rparr>)"

definition is_white :: "byte \<Rightarrow> bool" where
  "is_white c \<longleftrightarrow> c \<in> {CHR '' '', CHR 0x09, CHR 0x0A, CHR 0x0B, CHR 0x0C, CHR 0x0D}"

text \<open>\<^verbatim>\<open>cin >> id\<close>; no value: the variable is left as it was. A number that does not fit is replaced by the nearest that does.\<close>

definition cin_int :: "istream \<Rightarrow> int option \<times> istream" where
  "cin_int s =
     (if \<not> good s then (None, s\<lparr>failbit := True\<rparr>)
      else case dropWhile is_white (inp s) of
        [] \<Rightarrow> (None, s\<lparr>inp := [], eofbit := True, failbit := True\<rparr>)
      | c # cs \<Rightarrow>
          let bs = if c = CHR ''-'' \<or> c = CHR ''+'' then cs else c # cs;
              ds = takeWhile is_digit bs;
              rest = dropWhile is_digit bs;
              v = (if c = CHR ''-'' then - int (undec ds) else int (undec ds));
              s' = s\<lparr>inp := rest, eofbit := (rest = [])\<rparr>
          in if ds = [] then (Some 0, s'\<lparr>failbit := True\<rparr>)
             else if v < - (2 ^ 31) then (Some (- (2 ^ 31)), s'\<lparr>failbit := True\<rparr>)
             else if 2 ^ 31 \<le> v then (Some (2 ^ 31 - 1), s'\<lparr>failbit := True\<rparr>)
             else (Some v, s'))"

subsection \<open>Adding a person\<close>

definition phone_type :: "byte list \<Rightarrow> int" where
  "phone_type t = (if t = ''mobile'' then 0 else if t = ''home'' then 1 else if t = ''work'' then 2 else 0)"

lemma cin_getline_shrinks: "length (inp (snd (cin_getline s))) \<le> length (inp s)"
  using length_takeWhile_le [of "\<lambda>c. c \<noteq> NL" "inp s"]
  by (auto simp: cin_getline_def Let_def split: list.split dest!: arg_cong [of _ _ length])

lemma cin_getline_takes: "fst (cin_getline s) \<noteq> [] \<Longrightarrow> length (inp (snd (cin_getline s))) < length (inp s)"
  by (cases "inp s") (auto simp: cin_getline_def Let_def split: list.split dest!: arg_cong [of _ _ length] split: if_splits)

text \<open>The loop that reads telephone numbers.\<close>

function prompt_phones :: "istream \<Rightarrow> phone list \<times> istream" where
  "prompt_phones s =
     (if fst (cin_getline s) = [] then ([], snd (cin_getline s))
      else let t = cin_getline (snd (cin_getline s));
               r = prompt_phones (snd t)
           in (\<lparr>number = fst (cin_getline s), ptype = phone_type (fst t)\<rparr> # fst r, snd r))"
  by auto

termination
proof (relation "measure (\<lambda>s. length (inp s))")
  show "(snd t, s) \<in> measure (\<lambda>s. length (inp s))" if "fst (cin_getline s) \<noteq> []" "t = cin_getline (snd (cin_getline s))" for s t
    using cin_getline_takes [OF that(1)] cin_getline_shrinks [of "snd (cin_getline s)"] that(2) by simp
qed simp

declare prompt_phones.simps [simp del]

definition PromptForAddress :: "'t \<Rightarrow> istream \<Rightarrow> ('t person \<times> istream) outcome" where
  "PromptForAddress now s =
     (case cin_int s of
        (None, _) \<Rightarrow> Undef
      | (Some i, s1) \<Rightarrow>
          let (name, s3) = cin_getline (cin_ignore 256 s1);
              (mail, s4) = cin_getline s3;
              (ps, s5) = prompt_phones s4
          in Ret (\<lparr>pname = name, pid = i, email = mail, phones = ps, last_updated = Some now\<rparr>, s5))"

text \<open>
  The file: absent or with its contents, and whether it can be opened for reading (\<open>rd\<close>). Writing: it cannot be opened, all is
  written, or writing fails and leaves something; \<open>True\<close>: before \<^verbatim>\<open>SerializeToOstream\<close> returns, \<open>False\<close>: when the file is closed.
\<close>

datatype 'f writing = CannotOpen | Written | WriteFails bool 'f

definition add_main ::
  "('f \<Rightarrow> 't book option) \<Rightarrow> ('t book \<Rightarrow> 'f) \<Rightarrow> 't \<Rightarrow> nat \<Rightarrow> bool \<Rightarrow> 'f writing \<Rightarrow> istream \<Rightarrow> 'f option \<Rightarrow> int outcome \<times> 'f option" where
  "add_main parse ser now argc rd wr cin file =
     (if argc \<noteq> 2 then (Ret (-1), file)
      else case (case file of Some c \<Rightarrow> if rd then parse c else Some [] | None \<Rightarrow> Some []) of
        None \<Rightarrow> (Ret (-1), file)
      | Some b \<Rightarrow>
          (case PromptForAddress now cin of
             Ret (p, _) \<Rightarrow>
               (case wr of
                  CannotOpen \<Rightarrow> (Ret (-1), file)
                | Written \<Rightarrow> (Ret 0, Some (ser (b @ [p])))
                | WriteFails seen f \<Rightarrow> (Ret (if seen then -1 else 0), Some f))
           | _ \<Rightarrow> (Undef, file)))"

subsection \<open>Listing\<close>

definition phone_line :: "phone \<Rightarrow> byte list" where
  "phone_line ph =
     (if ptype ph = 0 then ''  Mobile phone #: '' else if ptype ph = 1 then ''  Home phone #: ''
      else if ptype ph = 2 then ''  Work phone #: '' else ''  Unknown phone #: '') @ number ph @ [NL]"

fun ListPeople :: "('t \<Rightarrow> byte list) \<Rightarrow> 't book \<Rightarrow> byte list" where
  "ListPeople ts [] = []"
| "ListPeople ts (p # b) =
     ''Person ID: '' @ show_int (pid p) @ [NL] @ ''  Name: '' @ pname p @ [NL]
     @ (if email p \<noteq> [] then ''  E-mail address: '' @ email p @ [NL] else [])
     @ concat (map phone_line (phones p))
     @ (case last_updated p of Some t \<Rightarrow> ''  Updated: '' @ ts t @ [NL] | None \<Rightarrow> [])
     @ ListPeople ts b"

definition list_main ::
  "('f \<Rightarrow> 't book option) \<Rightarrow> ('t \<Rightarrow> byte list) \<Rightarrow> nat \<Rightarrow> bool \<Rightarrow> 'f option \<Rightarrow> int \<times> byte list" where
  "list_main parse ts argc rd file =
     (if argc \<noteq> 2 then (-1, [])
      else case (case file of Some c \<Rightarrow> if rd then parse c else None | None \<Rightarrow> None) of
        None \<Rightarrow> (-1, [])
      | Some b \<Rightarrow> (0, ListPeople ts b))"

subsection \<open>What is typed is read\<close>

fun type_name :: "int \<Rightarrow> byte list" where
  "type_name v = (if v = 1 then ''home'' else if v = 2 then ''work'' else ''mobile'')"

definition typed_phone :: "phone \<Rightarrow> byte list" where
  "typed_phone ph = number ph @ [NL] @ type_name (ptype ph) @ [NL]"

text \<open>The lines somebody types for a person, the last one blank.\<close>

definition typed :: "'t person \<Rightarrow> byte list" where
  "typed p = show_int (pid p) @ [NL] @ pname p @ [NL] @ email p @ [NL] @ concat (map typed_phone (phones p)) @ [NL]"

definition typable_phone :: "phone \<Rightarrow> bool" where
  "typable_phone ph \<longleftrightarrow> number ph \<noteq> [] \<and> NL \<notin> set (number ph) \<and> ptype ph \<in> {0, 1, 2}"

definition typable :: "'t person \<Rightarrow> bool" where
  "typable p \<longleftrightarrow> - (2 ^ 31) \<le> pid p \<and> pid p < 2 ^ 31 \<and> NL \<notin> set (pname p) \<and> NL \<notin> set (email p) \<and> list_all typable_phone (phones p)"

definition stamp :: "'t \<Rightarrow> 't person \<Rightarrow> 't person" where
  "stamp now p = p\<lparr>last_updated := Some now\<rparr>"

lemma stamp_simps [simp]: "pname (stamp now p) = pname p" "email (stamp now p) = email p" "phones (stamp now p) = phones p"
  by (simp_all add: stamp_def)

lemma cin_getline_line [simp]: "NL \<notin> set l \<Longrightarrow> cin_getline (cin_of (l @ NL # r)) = (l, cin_of r)"
proof -
  assume "NL \<notin> set l"
  then have "takeWhile (\<lambda>c. c \<noteq> NL) (l @ NL # r) = l" by (subst takeWhile_append2) auto
  then show ?thesis by (simp add: cin_getline_def cin_of_def good_def)
qed

lemma cin_getline_blank [simp]: "cin_getline (cin_of (NL # r)) = ([], cin_of r)"
  using cin_getline_line [of "[]"] by simp

lemma cin_ignore_line [simp]: "cin_ignore 256 (cin_of (NL # r)) = cin_of r"
  by (simp add: cin_ignore_def cin_of_def good_def)

lemma digit_not_white: "is_digit c \<Longrightarrow> \<not> is_white c \<and> c \<noteq> CHR ''-'' \<and> c \<noteq> CHR ''+'' \<and> c \<noteq> NL"
  by (auto simp: is_digit_def is_white_def)

lemma takeWhile_digits: "list_all is_digit ds \<Longrightarrow> takeWhile is_digit (ds @ NL # r) = ds \<and> dropWhile is_digit (ds @ NL # r) = NL # r"
  by (induction ds) (auto simp: is_digit_def)

lemma cin_int_digits:
  assumes "list_all is_digit ds" "ds \<noteq> []" "undec ds < 2 ^ 31"
  shows "cin_int (cin_of (ds @ NL # r)) = (Some (int (undec ds)), cin_of (NL # r))"
proof -
  obtain c cs where ds: "ds = c # cs" using assms(2) by (cases ds) auto
  with assms(1) have c: "\<not> is_white c" "c \<noteq> CHR ''-''" "c \<noteq> CHR ''+''" using digit_not_white by auto
  then have "dropWhile is_white (ds @ NL # r) = ds @ NL # r" using ds by simp
  with c assms takeWhile_digits [OF assms(1), of r] ds show ?thesis
    by (simp add: cin_int_def cin_of_def good_def Let_def)
qed

lemma cin_int_minus:
  assumes "list_all is_digit ds" "ds \<noteq> []" "undec ds \<le> 2 ^ 31"
  shows "cin_int (cin_of (CHR ''-'' # ds @ NL # r)) = (Some (- int (undec ds)), cin_of (NL # r))"
  using assms takeWhile_digits [OF assms(1), of r]
  by (simp add: cin_int_def cin_of_def good_def Let_def is_white_def)

lemma cin_int_show:
  assumes "- (2 ^ 31) \<le> i" "i < 2 ^ 31"
  shows "cin_int (cin_of (show_int i @ NL # r)) = (Some i, cin_of (NL # r))"
proof -
  have "list_all is_digit (dec n)" for n by (simp add: list_all_iff dec_digits)
  then show ?thesis
    using assms cin_int_minus [of "dec (nat (- i))" r] cin_int_digits [of "dec (nat i)" r] by (simp add: show_int_def)
qed

lemma phone_type_name: "v \<in> {0, 1, 2} \<Longrightarrow> phone_type (type_name v) = v"
  by (auto simp: phone_type_def)

lemma type_name_line: "NL \<notin> set (type_name v)"
  by simp

lemma typed_phone_append: "typed_phone ph @ r = number ph @ NL # type_name (ptype ph) @ NL # r"
  by (simp add: typed_phone_def)

lemma prompt_phones_typed:
  "list_all typable_phone phs \<Longrightarrow> prompt_phones (cin_of (concat (map typed_phone phs) @ NL # r)) = (phs, cin_of r)"
proof (induction phs)
  case Nil
  show ?case by (subst prompt_phones.simps) simp
next
  case (Cons ph phs)
  have ph: "number ph \<noteq> []" "NL \<notin> set (number ph)" "ptype ph \<in> {0, 1, 2}"
    using Cons.prems by (auto simp: typable_phone_def)
  show ?case
    using Cons ph phone_type_name [OF ph(3)] type_name_line [of "ptype ph"]
    by (subst prompt_phones.simps) (simp add: typed_phone_append Let_def del: type_name.simps)
qed

lemma PromptForAddress_typed:
  assumes "typable p"
  shows "PromptForAddress now (cin_of (typed p @ r)) = Ret (stamp now p, cin_of r)"
  using assms cin_int_show prompt_phones_typed [of "phones p"]
  by (simp add: typable_def PromptForAddress_def typed_def stamp_def)

lemma ListPeople_append: "ListPeople ts (b @ c) = ListPeople ts b @ ListPeople ts c"
  by (induction b) simp_all

subsection \<open>Properties\<close>

text \<open>
  What is relied on of protobuf. In proto3 a string must be UTF-8 (\<open>u8\<close>): such a book is read back as it was written, any other one is
  written too but refused when it is read (\<^verbatim>\<open>VerifyUtf8String\<close> in \<^verbatim>\<open>addressbook.pb.cc\<close>).
\<close>

definition person_utf8 :: "(byte list \<Rightarrow> bool) \<Rightarrow> 't person \<Rightarrow> bool" where
  "person_utf8 u8 p \<longleftrightarrow> u8 (pname p) \<and> u8 (email p) \<and> list_all (\<lambda>ph. u8 (number ph)) (phones p)"

lemma person_utf8_stamp [simp]: "person_utf8 u8 (stamp now p) = person_utf8 u8 p"
  by (simp add: person_utf8_def)

definition protobuf :: "(byte list \<Rightarrow> bool) \<Rightarrow> ('f \<Rightarrow> 't book option) \<Rightarrow> ('t book \<Rightarrow> 'f) \<Rightarrow> bool" where
  "protobuf u8 parse ser \<longleftrightarrow> (\<forall>b. parse (ser b) = (if list_all (person_utf8 u8) b then Some b else None))"

text \<open>Running \<^verbatim>\<open>add_person\<close> for one person after another, each with the lines typed for it.\<close>

fun add_all ::
  "('f \<Rightarrow> 't book option) \<Rightarrow> ('t book \<Rightarrow> 'f) \<Rightarrow> 't \<Rightarrow> 't person list \<Rightarrow> 'f option \<Rightarrow> 'f option" where
  "add_all parse ser now [] file = file"
| "add_all parse ser now (p # ps) file =
     add_all parse ser now ps (snd (add_main parse ser now 2 True Written (cin_of (typed p)) file))"

lemma add_main_typed:
  assumes "protobuf u8 parse ser" "list_all (person_utf8 u8) b" "typable p"
  shows "add_main parse ser now 2 True Written (cin_of (typed p @ r)) (Some (ser b)) = (Ret 0, Some (ser (b @ [stamp now p])))"
  using assms PromptForAddress_typed [OF assms(3), of now r] by (simp add: add_main_def protobuf_def)

lemma add_all_typed:
  assumes "protobuf u8 parse ser"
  shows "list_all (person_utf8 u8) b \<Longrightarrow> list_all (person_utf8 u8) ps \<Longrightarrow> list_all typable ps \<Longrightarrow>
    add_all parse ser now ps (Some (ser b)) = Some (ser (b @ map (stamp now) ps))"
proof (induction ps arbitrary: b)
  case (Cons p ps)
  from Cons add_main_typed [OF assms Cons.prems(1), of p now "[]"] show ?case by simp
qed simp

text \<open>C31: The two programs keep a list: when people are added to a book one run after the other, typed as the prompts ask, the file holds the book with these
  people appended in order, and \<^verbatim>\<open>list_people\<close> prints what it printed before and then each of them.\<close>

theorem address_book_lists_what_was_added:
  assumes "protobuf u8 parse ser" "list_all (person_utf8 u8) b" "list_all (person_utf8 u8) ps" "list_all typable ps"
  shows "list_main parse ts 2 True (add_all parse ser now ps (Some (ser b))) =
     (0, snd (list_main parse ts 2 True (Some (ser b))) @ ListPeople ts (map (stamp now) ps))"
proof -
  have "list_all (person_utf8 u8) (b @ map (stamp now) ps)"
    using assms(2,3) by (auto simp: list_all_iff)
  with assms(1,2) show ?thesis
    unfolding add_all_typed [OF assms] by (simp add: list_main_def protobuf_def ListPeople_append)
qed

text \<open>Whatever is typed, when the file can be read or does not exist \<^verbatim>\<open>add_person\<close> leaves it as it is or appends one person, unless writing fails; a
  book that cannot be parsed is left as it is. But a file that exists and cannot be opened for reading is taken for a missing one
  and replaced by a book with the new person only.\<close>

theorem add_person_outcomes:
  assumes "wr = CannotOpen \<or> wr = Written" "add_main parse ser now 2 rd wr cin file = (Ret r, file')"
  shows "(rd \<and> file = Some c \<and> parse c = Some b \<longrightarrow> file' = file \<and> r = -1 \<or> (\<exists>p. file' = Some (ser (b @ [p])) \<and> r = 0))
    \<and> (rd \<and> file = Some c \<and> parse c = None \<longrightarrow> file' = file \<and> r = -1)
    \<and> (\<not> rd \<or> file = None \<longrightarrow> file' = file \<and> r = -1 \<or> (\<exists>p. file' = Some (ser [p]) \<and> r = 0))"
  using assms by (auto simp: add_main_def split: option.splits if_splits outcome.splits writing.splits)

text \<open>C32: A name that is not UTF-8 makes the book unusable: \<^verbatim>\<open>add_person\<close> reports success, and from then on both programs refuse the file, whatever is
  typed.\<close>

theorem invalid_name_bricks_book:
  fixes p :: "'t person" and now now' :: 't
  assumes "protobuf u8 parse ser" "list_all (person_utf8 u8) b" "typable p" "\<not> u8 (pname p)"
  shows "\<exists>c. add_main parse ser now 2 True Written (cin_of (typed p)) (Some (ser b)) = (Ret 0, Some c)
     \<and> list_main parse ts 2 True (Some c) = (-1, [])
     \<and> add_main parse ser now' 2 True wr cin (Some c) = (Ret (-1), Some c)"
proof -
  have "parse (ser (b @ [stamp now p])) = None"
    using assms(1,4) by (simp add: protobuf_def person_utf8_def)
  then show ?thesis
    using add_main_typed [OF assms(1-3), of now "[]"] by (simp add: list_main_def add_main_def)
qed

text \<open>The number: with no input at all the program stores a variable that was never set; a first line that is no number makes every later read
  fail, and the person is empty; of a first line that is too long the rest becomes the name.\<close>

theorem add_person_odd_input:
  "PromptForAddress now (cin_of []) = Undef"
  "PromptForAddress now (cin_of (''abc'' @ NL # rest)) =
     Ret (\<lparr>pname = [], pid = 0, email = [], phones = [], last_updated = Some now\<rparr>, \<lparr>inp = ''abc'' @ NL # rest, eofbit = False, failbit = True\<rparr>)"
  "length s = 256 \<Longrightarrow> NL \<notin> set s \<Longrightarrow> NL \<notin> set name \<Longrightarrow> NL \<notin> set mail \<Longrightarrow>
     PromptForAddress now (cin_of (''7 '' @ tl s @ name @ NL # mail @ NL # NL # r)) =
     Ret (\<lparr>pname = name, pid = 7, email = mail, phones = [], last_updated = Some now\<rparr>, cin_of r)"
proof -
  show "PromptForAddress now (cin_of []) = Undef"
    by (simp add: PromptForAddress_def cin_int_def cin_of_def good_def)
  have "cin_int (cin_of (''abc'' @ NL # rest)) = (Some 0, \<lparr>inp = ''abc'' @ NL # rest, eofbit = False, failbit = True\<rparr>)"
    by (simp add: cin_int_def cin_of_def good_def is_white_def is_digit_def)
  moreover have "prompt_phones \<lparr>inp = i, eofbit = e, failbit = True\<rparr> = ([], \<lparr>inp = i, eofbit = e, failbit = True\<rparr>)" for i e
    by (subst prompt_phones.simps) (simp add: cin_getline_def good_def)
  ultimately show "PromptForAddress now (cin_of (''abc'' @ NL # rest)) =
     Ret (\<lparr>pname = [], pid = 0, email = [], phones = [], last_updated = Some now\<rparr>, \<lparr>inp = ''abc'' @ NL # rest, eofbit = False, failbit = True\<rparr>)"
    by (simp add: PromptForAddress_def cin_ignore_def cin_getline_def good_def)
  assume s: "length s = 256" "NL \<notin> set s" "NL \<notin> set name" "NL \<notin> set mail"
  have "cin_int (cin_of (''7 '' @ tl s @ name @ NL # mail @ NL # NL # r)) = (Some 7, cin_of ('' '' @ tl s @ name @ NL # mail @ NL # NL # r))"
    by (simp add: cin_int_def cin_of_def good_def is_white_def is_digit_def undec_def digit_val_def)
  moreover have "cin_ignore 256 (cin_of ('' '' @ tl s @ name @ NL # mail @ NL # NL # r)) = cin_of (name @ NL # mail @ NL # NL # r)"
  proof -
    have "NL \<notin> set (CHR '' '' # tl s @ name)" using s by (auto dest: list.set_sel(2) [rotated])
    then have "takeWhile (\<lambda>c. c \<noteq> NL) ((CHR '' '' # tl s @ name) @ NL # mail @ NL # NL # r) = CHR '' '' # tl s @ name"
      by (subst takeWhile_append2) auto
    then show ?thesis using s(1) by (simp add: cin_ignore_def cin_of_def good_def)
  qed
  moreover have "prompt_phones (cin_of (NL # r)) = ([], cin_of r)" by (subst prompt_phones.simps) simp
  ultimately show "PromptForAddress now (cin_of (''7 '' @ tl s @ name @ NL # mail @ NL # NL # r)) =
     Ret (\<lparr>pname = name, pid = 7, email = mail, phones = [], last_updated = Some now\<rparr>, cin_of r)"
    using s by (simp add: PromptForAddress_def)
qed

subsection \<open>Instances\<close>

text \<open>A file that holds the book itself, and ASCII for UTF-8.\<close>

definition ascii :: "byte list \<Rightarrow> bool" where
  "ascii = list_all (\<lambda>c. of_char c < (128 :: nat))"

definition parse_id :: "unit book \<Rightarrow> unit book option" where
  "parse_id b = (if list_all (person_utf8 ascii) b then Some b else None)"

lemma protobuf_id: "protobuf ascii parse_id (\<lambda>b. b)"
  by (simp add: protobuf_def parse_id_def)

definition ann :: "unit person" where
  "ann = \<lparr>pname = ''Ann'', pid = -7, email = ''a@b'', phones = [\<lparr>number = ''123'', ptype = 2\<rparr>], last_updated = None\<rparr>"

lemma ann_ok: "person_utf8 ascii ann" "typable ann"
  by (simp_all add: ann_def person_utf8_def ascii_def typable_def typable_phone_def)

theorem address_book_lists_what_was_added_witness:
  "list_main parse_id (\<lambda>_. ''now'') 2 True (add_all parse_id (\<lambda>b. b) () [ann] (Some []))
     = (0, ListPeople (\<lambda>_. ''now'') [ann\<lparr>last_updated := Some ()\<rparr>])"
  using address_book_lists_what_was_added [OF protobuf_id, of "[]" "[ann]" "\<lambda>_. ''now''" "()"] ann_ok
  by (simp add: list_main_def parse_id_def stamp_def)

theorem add_person_outcomes_witness:
  "\<exists>p. snd (add_main parse_id (\<lambda>b. b) () 2 False Written (cin_of (typed ann)) (Some [ann, ann])) = Some [p]"
proof -
  have "add_main parse_id (\<lambda>b. b) () 2 False Written (cin_of (typed ann)) (Some [ann, ann]) = (Ret 0, Some [stamp () ann])"
    using PromptForAddress_typed [OF ann_ok(2), of "()" "[]"] by (simp add: add_main_def)
  from add_person_outcomes [OF _ this] this show ?thesis by auto
qed

theorem invalid_name_bricks_book_witness:
  "\<exists>c. snd (add_main parse_id (\<lambda>b. b) () 2 True Written (cin_of (typed (ann\<lparr>pname := [CHR 0xFF]\<rparr>))) (Some [ann])) = Some c
     \<and> list_main parse_id (\<lambda>_. ''now'') 2 True (Some c) = (-1, [])"
proof -
  have "typable (ann\<lparr>pname := [CHR 0xFF]\<rparr>)" "\<not> ascii (pname (ann\<lparr>pname := [CHR 0xFF]\<rparr>))"
    by (simp_all add: ann_def typable_def typable_phone_def ascii_def)
  from invalid_name_bricks_book [OF protobuf_id _ this, of "[ann]" "()" "\<lambda>_. ''now''" "()" Written "cin_of []"] ann_ok(1)
  show ?thesis by fastforce
qed

end
