(* ===== verification/ProcTable.thy ===== *)
theory ProcTable
  imports Processes Transition
begin

section \<open>A table of processes\<close>

text \<open>
  What the programs of \<open>ProcDemos\<close> ask of the kernel: processes that fork, end, are sent signals and change their session. A program is a
  function from its places to the system call it makes there (\<open>syscall\<close>), with the place after the call for each result.
  A process that has ended stays in the table as a zombie until its parent fetches its status; init and
  the shell that started the first process are outside of the table and do so (\<open>Reap\<close>), and no
  program modelled here does. The newest process is at the head of the list. Every result a \<^verbatim>\<open>fork\<close> may have is a choice of the action.
\<close>

datatype pline = Line "byte list" "int list"     \<comment> \<open>the format and the numbers printed\<close>

datatype 'pc syscall =
    Printf pline 'pc
  | Sleep 'pc
  | Fork "int \<Rightarrow> 'pc"
  | Getpid "nat \<Rightarrow> 'pc"
  | Getppid "nat \<Rightarrow> 'pc"
  | Getpgid "nat \<Rightarrow> 'pc"
  | Getsid "nat \<Rightarrow> 'pc"
  | Setsid "int \<Rightarrow> 'pc"
  | Kill nat nat 'pc
  | ExitP int

datatype 'pc pstat = Run 'pc | Zombie child_end

record 'pc proc =
  pid :: nat
  ppid :: nat
  pgrp :: nat
  psid :: nat
  stat :: "'pc pstat"

record 'pc os =
  shell :: nat
  procs :: "'pc proc list"
  out :: "(nat \<times> pline) list"

fun running :: "'pc proc \<Rightarrow> bool" where
  "running x \<longleftrightarrow> (case stat x of Run _ \<Rightarrow> True | Zombie _ \<Rightarrow> False)"

declare running.simps [simp del]

definition on_proc :: "nat \<Rightarrow> ('pc proc \<Rightarrow> 'pc proc) \<Rightarrow> 'pc os \<Rightarrow> 'pc os" where
  "on_proc p f s = s\<lparr>procs := map (\<lambda>x. if pid x = p then f x else x) (procs s)\<rparr>"

definition set_pc :: "nat \<Rightarrow> 'pc \<Rightarrow> 'pc os \<Rightarrow> 'pc os" where
  "set_pc p pc = on_proc p (\<lambda>x. x\<lparr>stat := Run pc\<rparr>)"

text \<open>The children of a process that ends are handed to init.\<close>

definition ended :: "nat \<Rightarrow> child_end \<Rightarrow> 'pc proc \<Rightarrow> 'pc proc" where
  "ended p e x = (if pid x = p then x\<lparr>stat := Zombie e\<rparr> else if ppid x = p then x\<lparr>ppid := 1\<rparr> else x)"

definition end_proc :: "nat \<Rightarrow> child_end \<Rightarrow> 'pc os \<Rightarrow> 'pc os" where
  "end_proc p e s = s\<lparr>procs := map (ended p e) (procs s)\<rparr>"

definition fresh :: "nat \<Rightarrow> 'pc os \<Rightarrow> bool" where
  "fresh q s \<longleftrightarrow> q \<notin> {0, 1, shell s} \<and> list_all (\<lambda>x. q \<notin> {pid x, pgrp x, psid x}) (procs s)"

definition find_proc :: "nat \<Rightarrow> 'pc os \<Rightarrow> 'pc proc option" where
  "find_proc p s = find (\<lambda>x. pid x = p) (procs s)"

definition do_fork :: "'pc proc \<Rightarrow> (int \<Rightarrow> 'pc) \<Rightarrow> nat option \<Rightarrow> 'pc os \<Rightarrow> 'pc os option" where
  "do_fork x k c s =
     (case c of
        None \<Rightarrow> Some (set_pc (pid x) (k (-1)) s)
      | Some q \<Rightarrow>
          if fresh q s
          then (let s' = set_pc (pid x) (k (int q)) s
                in Some (s'\<lparr>procs := x\<lparr>pid := q, ppid := pid x, stat := Run (k 0)\<rparr> # procs s'\<rparr>))
          else None)"

text \<open>A leader of a process group cannot start a session.\<close>

definition do_setsid :: "'pc proc \<Rightarrow> (int \<Rightarrow> 'pc) \<Rightarrow> 'pc os \<Rightarrow> 'pc os" where
  "do_setsid x k s =
     (if list_ex (\<lambda>y. pgrp y = pid x) (procs s) then set_pc (pid x) (k (-1)) s
      else on_proc (pid x) (\<lambda>y. y\<lparr>pgrp := pid x, psid := pid x, stat := Run (k (int (pid x)))\<rparr>) s)"

definition do_kill :: "nat \<Rightarrow> nat \<Rightarrow> 'pc os \<Rightarrow> 'pc os" where
  "do_kill q sig s =
     (case find_proc q s of None \<Rightarrow> s | Some y \<Rightarrow> if running y then end_proc q (ChildKilled sig) s else s)"

definition syscall_step :: "'pc proc \<Rightarrow> 'pc syscall \<Rightarrow> nat option \<Rightarrow> 'pc os \<Rightarrow> 'pc os option" where
  "syscall_step x call c s =
     (case call of
        Printf l pc \<Rightarrow> Some (set_pc (pid x) pc (s\<lparr>out := out s @ [(pid x, l)]\<rparr>))
      | Sleep pc \<Rightarrow> Some (set_pc (pid x) pc s)
      | Fork k \<Rightarrow> do_fork x k c s
      | Getpid k \<Rightarrow> Some (set_pc (pid x) (k (pid x)) s)
      | Getppid k \<Rightarrow> Some (set_pc (pid x) (k (ppid x)) s)
      | Getpgid k \<Rightarrow> Some (set_pc (pid x) (k (pgrp x)) s)
      | Getsid k \<Rightarrow> Some (set_pc (pid x) (k (psid x)) s)
      | Setsid k \<Rightarrow> Some (do_setsid x k s)
      | Kill q sig pc \<Rightarrow> Some (do_kill q sig (set_pc (pid x) pc s))
      | ExitP e \<Rightarrow> Some (end_proc (pid x) (ChildExits e) s))"

datatype os_act = Step nat "nat option" | Reap nat

definition os_exec :: "('pc \<Rightarrow> 'pc syscall) \<Rightarrow> os_act \<Rightarrow> 'pc os \<Rightarrow> 'pc os option" where
  "os_exec prog a s =
     (case a of
        Step p c \<Rightarrow>
          (case find_proc p s of
             None \<Rightarrow> None
           | Some x \<Rightarrow> (case stat x of Zombie e \<Rightarrow> None | Run pc \<Rightarrow> syscall_step x (prog pc) c s))
      | Reap q \<Rightarrow>
          (case find_proc q s of
             None \<Rightarrow> None
           | Some x \<Rightarrow>
               if \<not> running x \<and> ppid x \<in> {1, shell s}
               then Some (s\<lparr>procs := filter (\<lambda>y. pid y \<noteq> q) (procs s)\<rparr>) else None))"

text \<open>A program is started by the shell \<open>sh\<close> as process \<open>p\<close>, in the group \<open>g\<close> of the session \<open>ss\<close>.\<close>

definition os_start :: "nat \<Rightarrow> nat \<Rightarrow> nat \<Rightarrow> nat \<Rightarrow> 'pc \<Rightarrow> 'pc os" where
  "os_start sh p g ss pc = \<lparr>shell = sh, procs = [\<lparr>pid = p, ppid = sh, pgrp = g, psid = ss, stat = Run pc\<rparr>], out = []\<rparr>"

definition os_init :: "'pc \<Rightarrow> 'pc os \<Rightarrow> bool" where
  "os_init pc s \<longleftrightarrow> (\<exists>sh p g ss. p \<notin> {0, 1, sh} \<and> s = os_start sh p g ss pc)"

subsection \<open>The table is well formed\<close>

text \<open>Each process has its own number, and a parent that runs and is older, or is init or the shell. A process group is in one session.\<close>

definition parent_in :: "'pc proc list \<Rightarrow> 'pc proc \<Rightarrow> bool" where
  "parent_in xs x \<longleftrightarrow> (\<exists>y \<in> set xs. pid y = ppid x \<and> running y)"

fun family :: "nat \<Rightarrow> 'pc proc list \<Rightarrow> bool" where
  "family sh [] \<longleftrightarrow> True"
| "family sh (x # xs) \<longleftrightarrow>
     family sh xs \<and> pid x \<notin> {0, 1, sh} \<and> pid x \<notin> pid ` set xs \<and> (ppid x \<in> {1, sh} \<or> parent_in xs x)"

definition one_session :: "'pc proc list \<Rightarrow> bool" where
  "one_session xs \<longleftrightarrow> (\<exists>session. \<forall>x \<in> set xs. psid x = session (pgrp x))"

definition table_ok :: "'pc os \<Rightarrow> bool" where
  "table_ok s \<longleftrightarrow> family (shell s) (procs s) \<and> one_session (procs s)"

lemma running_simps [simp]:
  "running (x\<lparr>stat := Run pc\<rparr>)" "\<not> running (x\<lparr>stat := Zombie e\<rparr>)" "running (x\<lparr>pid := a\<rparr>) = running x"
  "running (x\<lparr>ppid := a\<rparr>) = running x" "running (x\<lparr>pgrp := a\<rparr>) = running x" "running (x\<lparr>psid := a\<rparr>) = running x"
  by (simp_all add: running.simps)

lemma running_Run: "stat x = Run pc \<Longrightarrow> running x"
  by (simp add: running.simps)

lemma ended_simps [simp]:
  "pid (ended p e x) = pid x" "pgrp (ended p e x) = pgrp x" "psid (ended p e x) = psid x"
  "ppid (ended p e x) = (if pid x \<noteq> p \<and> ppid x = p then 1 else ppid x)" "running (ended p e x) \<longleftrightarrow> running x \<and> pid x \<noteq> p"
  by (simp_all add: ended_def)

lemma parent_in_map:
  assumes "parent_in xs x" "\<And>y. y \<in> set xs \<Longrightarrow> pid y = ppid x \<Longrightarrow> running y \<Longrightarrow> pid (f y) = pid y \<and> running (f y)" "ppid z = ppid x"
  shows "parent_in (map f xs) z"
proof -
  obtain y where "y \<in> set xs" "pid y = ppid x" "running y" using assms(1) by (auto simp: parent_in_def)
  with assms(2) [of y] assms(3) show ?thesis unfolding parent_in_def by (intro bexI [of _ "f y"]) simp_all
qed

text \<open>An update that keeps who a process is and whether it runs.\<close>

lemma family_map:
  assumes "family sh xs" "\<And>x. pid (f x) = pid x" "\<And>x. ppid (f x) = ppid x" "\<And>x. running x \<Longrightarrow> running (f x)"
  shows "family sh (map f xs)"
  using assms(1)
proof (induction xs)
  case (Cons x xs)
  have "pid ` set (map f xs) = pid ` set xs" by (simp add: image_image assms(2))
  moreover have "parent_in xs x \<Longrightarrow> parent_in (map f xs) (f x)" by (erule parent_in_map) (simp_all add: assms)
  ultimately show ?case using Cons by (auto simp: assms(2,3))
qed simp

lemma family_ended: "family sh xs \<Longrightarrow> family sh (map (ended p e) xs)"
proof (induction xs)
  case (Cons x xs)
  have "pid ` set (map (ended p e) xs) = pid ` set xs" by (simp add: image_image)
  moreover have "parent_in xs x \<Longrightarrow> ppid x \<noteq> p \<Longrightarrow> parent_in (map (ended p e) xs) (ended p e x)"
    by (erule parent_in_map) simp_all
  moreover have "parent_in xs x \<Longrightarrow> ppid x = p \<Longrightarrow> pid x \<noteq> p"
    using Cons.prems by (auto simp: parent_in_def) (metis imageI)
  moreover have "family sh (map (ended p e) xs)" "pid x \<notin> {0, 1, sh}" "pid x \<notin> pid ` set xs" "ppid x \<in> {1, sh} \<or> parent_in xs x"
    using Cons by simp_all
  ultimately show ?case by (cases "ppid x = p") auto
qed simp

lemma family_distinct: "family sh xs \<Longrightarrow> x \<in> set xs \<Longrightarrow> y \<in> set xs \<Longrightarrow> pid x = pid y \<Longrightarrow> x = y"
  by (induction xs) (auto simp: image_iff)

lemma family_filter:
  assumes "family sh xs" "\<And>y. y \<in> set xs \<Longrightarrow> running y \<Longrightarrow> P y"
  shows "family sh (filter P xs)"
  using assms by (induction xs) (auto simp: parent_in_def)

lemma family_outside: "family sh xs \<Longrightarrow> x \<in> set xs \<Longrightarrow> pid x \<notin> {0, 1, sh}"
  by (induction xs) auto

lemma one_session_map: "one_session xs \<Longrightarrow> (\<And>x. pgrp (f x) = pgrp x \<and> psid (f x) = psid x) \<Longrightarrow> one_session (map f xs)"
  by (simp add: one_session_def)

lemma one_session_subset: "one_session xs \<Longrightarrow> set ys \<subseteq> set xs \<Longrightarrow> one_session ys"
  unfolding one_session_def by blast

lemma find_procD: "find_proc p s = Some x \<Longrightarrow> x \<in> set (procs s) \<and> pid x = p"
  by (auto simp: find_proc_def find_Some_iff)

lemma pids_on_proc: "(\<And>x. pid (f x) = pid x) \<Longrightarrow> pid ` set (procs (on_proc p f s)) = pid ` set (procs s)"
proof -
  assume f: "\<And>x. pid (f x) = pid x"
  have "map pid (procs (on_proc p f s)) = map pid (procs s)" by (simp add: on_proc_def f)
  from arg_cong [OF this, of set] show ?thesis by simp
qed

lemma table_set_pc: "table_ok s \<Longrightarrow> table_ok (set_pc p pc s)"
  by (simp add: table_ok_def set_pc_def on_proc_def family_map one_session_map)

lemma table_end: "table_ok s \<Longrightarrow> table_ok (end_proc p e s)"
  by (simp add: table_ok_def end_proc_def one_session_map family_ended)

lemma table_fork:
  assumes "table_ok s" "x \<in> set (procs s)" "running x" "do_fork x k c s = Some t"
  shows "table_ok t"
proof (cases c)
  case None
  with assms table_set_pc show ?thesis by (auto simp: do_fork_def)
next
  case (Some q)
  let ?s = "set_pc (pid x) (k (int q)) s" and ?x = "x\<lparr>stat := Run (k (int q))\<rparr>"
  from Some assms(4) have fresh: "fresh q s"
    and t: "t = ?s\<lparr>procs := x\<lparr>pid := q, ppid := pid x, stat := Run (k 0)\<rparr> # procs ?s\<rparr>"
    by (auto simp: do_fork_def Let_def split: if_splits)
  have ok: "table_ok ?s" using assms(1) by (rule table_set_pc)
  have x: "?x \<in> set (procs ?s)" using assms(2) by (force simp: set_pc_def on_proc_def image_iff)
  have "pid ` set (procs ?s) = pid ` set (procs s)" "shell ?s = shell s"
    unfolding set_pc_def by (rule pids_on_proc, simp) (simp add: on_proc_def)
  moreover have "q \<notin> pid ` set (procs s)" "q \<notin> {0, 1, shell s}" using fresh by (auto simp: fresh_def list_all_iff)
  moreover have "parent_in (procs ?s) (x\<lparr>pid := q, ppid := pid x, stat := Run (k 0)\<rparr>)"
    unfolding parent_in_def using x by (intro bexI [of _ ?x]) simp_all
  ultimately have "family (shell t) (procs t)" using ok by (simp add: t table_ok_def)
  moreover have "one_session (?x # procs ?s)"
    using ok by (rule one_session_subset [OF conjunct2 [OF table_ok_def [THEN iffD1]]]) (use x in auto)
  then have "one_session (procs t)" by (simp add: t one_session_def)
  ultimately show ?thesis by (simp add: table_ok_def)
qed

lemma table_setsid:
  fixes x :: "'pc proc"
  assumes ok: "table_ok s"
  shows "table_ok (do_setsid x k s)"
proof -
  show ?thesis
  proof (cases "list_ex (\<lambda>y. pgrp y = pid x) (procs s)")
    case False
    then have no: "\<And>y. y \<in> set (procs s) \<Longrightarrow> pgrp y \<noteq> pid x" by (auto simp: list_ex_iff)
    define f :: "'pc proc \<Rightarrow> 'pc proc" where "f = (\<lambda>y. if pid y = pid x then y\<lparr>pgrp := pid x, psid := pid x, stat := Run (k (int (pid x)))\<rparr> else y)"
    from ok obtain g where g: "\<And>y. y \<in> set (procs s) \<Longrightarrow> psid y = g (pgrp y)" by (auto simp: table_ok_def one_session_def)
    have "psid (f y) = (g(pid x := pid x)) (pgrp (f y))" if "y \<in> set (procs s)" for y
      using g [OF that] no [OF that] by (simp add: f_def)
    then have "one_session (map f (procs s))" unfolding one_session_def by (intro exI [of _ "g(pid x := pid x)"]) simp
    moreover have "family (shell s) (map f (procs s))"
      using ok by (intro family_map) (simp_all add: table_ok_def f_def)
    ultimately show ?thesis using False by (simp add: do_setsid_def table_ok_def on_proc_def f_def)
  qed (simp add: do_setsid_def table_set_pc ok)
qed

lemma table_kill: "table_ok s \<Longrightarrow> table_ok (do_kill q sig s)"
  by (auto simp: do_kill_def table_end split: option.split)

lemma table_reap:
  assumes "table_ok s" "x \<in> set (procs s)" "\<not> running x"
  shows "table_ok (s\<lparr>procs := filter (\<lambda>y. pid y \<noteq> pid x) (procs s)\<rparr>)"
proof -
  have "family (shell s) (filter (\<lambda>y. pid y \<noteq> pid x) (procs s))"
    using assms family_distinct by (intro family_filter) (auto simp: table_ok_def)
  with assms(1) show ?thesis by (auto simp: table_ok_def intro: one_session_subset)
qed

lemma table_syscall:
  assumes "table_ok s" "x \<in> set (procs s)" "running x" "syscall_step x call c s = Some t"
  shows "table_ok t"
proof (cases call)
  case (Printf l pc)
  have "table_ok (s\<lparr>out := out s @ [(pid x, l)]\<rparr>)" using assms(1) by (simp add: table_ok_def)
  with Printf assms(4) table_set_pc show ?thesis by (auto simp: syscall_step_def)
next
  case (Fork k)
  with assms(4) table_fork [OF assms(1-3)] show ?thesis by (simp add: syscall_step_def)
qed (use assms(1,4) table_set_pc table_end table_setsid table_kill [OF table_set_pc] in \<open>auto simp: syscall_step_def\<close>)

text \<open>An action is a system call of a running process, or the end of a zombie.\<close>

lemma os_execE:
  assumes "os_exec prog a s = Some t"
  obtains x pc c where "x \<in> set (procs s)" "stat x = Run pc" "find_proc (pid x) s = Some x" "syscall_step x (prog pc) c s = Some t"
  | x where "x \<in> set (procs s)" "\<not> running x" "ppid x \<in> {1, shell s}" "t = s\<lparr>procs := filter (\<lambda>y. pid y \<noteq> pid x) (procs s)\<rparr>"
proof (cases a)
  case (Step p c)
  with assms obtain x pc where "find_proc p s = Some x" "stat x = Run pc" "syscall_step x (prog pc) c s = Some t"
    by (auto simp: os_exec_def split: option.splits pstat.splits)
  with find_procD [of p s x] that(1) show ?thesis by blast
next
  case (Reap q)
  with assms obtain x where "find_proc q s = Some x" "\<not> running x" "ppid x \<in> {1, shell s}"
    "t = s\<lparr>procs := filter (\<lambda>y. pid y \<noteq> q) (procs s)\<rparr>"
    by (auto simp: os_exec_def split: option.splits if_splits)
  with find_procD [of q s x] that(2) show ?thesis by blast
qed

lemma table_exec: "table_ok s \<Longrightarrow> os_exec prog a s = Some t \<Longrightarrow> table_ok t"
  by (erule os_execE) (auto intro: table_syscall table_reap running_Run)

interpretation table: invariant_system "os_init pc" "os_exec prog" table_ok for pc prog
proof
  show "table_ok s" if "os_init pc s" for s
    using that by (auto simp: os_init_def os_start_def table_ok_def one_session_def)
qed (rule table_exec)

end
