(* ===== verification/TwoProcs.thy ===== *)
theory TwoProcs
  imports ProcTable
begin

section \<open>Programs that fork once\<close>

text \<open>
  The tables a program can reach that forks once and whose child only runs and exits: what an action of the table of processes does to the
  two processes (\<open>two_step\<close>), and the contract such programs are proved by (\<open>forking_program\<close>).
\<close>

text \<open>
  The tables of a program that forks once: its first process \<open>m\<close>, its child \<open>k\<close>, either of which may not exist (any more). The child's
  parent is the first process while that runs, and init then.
\<close>

fun runs :: "'pc pstat option \<Rightarrow> bool" where
  "runs (Some (Run pc)) = True"
| "runs _ = False"

definition two_procs ::
  "nat \<Rightarrow> nat \<Rightarrow> nat \<Rightarrow> nat \<Rightarrow> 'pc pstat option \<Rightarrow> (nat \<times> 'pc pstat) option \<Rightarrow> 'pc proc list" where
  "two_procs sh p g ss m k =
     (case k of None \<Rightarrow> []
      | Some (q, st) \<Rightarrow> [\<lparr>pid = q, ppid = (if runs m then p else 1), pgrp = g, psid = ss, stat = st\<rparr>])
     @ (case m of None \<Rightarrow> [] | Some st \<Rightarrow> [\<lparr>pid = p, ppid = sh, pgrp = g, psid = ss, stat = st\<rparr>])"

definition two_os ::
  "nat \<Rightarrow> nat \<Rightarrow> nat \<Rightarrow> nat \<Rightarrow> 'pc pstat option \<Rightarrow> (nat \<times> 'pc pstat) option \<Rightarrow> (nat \<times> pline) list \<Rightarrow> 'pc os" where
  "two_os sh p g ss m k o1 = \<lparr>shell = sh, procs = two_procs sh p g ss m k, out = o1\<rparr>"

lemma os_start_two: "os_start sh p g ss pc = two_os sh p g ss (Some (Run pc)) None []"
  by (simp add: os_start_def two_os_def two_procs_def)

text \<open>The calls that concern nobody but the caller: its place after the call, and what it prints.\<close>

fun simple_call :: "nat \<Rightarrow> nat \<Rightarrow> nat \<Rightarrow> nat \<Rightarrow> 'pc syscall \<Rightarrow> ('pc \<times> pline list) option" where
  "simple_call self par g ss (Printf l pc) = Some (pc, [l])"
| "simple_call self par g ss (Sleep pc) = Some (pc, [])"
| "simple_call self par g ss (Getpid f) = Some (f self, [])"
| "simple_call self par g ss (Getppid f) = Some (f par, [])"
| "simple_call self par g ss (Getpgid f) = Some (f g, [])"
| "simple_call self par g ss (Getsid f) = Some (f ss, [])"
| "simple_call self par g ss _ = None"

type_synonym 'pc duo = "'pc pstat option \<times> (nat \<times> 'pc pstat) option \<times> (nat \<times> pline) list"

inductive two_step :: "('pc \<Rightarrow> 'pc syscall) \<Rightarrow> nat \<Rightarrow> nat \<Rightarrow> nat \<Rightarrow> nat \<Rightarrow> 'pc duo \<Rightarrow> 'pc duo \<Rightarrow> bool"
  for prog sh p g ss where
  main_call: "simple_call p sh g ss (prog pc) = Some (pc', ls) \<Longrightarrow>
    two_step prog sh p g ss (Some (Run pc), k, o1) (Some (Run pc'), k, o1 @ map (Pair p) ls)"
| main_fork_fails: "prog pc = Fork f \<Longrightarrow> two_step prog sh p g ss (Some (Run pc), k, o1) (Some (Run (f (-1))), k, o1)"
| main_forks: "prog pc = Fork f \<Longrightarrow> q \<notin> {0, 1, sh, p} \<Longrightarrow>
    two_step prog sh p g ss (Some (Run pc), None, o1) (Some (Run (f (int q))), Some (q, Run (f 0)), o1)"
| main_exits: "prog pc = ExitP e \<Longrightarrow> two_step prog sh p g ss (Some (Run pc), k, o1) (Some (Zombie (ChildExits e)), k, o1)"
| main_kills_child: "prog pc = Kill q sig pc' \<Longrightarrow>
    two_step prog sh p g ss (Some (Run pc), Some (q, Run c), o1) (Some (Run pc'), Some (q, Zombie (ChildKilled sig)), o1)"
| main_kills_self: "prog pc = Kill p sig pc' \<Longrightarrow>
    two_step prog sh p g ss (Some (Run pc), k, o1) (Some (Zombie (ChildKilled sig)), k, o1)"
| main_kills_nobody: "prog pc = Kill q sig pc' \<Longrightarrow> q \<noteq> p \<Longrightarrow> \<forall>c. k \<noteq> Some (q, Run c) \<Longrightarrow>
    two_step prog sh p g ss (Some (Run pc), k, o1) (Some (Run pc'), k, o1)"
| child_call: "simple_call q (if runs m then p else 1) g ss (prog pc) = Some (pc', ls) \<Longrightarrow>
    two_step prog sh p g ss (m, Some (q, Run pc), o1) (m, Some (q, Run pc'), o1 @ map (Pair q) ls)"
| child_exits: "prog pc = ExitP e \<Longrightarrow>
    two_step prog sh p g ss (m, Some (q, Run pc), o1) (m, Some (q, Zombie (ChildExits e)), o1)"
| reap_main: "two_step prog sh p g ss (Some (Zombie e), k, o1) (None, k, o1)"
| reap_child: "\<not> runs m \<Longrightarrow> two_step prog sh p g ss (m, Some (q, Zombie e), o1) (m, None, o1)"

fun child_may :: "'pc syscall \<Rightarrow> bool" where
  "child_may (Fork f) = False"
| "child_may (Setsid f) = False"
| "child_may (Kill q sig pc) = False"
| "child_may _ = True"

definition forks_once :: "('pc \<Rightarrow> 'pc syscall) \<Rightarrow> 'pc pstat option \<Rightarrow> (nat \<times> 'pc pstat) option \<Rightarrow> bool" where
  "forks_once prog m k \<longleftrightarrow>
     (\<forall>q pc. k = Some (q, Run pc) \<longrightarrow> child_may (prog pc))
     \<and> (\<forall>pc f. m = Some (Run pc) \<longrightarrow> prog pc \<noteq> Setsid f \<and> (k \<noteq> None \<longrightarrow> prog pc \<noteq> Fork f))"

definition numbers :: "nat \<Rightarrow> nat \<Rightarrow> (nat \<times> 'pc pstat) option \<Rightarrow> bool" where
  "numbers sh p k \<longleftrightarrow> p \<notin> {0, 1, sh} \<and> (\<forall>q st. k = Some (q, st) \<longrightarrow> q \<notin> {0, 1, sh, p})"

lemmas os_defs = two_os_def two_procs_def syscall_step_def set_pc_def on_proc_def end_proc_def ended_def do_fork_def do_kill_def
  find_proc_def running.simps Let_def

lemma syscall_simple:
  "simple_call (pid x) (ppid x) (pgrp x) (psid x) call = Some (pc, ls) \<Longrightarrow>
     syscall_step x call c s = Some (set_pc (pid x) pc (s\<lparr>out := out s @ map (Pair (pid x)) ls\<rparr>))"
  by (cases call) (auto simp: syscall_step_def)

lemma set_pc_two:
  "numbers sh p k \<Longrightarrow> set_pc p pc' ((two_os sh p g ss (Some (Run pc)) k o1)\<lparr>out := o2\<rparr>) = two_os sh p g ss (Some (Run pc')) k o2"
  "numbers sh p (Some (q, st)) \<Longrightarrow> set_pc q pc' ((two_os sh p g ss m (Some (q, st)) o1)\<lparr>out := o2\<rparr>) = two_os sh p g ss m (Some (q, Run pc')) o2"
  by (simp_all add: set_pc_def on_proc_def two_os_def two_procs_def numbers_def split: option.split)

lemma two_out [simp]: "out (two_os sh p g ss m k o1) = o1"
  by (simp add: two_os_def)

lemma two_exec_main_simple:
  assumes "syscall_step \<lparr>pid = p, ppid = sh, pgrp = g, psid = ss, stat = Run pc\<rparr> (prog pc) c (two_os sh p g ss (Some (Run pc)) k o1) = Some t"
    "numbers sh p k" "simple_call p sh g ss (prog pc) = Some (pc', ls)"
  shows "\<exists>m' k' o'. two_step prog sh p g ss (Some (Run pc), k, o1) (m', k', o') \<and> t = two_os sh p g ss m' k' o' \<and> numbers sh p k'"
proof -
  have "t = two_os sh p g ss (Some (Run pc')) k (o1 @ map (Pair p) ls)"
    using assms(1,3) syscall_simple [of "\<lparr>pid = p, ppid = sh, pgrp = g, psid = ss, stat = Run pc\<rparr>" "prog pc" pc' ls]
    by (simp add: set_pc_two(1) [OF assms(2)])
  with main_call [where prog = prog and pc = pc, OF assms(3)] assms(2) show ?thesis by blast
qed

lemma two_exec_main:
  assumes "syscall_step \<lparr>pid = p, ppid = sh, pgrp = g, psid = ss, stat = Run pc\<rparr> (prog pc) c (two_os sh p g ss (Some (Run pc)) k o1) = Some t"
    "forks_once prog (Some (Run pc)) k" "numbers sh p k"
  shows "\<exists>m' k' o'. two_step prog sh p g ss (Some (Run pc), k, o1) (m', k', o') \<and> t = two_os sh p g ss m' k' o' \<and> numbers sh p k'"
proof (cases "simple_call p sh g ss (prog pc)")
  case (Some r)
  with two_exec_main_simple [where prog = prog and pc = pc, OF assms(1,3), of "fst r" "snd r"] show ?thesis by simp
next
  case None
  note simple = None
  show ?thesis
  proof (cases "prog pc")
  case (Fork f)
  show ?thesis
  proof (cases c)
    case None
    with Fork assms(1) have "t = two_os sh p g ss (Some (Run (f (-1)))) k o1"
      using assms(3) by (auto simp: os_defs numbers_def split: option.splits)
    with main_fork_fails [of prog pc f] Fork assms(3) show ?thesis by blast
  next
    case (Some q)
    have k: "k = None" using assms(2) Fork by (cases k) (auto simp: forks_once_def)
    have fresh: "fresh q (two_os sh p g ss (Some (Run pc)) None o1)"
      using assms(1) Some Fork k by (simp add: syscall_step_def do_fork_def split: if_splits)
    then have "q \<notin> {0, 1, sh, p}" by (simp add: fresh_def two_os_def two_procs_def)
    moreover have "t = two_os sh p g ss (Some (Run (f (int q)))) (Some (q, Run (f 0))) o1"
      using assms(1) Some Fork k fresh by (simp add: os_defs)
    moreover have "numbers sh p (Some (q, Run (f 0)))" using calculation(1) assms(3) by (simp add: numbers_def)
    ultimately show ?thesis using main_forks [of prog pc f q sh p g ss o1] Fork k by blast
  qed
next
  case (Kill q sig pc')
  consider "q = p" | c where "k = Some (q, Run c)" "q \<noteq> p" | "q \<noteq> p" "\<forall>c. k \<noteq> Some (q, Run c)" by blast
  then show ?thesis
  proof cases
    case 1
    with Kill assms(1,3) have "t = two_os sh p g ss (Some (Zombie (ChildKilled sig))) k o1"
      by (auto simp: os_defs numbers_def split: option.splits)
    with main_kills_self [where prog = prog and pc = pc and sig = sig and pc' = pc'] Kill 1 assms(3) show ?thesis by blast
  next
    case 2
    with Kill assms(1,3) have "t = two_os sh p g ss (Some (Run pc')) (Some (q, Zombie (ChildKilled sig))) o1"
      by (auto simp: os_defs numbers_def split: option.splits)
    with main_kills_child [of prog pc q sig pc'] Kill 2 assms(3) show ?thesis by (fastforce simp: numbers_def)
  next
    case 3
    with Kill assms(1,3) have "t = two_os sh p g ss (Some (Run pc')) k o1"
      by (auto simp: os_defs numbers_def split: option.splits pstat.splits if_splits)
    with main_kills_nobody [of prog pc q sig pc'] Kill 3 assms(3) show ?thesis by blast
  qed
next
  case (ExitP e)
  with assms(1,3) have "t = two_os sh p g ss (Some (Zombie (ChildExits e))) k o1"
    by (auto simp: os_defs numbers_def split: option.splits)
  with main_exits [of prog pc e] ExitP assms(3) show ?thesis by blast
next
  case (Setsid f)
  with assms(2) show ?thesis by (auto simp: forks_once_def)
qed (use simple in simp_all)
qed

lemma two_exec_child:
  assumes "syscall_step \<lparr>pid = q, ppid = (if runs m then p else 1), pgrp = g, psid = ss, stat = Run pc\<rparr> (prog pc) c
      (two_os sh p g ss m (Some (q, Run pc)) o1) = Some t"
    "forks_once prog m (Some (q, Run pc))" "numbers sh p (Some (q, Run pc))"
  shows "\<exists>k' o'. two_step prog sh p g ss (m, Some (q, Run pc), o1) (m, k', o') \<and> t = two_os sh p g ss m k' o' \<and> numbers sh p k'"
proof -
  have q: "q \<notin> {0, 1, sh, p}" and n: "numbers sh p (Some (q, st))" for st
    using assms(3) by (auto simp: numbers_def)
  have may: "child_may (prog pc)" using assms(2) by (simp add: forks_once_def)
  show ?thesis
  proof (cases "\<exists>e. prog pc = ExitP e")
    case True
    then obtain e where e: "prog pc = ExitP e" ..
    with assms(1) q have "t = two_os sh p g ss m (Some (q, Zombie (ChildExits e))) o1"
      by (auto simp: os_defs split: option.splits)
    with child_exits [of prog pc e] e n show ?thesis by blast
  next
    case False
    with may obtain pc' ls where c: "simple_call q (if runs m then p else 1) g ss (prog pc) = Some (pc', ls)"
      by (cases "prog pc") auto
    with assms(1) syscall_simple [of "\<lparr>pid = q, ppid = (if runs m then p else 1), pgrp = g, psid = ss, stat = Run pc\<rparr>" "prog pc" pc' ls]
    have "t = two_os sh p g ss m (Some (q, Run pc')) (o1 @ map (Pair q) ls)" by (simp add: set_pc_two(2) [OF n])
    with child_call [where prog = prog and pc = pc and q = q and m = m, OF c] n show ?thesis by blast
  qed
qed

lemma find_two:
  "numbers sh p k \<Longrightarrow> find_proc r (two_os sh p g ss m k o1) = Some x \<Longrightarrow>
     (\<exists>st. m = Some st \<and> x = \<lparr>pid = p, ppid = sh, pgrp = g, psid = ss, stat = st\<rparr>)
   \<or> (\<exists>q st. k = Some (q, st) \<and> x = \<lparr>pid = q, ppid = (if runs m then p else 1), pgrp = g, psid = ss, stat = st\<rparr>)"
  by (cases k; cases m) (auto simp: find_proc_def two_os_def two_procs_def split: if_splits)

lemma two_exec:
  assumes "os_exec prog a (two_os sh p g ss m k o1) = Some t" "forks_once prog m k" "numbers sh p k"
  shows "\<exists>m' k' o'. two_step prog sh p g ss (m, k, o1) (m', k', o') \<and> t = two_os sh p g ss m' k' o' \<and> numbers sh p k'"
  using assms(1)
proof (cases rule: os_execE)
  case (1 x pc c)
  from find_two [OF assms(3) 1(3)] show ?thesis
  proof (elim disjE exE conjE)
    fix st
    assume "m = Some st" "x = \<lparr>pid = p, ppid = sh, pgrp = g, psid = ss, stat = st\<rparr>"
    with 1 assms(2,3) two_exec_main [of p sh g ss pc prog c k o1 t] show ?thesis by auto
  next
    fix q st
    assume "k = Some (q, st)" "x = \<lparr>pid = q, ppid = (if runs m then p else 1), pgrp = g, psid = ss, stat = st\<rparr>"
    with 1 assms(2,3) two_exec_child [of q m p g ss pc prog c sh o1 t] show ?thesis by auto
  qed
next
  case (2 x)
  from 2(1) consider
      st where "m = Some st" "x = \<lparr>pid = p, ppid = sh, pgrp = g, psid = ss, stat = st\<rparr>"
    | q st where "k = Some (q, st)" "x = \<lparr>pid = q, ppid = (if runs m then p else 1), pgrp = g, psid = ss, stat = st\<rparr>"
    by (cases k; cases m) (auto simp: two_os_def two_procs_def)
  then show ?thesis
  proof cases
    case 1
    with 2(2) obtain e where m: "m = Some (Zombie e)" by (cases st) (auto simp: running.simps)
    with 1 2(4) assms(3) have "t = two_os sh p g ss None k o1"
      by (auto simp: two_os_def two_procs_def numbers_def split: option.splits)
    with reap_main m assms(3) show ?thesis by blast
  next
    case (2 q st)
    with \<open>\<not> running x\<close> obtain e where k: "k = Some (q, Zombie e)" by (cases st) (auto simp: running.simps)
    with 2 \<open>ppid x \<in> {1, shell (two_os sh p g ss m k o1)}\<close> assms(3) have m: "\<not> runs m"
      by (auto simp: numbers_def two_os_def split: if_splits)
    with k 2 \<open>t = _\<close> assms(3) have "t = two_os sh p g ss m None o1"
      by (auto simp: two_os_def two_procs_def numbers_def split: option.splits)
    with reap_child [OF m] k assms(3) show ?thesis by (fastforce simp: numbers_def)
  qed
qed

text \<open>What a program that forks once is proved by: an invariant of its two processes.\<close>

locale forking_program =
  fixes prog :: "'pc \<Rightarrow> 'pc syscall"
    and start :: 'pc
    and inv :: "nat \<Rightarrow> nat \<Rightarrow> 'pc duo \<Rightarrow> bool"
  assumes start: "inv sh p (Some (Run start), None, [])"
    and step: "inv sh p d \<Longrightarrow> two_step prog sh p g ss d d' \<Longrightarrow> numbers sh p (fst (snd d)) \<Longrightarrow> inv sh p d'"
    and once: "inv sh p (m, k, o1) \<Longrightarrow> forks_once prog m k"
begin

lemma run:
  assumes "p \<notin> {0, 1, sh}" "run_actions (os_exec prog) as (os_start sh p g ss start) = Some s"
  obtains m k o1 where "s = two_os sh p g ss m k o1" "inv sh p (m, k, o1)" "numbers sh p k"
proof -
  have "\<exists>m' k' o'. s = two_os sh p g ss m' k' o' \<and> inv sh p (m', k', o') \<and> numbers sh p k'"
    if "run_actions (os_exec prog) as (two_os sh p g ss m k o1) = Some s" "inv sh p (m, k, o1)" "numbers sh p k" for m k o1
    using that
  proof (induction as arbitrary: m k o1)
    case (Cons a as)
    then obtain u where u: "os_exec prog a (two_os sh p g ss m k o1) = Some u" "run_actions (os_exec prog) as u = Some s"
      by (auto split: option.splits)
    from two_exec [OF u(1) once [OF Cons.prems(2)] Cons.prems(3)] obtain m' k' o'
      where n: "two_step prog sh p g ss (m, k, o1) (m', k', o')" "u = two_os sh p g ss m' k' o'" "numbers sh p k'" by blast
    from step [OF Cons.prems(2) n(1)] Cons.prems(3) have "inv sh p (m', k', o')" by simp
    with Cons.IH u(2) n show ?case by blast
  qed auto
  from this [of "Some (Run start)" None "[]"] assms start show ?thesis
    using that by (auto simp: os_start_two numbers_def)
qed

end

end
