(* ===== verification/ProcDemos.thy ===== *)
theory ProcDemos
  imports TwoProcs
begin

section \<open>Processes that fork, die and are left behind (2\_process\_c, 4\_signal\_c, 5\_process\_group)\<close>

text \<open>
  \<^verbatim>\<open>concurrence_linux/2_process_c/1_pid.c\<close>, \<^verbatim>\<open>2_fork.c\<close>, \<^verbatim>\<open>3_fork.c\<close>, \<^verbatim>\<open>8_orphan.c\<close>, \<^verbatim>\<open>9_zombie.c\<close>, \<^verbatim>\<open>4_signal_c/1_kill.c\<close>, \<^verbatim>\<open>2_raise.c\<close>,
  \<^verbatim>\<open>3_abort.c\<close>, \<^verbatim>\<open>5_process_group/1_groupid.c\<close> and \<^verbatim>\<open>2_session.c\<close>, as programs over the table of processes. The places of a
  program are the calls of its source in order. All interleavings of the processes are considered; \<^verbatim>\<open>perror\<close> prints nothing here, and a
  line is out when \<^verbatim>\<open>printf\<close> returns, as on a terminal. \<^verbatim>\<open>getpgrp\<close>, and \<^verbatim>\<open>getpgid\<close> and \<^verbatim>\<open>getsid\<close> of the calling process, do not fail, so the branches for
  their failure are left out.
\<close>

subsection \<open>The programs\<close>

datatype pid_pc = P_pid | P_pid_print nat | P_ppid | P_ppid_print nat | P_self | P_group nat | P_group_print nat | P_return

fun pid_main :: "pid_pc \<Rightarrow> pid_pc syscall" where
  "pid_main P_pid = Getpid P_pid_print"
| "pid_main (P_pid_print n) = Printf (Line ''pid = %d'' [int n]) P_ppid"
| "pid_main P_ppid = Getppid P_ppid_print"
| "pid_main (P_ppid_print n) = Printf (Line ''parent pid = %d'' [int n]) P_self"
| "pid_main P_self = Getpid P_group"
| "pid_main (P_group n) = Getpgid P_group_print"
| "pid_main (P_group_print n) = Printf (Line ''group pid  = %d'' [int n]) P_return"
| "pid_main P_return = ExitP 0"

datatype hello_pc = H_fork | H_hello | H_return

fun hello_main :: "hello_pc \<Rightarrow> hello_pc syscall" where
  "hello_main H_fork = Fork (\<lambda>_. H_hello)"
| "hello_main H_hello = Printf (Line ''hello'' []) H_return"
| "hello_main H_return = ExitP 0"

datatype both_pc =
    B_fork | B_failed
  | Son_pid | Son_ppid nat | Son_print nat nat | Son_sleep
  | Par_pid int | Par_print nat int | Par_sleep int

fun both_main :: "both_pc \<Rightarrow> both_pc syscall" where
  "both_main B_fork = Fork (\<lambda>r. if r < 0 then B_failed else if r = 0 then Son_pid else Par_pid r)"
| "both_main B_failed = ExitP 1"
| "both_main Son_pid = Getpid Son_ppid"
| "both_main (Son_ppid n) = Getppid (Son_print n)"
| "both_main (Son_print n m) = Printf (Line (''son:'' @ [CHR 0x09] @ '' pid = %d, ppid = %d'') [int n, int m]) Son_sleep"
| "both_main Son_sleep = Sleep Son_pid"
| "both_main (Par_pid r) = Getpid (\<lambda>n. Par_print n r)"
| "both_main (Par_print n r) = Printf (Line (''parent:'' @ [CHR 0x09] @ '' pid = %d, cpid = %d'') [int n, r]) (Par_sleep r)"
| "both_main (Par_sleep r) = Sleep (Par_pid r)"

datatype orphan_pc = O_fork | O_failed | O_say | O_wait | O_exit | C_ask | C_print nat | C_sleep

fun orphan_main :: "orphan_pc \<Rightarrow> orphan_pc syscall" where
  "orphan_main O_fork = Fork (\<lambda>r. if r = -1 then O_failed else if r > 0 then O_say else C_ask)"
| "orphan_main O_failed = ExitP 1"
| "orphan_main O_say = Printf (Line ''parent process exits after a second of sleep'' []) O_wait"
| "orphan_main O_wait = Sleep O_exit"
| "orphan_main O_exit = ExitP 1"
| "orphan_main C_ask = Getppid C_print"
| "orphan_main (C_print n) = Printf (Line ''child process do things..., ppid = %d'' [int n]) C_sleep"
| "orphan_main C_sleep = Sleep C_ask"

datatype zombie_pc = Z_fork | Z_failed | Z_loop nat | Z_sleep nat | Z_say | Z_wait | Z_return

fun zombie_main :: "zombie_pc \<Rightarrow> zombie_pc syscall" where
  "zombie_main Z_fork = Fork (\<lambda>r. if r = -1 then Z_failed else if r = 0 then Z_loop 0 else Z_say)"
| "zombie_main Z_failed = ExitP 1"
| "zombie_main (Z_loop i) = (if i < 10 then Printf (Line ''child doing cul %d'' [int i]) (Z_sleep i) else ExitP 1)"
| "zombie_main (Z_sleep i) = Sleep (Z_loop (Suc i))"
| "zombie_main Z_say = Printf (Line ''parent sleep...'' []) Z_wait"
| "zombie_main Z_wait = Sleep Z_return"
| "zombie_main Z_return = ExitP 0"



text \<open>The two programs that work until they kill themselves, given what they print and the signal: \<^verbatim>\<open>abort\<close> sends its own process \<^verbatim>\<open>SIGABRT\<close>.\<close>

datatype work_pc = W_print nat | W_test nat | W_kill nat nat | W_next nat

fun work_main :: "byte list \<Rightarrow> nat \<Rightarrow> work_pc \<Rightarrow> work_pc syscall" where
  "work_main f sig (W_print i) = Printf (Line f [int i]) (W_test i)"
| "work_main f sig (W_test i) = (if i = 4 then Getpid (W_kill i) else Sleep (W_print (Suc i)))"
| "work_main f sig (W_kill i p) = Kill p sig (W_next i)"
| "work_main f sig (W_next i) = Sleep (W_print (Suc i))"

definition raise_main :: "work_pc \<Rightarrow> work_pc syscall" where
  "raise_main = work_main ''do working i: %d'' 15"

definition abort_main :: "work_pc \<Rightarrow> work_pc syscall" where
  "abort_main = work_main ''doing work %d times'' 6"

datatype group_pc = G_grp | G_grp_print nat | G_pgid | G_pgid_print nat | G_return

fun group_main :: "group_pc \<Rightarrow> group_pc syscall" where
  "group_main G_grp = Getpgid G_grp_print"
| "group_main (G_grp_print n) = Printf (Line ''current process gid: %d'' [int n]) G_pgid"
| "group_main G_pgid = Getpgid G_pgid_print"
| "group_main (G_pgid_print n) = Printf (Line ''0 pgid: %d'' [int n]) G_return"
| "group_main G_return = ExitP 0"

datatype session_pc = S_get | S_print nat | S_set | S_done int

fun session_main :: "session_pc \<Rightarrow> session_pc syscall" where
  "session_main S_get = Getsid S_print"
| "session_main (S_print n) = Printf (Line ''getsid(0)=%d'' [int n]) S_set"
| "session_main S_set = Setsid S_done"
| "session_main (S_done r) = ExitP (if -1 = r then 1 else 0)"

subsection \<open>What the child prints\<close>

text \<open>The lines of all processes but \<open>p\<close>, and those of \<open>p\<close>.\<close>

definition others :: "nat \<Rightarrow> (nat \<times> pline) list \<Rightarrow> pline list" where
  "others p o1 = map snd (filter (\<lambda>l. fst l \<noteq> p) o1)"

definition own :: "nat \<Rightarrow> (nat \<times> pline) list \<Rightarrow> pline list" where
  "own p o1 = map snd (filter (\<lambda>l. fst l = p) o1)"

lemma lines_simps [simp]:
  "others p [] = []" "others p (xs @ ys) = others p xs @ others p ys" "others p [l] = (if fst l = p then [] else [snd l])"
  "own p [] = []" "own p (xs @ ys) = own p xs @ own p ys" "own p [l] = (if fst l = p then [snd l] else [])"
  by (simp_all add: others_def own_def)

lemma main_running: "numbers sh p k \<Longrightarrow> (\<exists>x \<in> set (procs (two_os sh p g ss m k o1)). pid x = p \<and> running x) \<longleftrightarrow> runs m"
  by (cases m rule: runs.cases; cases k) (auto simp: two_os_def two_procs_def numbers_def running.simps)

lemma other_process:
  "numbers sh p k \<Longrightarrow> x \<in> set (procs (two_os sh p g ss m k o1)) \<Longrightarrow> pid x \<noteq> p \<Longrightarrow> k = Some (pid x, stat x)"
  by (cases m; cases k) (auto simp: two_os_def two_procs_def numbers_def)

subsection \<open>8\_orphan.c\<close>

definition orphan_line :: "nat \<Rightarrow> pline" where
  "orphan_line n = Line ''child process do things..., ppid = %d'' [int n]"

definition orphan_lines :: "nat \<Rightarrow> nat \<Rightarrow> nat \<Rightarrow> pline list" where
  "orphan_lines p a b = replicate a (orphan_line p) @ replicate b (orphan_line 1)"

lemma orphan_lines_grow:
  "orphan_lines p 0 0 = []" "orphan_lines p a 0 @ [orphan_line p] = orphan_lines p (Suc a) 0"
  "orphan_lines p a b @ [orphan_line 1] = orphan_lines p a (Suc b)"
  by (simp_all add: orphan_lines_def replicate_append_same)

text \<open>The child asks, or has read a number and is about to print it.\<close>

definition orphan_child :: "nat \<Rightarrow> orphan_pc pstat option \<Rightarrow> nat \<Rightarrow> orphan_pc pstat \<Rightarrow> bool" where
  "orphan_child p m b st \<longleftrightarrow> st \<in> {Run C_ask, Run C_sleep} \<or> st = Run (C_print p) \<and> b = 0 \<or> st = Run (C_print 1) \<and> \<not> runs m"

definition orphan_out :: "nat \<Rightarrow> orphan_pc duo \<Rightarrow> nat \<Rightarrow> nat \<Rightarrow> bool" where
  "orphan_out p d a b \<longleftrightarrow>
     (case d of (m, k, o1) \<Rightarrow> others p o1 = orphan_lines p a b \<and> (b > 0 \<longrightarrow> \<not> runs m)
        \<and> (case k of None \<Rightarrow> a = 0 \<and> b = 0 | Some (q, st) \<Rightarrow> orphan_child p m b st))"

definition orphan_inv :: "nat \<Rightarrow> nat \<Rightarrow> orphan_pc duo \<Rightarrow> bool" where
  "orphan_inv sh p d \<longleftrightarrow>
     (\<forall>pc. fst d = Some (Run pc) \<longrightarrow> pc \<in> {O_fork, O_failed, O_say, O_wait, O_exit} \<and> (pc \<in> {O_fork, O_failed} \<longrightarrow> fst (snd d) = None))
   \<and> (\<exists>a b. orphan_out p d a b)"

lemma orphan_out_child:
  assumes "orphan_out p (m, Some (q, Run pc), o1) a b" "q \<noteq> p"
    "simple_call q (if runs m then p else 1) g ss (orphan_main pc) = Some (pc', ls)"
  shows "\<exists>a b. orphan_out p (m, Some (q, Run pc'), o1 @ map (Pair q) ls) a b"
proof -
  have st: "orphan_child p m b (Run pc)" and o1: "others p o1 = orphan_lines p a b" and b: "b > 0 \<longrightarrow> \<not> runs m"
    using assms(1) by (simp_all add: orphan_out_def)
  from st consider "pc = C_ask" | "pc = C_sleep" | "pc = C_print p" "b = 0" | "pc = C_print 1" "\<not> runs m"
    by (auto simp: orphan_child_def)
  then show ?thesis
  proof cases
    case 1
    with assms(3) o1 b have "orphan_out p (m, Some (q, Run pc'), o1 @ map (Pair q) ls) a b"
      by (auto simp: orphan_out_def orphan_child_def split: if_splits)
    then show ?thesis by blast
  next
    case 2
    with assms(3) o1 b have "orphan_out p (m, Some (q, Run pc'), o1 @ map (Pair q) ls) a b"
      by (auto simp: orphan_out_def orphan_child_def)
    then show ?thesis by blast
  next
    case 3
    with assms(2,3) o1 have "orphan_out p (m, Some (q, Run pc'), o1 @ map (Pair q) ls) (Suc a) 0"
      by (auto simp: orphan_out_def orphan_child_def orphan_line_def [symmetric] orphan_lines_grow)
    then show ?thesis by blast
  next
    case 4
    with assms(2,3) o1 have "orphan_out p (m, Some (q, Run pc'), o1 @ map (Pair q) ls) a (Suc b)"
      using orphan_lines_grow(3) [of p a b] by (auto simp: orphan_out_def orphan_child_def orphan_line_def)
    then show ?thesis by blast
  qed
qed

lemma orphan_out_main:
  "orphan_out p (m, k, o1) a b \<Longrightarrow> (runs m' \<Longrightarrow> runs m) \<Longrightarrow> (\<And>l. l \<in> set ls \<Longrightarrow> fst l = p) \<Longrightarrow> orphan_out p (m', k, o1 @ ls) a b"
  by (auto simp: orphan_out_def orphan_child_def others_def split: option.splits)

lemma orphan_step:
  assumes "orphan_inv sh p d" "two_step orphan_main sh p g ss d d'" "numbers sh p (fst (snd d))"
  shows "orphan_inv sh p d'"
  using assms(2,1,3)
proof cases
  case (main_call pc pc' ls k o1)
  obtain a b where "orphan_out p (Some (Run pc), k, o1) a b" using assms(1) main_call(1) by (auto simp: orphan_inv_def)
  then have "orphan_out p (Some (Run pc'), k, o1 @ map (Pair p) ls) a b" by (rule orphan_out_main) auto
  with main_call assms(1) show ?thesis by (cases pc) (auto simp: orphan_inv_def)
next
  case (main_fork_fails pc f k o1)
  then obtain a b where "orphan_out p (Some (Run pc), k, o1) a b" using assms(1) by (auto simp: orphan_inv_def)
  from orphan_out_main [OF this, of _ "[]"] main_fork_fails assms(1) show ?thesis by (cases pc) (auto simp: orphan_inv_def)
next
  case (main_forks pc f q o1)
  then have "orphan_out p (Some (Run (f (int q))), Some (q, Run (f 0)), o1) 0 0"
    using assms(1) by (cases pc) (auto simp: orphan_inv_def orphan_out_def orphan_child_def)
  with main_forks assms(1) show ?thesis by (cases pc) (auto simp: orphan_inv_def)
next
  case (main_exits pc e k o1)
  then obtain a b where "orphan_out p (Some (Run pc), k, o1) a b" using assms(1) by (auto simp: orphan_inv_def)
  from orphan_out_main [OF this, of "Some (Zombie (ChildExits e))" "[]"] main_exits show ?thesis by (auto simp: orphan_inv_def)
next
  case (child_call q m pc pc' ls o1)
  then obtain a b where "orphan_out p (m, Some (q, Run pc), o1) a b" using assms(1) by (auto simp: orphan_inv_def)
  from orphan_out_child [OF this _ child_call(3)] child_call assms(1,3) show ?thesis by (auto simp: orphan_inv_def numbers_def)
next
  case (reap_main e k o1)
  then obtain a b where "orphan_out p (Some (Zombie e), k, o1) a b" using assms(1) by (auto simp: orphan_inv_def)
  from orphan_out_main [OF this, of None "[]"] reap_main show ?thesis by (auto simp: orphan_inv_def)
next
  case (child_exits pc e m q o1)
  then show ?thesis using assms(1) by (auto simp: orphan_inv_def orphan_out_def orphan_child_def)
next
  case (reap_child m q e o1)
  then show ?thesis using assms(1) by (auto simp: orphan_inv_def orphan_out_def orphan_child_def)
next
  case (main_kills_child pc q sig pc' c o1)
  then show ?thesis using assms(1) by (cases pc) (auto simp: orphan_inv_def)
next
  case (main_kills_self pc sig pc' k o1)
  then show ?thesis using assms(1) by (cases pc) (auto simp: orphan_inv_def)
next
  case (main_kills_nobody pc q sig pc' k o1)
  then show ?thesis using assms(1) by (cases pc) (auto simp: orphan_inv_def)
qed

interpretation orphan: forking_program orphan_main O_fork orphan_inv
proof
  show "forks_once orphan_main m k" if "orphan_inv sh p (m, k, o1)" for sh p m k o1
    using that by (fastforce simp: orphan_inv_def orphan_out_def orphan_child_def forks_once_def)
  show "orphan_inv sh p (Some (Run O_fork), None, [])" for sh p
    by (auto simp: orphan_inv_def orphan_out_def orphan_lines_def intro!: exI [of _ "0 :: nat"])
qed (rule orphan_step)

text \<open>A run: the child prints once, the parent ends and is fetched by the shell, the child prints again.\<close>

definition orphan_run :: "os_act list" where
  "orphan_run = [Step 5 (Some 6), Step 6 None, Step 6 None, Step 6 None, Step 5 None, Step 5 None, Step 5 None, Reap 5, Step 6 None, Step 6 None]"

text \<open>The child outlives its parent: it never ends, and it prints the parent's number as that of its parent for a while and then 1 for ever, which it can
  do only when the parent has ended.\<close>

theorem orphan_adopted_by_init:
  assumes "p \<notin> {0, 1, sh}" "run_actions (os_exec orphan_main) as (os_start sh p g ss O_fork) = Some s"
  shows "\<exists>a b. others p (out s) = replicate a (orphan_line p) @ replicate b (orphan_line 1)
     \<and> (b > 0 \<longrightarrow> \<not> (\<exists>x \<in> set (procs s). pid x = p \<and> running x)) \<and> (\<forall>x \<in> set (procs s). pid x \<noteq> p \<longrightarrow> running x)"
proof -
  obtain m k o1 where s: "s = two_os sh p g ss m k o1" "orphan_inv sh p (m, k, o1)" "numbers sh p k"
    using orphan.run [OF assms] .
  have "running x" if x: "x \<in> set (procs s)" "pid x \<noteq> p" for x
  proof -
    have "k = Some (pid x, stat x)" using other_process [OF s(3)] x s(1) by blast
    with s(2) show ?thesis by (auto simp: orphan_inv_def orphan_out_def orphan_child_def running.simps)
  qed
  moreover obtain a b where "others p o1 = orphan_lines p a b" "b > 0 \<longrightarrow> \<not> runs m"
    using s(2) by (auto simp: orphan_inv_def orphan_out_def)
  ultimately show ?thesis using main_running [OF s(3), of g ss m o1] s(1) by (auto simp: orphan_lines_def)
qed

theorem orphan_adopted_by_init_witness:
  "\<exists>s :: orphan_pc os. run_actions (os_exec orphan_main) orphan_run (os_start 2 5 5 2 O_fork) = Some s
     \<and> others 5 (out s) = [orphan_line 5, orphan_line 1] \<and> list_all (\<lambda>x. pid x = 6 \<and> running x) (procs s)"
proof -
  have "map_option (\<lambda>s. (others 5 (out s), map pid (procs s)))
      (run_actions (os_exec orphan_main) orphan_run (os_start 2 5 5 2 O_fork)) = Some ([orphan_line 5, orphan_line 1], [6])"
    by code_simp
  then obtain s :: "orphan_pc os" where s: "run_actions (os_exec orphan_main) orphan_run (os_start 2 5 5 2 O_fork) = Some s"
      "others 5 (out s) = [orphan_line 5, orphan_line 1]" "map pid (procs s) = [6]"
    by auto
  with orphan_adopted_by_init [of 5 2 orphan_run 5 2 s] show ?thesis by (cases "procs s") auto
qed

subsection \<open>9\_zombie.c\<close>

definition zombie_lines :: "nat \<Rightarrow> pline list" where
  "zombie_lines n = map (\<lambda>i. Line ''child doing cul %d'' [int i]) [0..<n]"

lemma zombie_lines_simps [simp]: "zombie_lines 0 = []" "zombie_lines n @ [Line ''child doing cul %d'' [int n]] = zombie_lines (Suc n)"
  by (simp_all add: zombie_lines_def)

fun zombie_child :: "zombie_pc pstat \<Rightarrow> nat \<Rightarrow> bool" where
  "zombie_child (Run (Z_loop i)) n \<longleftrightarrow> n = i \<and> i \<le> 10"
| "zombie_child (Run (Z_sleep i)) n \<longleftrightarrow> n = Suc i \<and> i < 10"
| "zombie_child (Zombie e) n \<longleftrightarrow> e = ChildExits 1 \<and> n = 10"
| "zombie_child _ n \<longleftrightarrow> False"

definition zombie_inv :: "nat \<Rightarrow> nat \<Rightarrow> zombie_pc duo \<Rightarrow> bool" where
  "zombie_inv sh p d \<longleftrightarrow>
     (case d of (m, k, o1) \<Rightarrow>
        (\<forall>pc. m = Some (Run pc) \<longrightarrow> (if k = None then pc \<in> {Z_fork, Z_failed} else pc \<in> {Z_say, Z_wait, Z_return}))
      \<and> (\<exists>n \<le> 10. others p o1 = zombie_lines n \<and> (runs m \<and> k = None \<longrightarrow> n = 0) \<and> (\<forall>q st. k = Some (q, st) \<longrightarrow> zombie_child st n)))"

lemma zombie_step:
  assumes "zombie_inv sh p d" "two_step zombie_main sh p g ss d d'" "numbers sh p (fst (snd d))"
  shows "zombie_inv sh p d'"
  using assms(2,1,3)
proof cases
  case (main_call pc pc' ls k o1)
  then show ?thesis using assms(1) by (cases pc) (auto simp: zombie_inv_def split: if_splits)
next
  case (child_call q m pc pc' ls o1)
  then show ?thesis using assms(1,3) by (cases pc) (auto simp: zombie_inv_def numbers_def split: if_splits)
next
  case (child_exits pc e m q o1)
  then show ?thesis using assms(1,3) by (cases pc) (auto simp: zombie_inv_def split: if_splits)
qed (use assms in \<open>auto simp: zombie_inv_def split: if_splits\<close>)

interpretation zombie: forking_program zombie_main Z_fork zombie_inv
proof
  show "forks_once zombie_main m k" if inv: "zombie_inv sh p (m, k, o1)" for sh p m k o1
  proof -
    have "child_may (zombie_main pc)" if "k = Some (q, Run pc)" for q pc
      using inv that by (cases pc) (auto simp: zombie_inv_def)
    moreover have "zombie_main pc \<noteq> Setsid f \<and> (k \<noteq> None \<longrightarrow> zombie_main pc \<noteq> Fork f)" if "m = Some (Run pc)" for pc f
      using inv that by (cases pc) (auto simp: zombie_inv_def split: if_splits)
    ultimately show ?thesis by (simp add: forks_once_def)
  qed
  show "zombie_inv sh p (Some (Run Z_fork), None, [])" for sh p by (auto simp: zombie_inv_def)
qed (rule zombie_step)

text \<open>A zombie whose parent runs cannot be fetched by anybody else.\<close>

lemma reap_blocked:
  assumes "numbers sh p k" "runs m" "x \<in> set (procs (two_os sh p g ss m k o1))" "pid x \<noteq> p"
  shows "os_exec prog (Reap (pid x)) (two_os sh p g ss m k o1) = None"
proof -
  have "k = Some (pid x, stat x)" using other_process [OF assms(1,3,4)] .
  with assms(1,2,4) show ?thesis
    by (cases m) (auto simp: os_exec_def find_proc_def two_os_def two_procs_def numbers_def)
qed

definition zombie_run :: "os_act list" where
  "zombie_run = Step 5 (Some 6) # replicate 21 (Step 6 None) @ [Step 5 None]"

text \<open>C35: The child prints its ten lines in order and ends with status 1; as the parent never waits for it, it then stays in the table as a zombie that
  nobody can remove for as long as the parent runs.\<close>

theorem zombie_stays:
  assumes "p \<notin> {0, 1, sh}" "run_actions (os_exec zombie_main) as (os_start sh p g ss Z_fork) = Some s"
  shows "(\<exists>n \<le> 10. others p (out s) = zombie_lines n)
     \<and> (\<forall>x \<in> set (procs s). pid x \<noteq> p \<and> \<not> running x \<longrightarrow> stat x = Zombie (ChildExits 1) \<and> others p (out s) = zombie_lines 10
          \<and> ((\<exists>y \<in> set (procs s). pid y = p \<and> running y) \<longrightarrow> os_exec zombie_main (Reap (pid x)) s = None))"
proof -
  obtain m k o1 where s: "s = two_os sh p g ss m k o1" "zombie_inv sh p (m, k, o1)" "numbers sh p k"
    using zombie.run [OF assms] .
  have "stat x = Zombie (ChildExits 1) \<and> others p (out s) = zombie_lines 10 \<and> (runs m \<longrightarrow> os_exec zombie_main (Reap (pid x)) s = None)"
    if x: "x \<in> set (procs s)" "pid x \<noteq> p" "\<not> running x" for x
  proof -
    have "k = Some (pid x, stat x)" using other_process [OF s(3)] x s(1) by blast
    moreover obtain e where "stat x = Zombie e" using x(3) by (cases "stat x") (auto simp: running.simps)
    ultimately have "stat x = Zombie (ChildExits 1)" "others p o1 = zombie_lines 10"
      using s(2) by (auto simp: zombie_inv_def)
    with reap_blocked [OF s(3) _ x(1) [unfolded s(1)] x(2), of zombie_main] show ?thesis unfolding s(1) by simp
  qed
  moreover have "\<exists>n \<le> 10. others p (out s) = zombie_lines n" using s(1,2) by (auto simp: zombie_inv_def)
  moreover have "(\<exists>y \<in> set (procs s). pid y = p \<and> running y) \<longleftrightarrow> runs m" using main_running [OF s(3), of g ss m o1] s(1) by simp
  ultimately show ?thesis by simp
qed

theorem zombie_stays_witness:
  "\<exists>s :: zombie_pc os. run_actions (os_exec zombie_main) zombie_run (os_start 2 5 5 2 Z_fork) = Some s
     \<and> map (\<lambda>x. (pid x, running x)) (procs s) = [(6, False), (5, True)]
     \<and> others 5 (out s) = zombie_lines 10 \<and> os_exec zombie_main (Reap 6) s = None"
proof -
  have "map_option (\<lambda>s. map (\<lambda>x. (pid x, running x)) (procs s)) (run_actions (os_exec zombie_main) zombie_run (os_start 2 5 5 2 Z_fork))
      = Some [(6, False), (5, True)]"
    by code_simp
  then obtain s :: "zombie_pc os" where s: "run_actions (os_exec zombie_main) zombie_run (os_start 2 5 5 2 Z_fork) = Some s"
      "map (\<lambda>x. (pid x, running x)) (procs s) = [(6, False), (5, True)]"
    by auto
  then obtain x y where x: "procs s = [x, y]" "pid x = 6" "\<not> running x" "pid y = 5" "running y" by auto
  have "x \<in> set (procs s)" "\<exists>y \<in> set (procs s). pid y = 5 \<and> running y" "pid x \<noteq> 5" using x by simp_all
  moreover have "(5 :: nat) \<notin> {0, 1, 2}" by simp
  ultimately have "others 5 (out s) = zombie_lines 10 \<and> os_exec zombie_main (Reap (pid x)) s = None"
    using bspec [OF conjunct2 [OF zombie_stays [OF _ s(1)]]] x(3) by blast
  then have "others 5 (out s) = zombie_lines 10" "os_exec zombie_main (Reap 6) s = None" by (simp_all add: x(2))
  then show ?thesis by (intro exI [of _ s] conjI s)
qed

subsection \<open>1\_kill.c\<close>







subsection \<open>3\_fork.c\<close>

definition son_line :: "nat \<Rightarrow> nat \<Rightarrow> pline" where
  "son_line q p = Line (''son:'' @ [CHR 0x09] @ '' pid = %d, ppid = %d'') [int q, int p]"

definition par_line :: "nat \<Rightarrow> nat \<Rightarrow> pline" where
  "par_line p q = Line (''parent:'' @ [CHR 0x09] @ '' pid = %d, cpid = %d'') [int p, int q]"

definition both_pcs :: "nat \<Rightarrow> nat \<Rightarrow> both_pc \<Rightarrow> both_pc \<Rightarrow> bool" where
  "both_pcs p q a b \<longleftrightarrow> a \<in> {Par_pid (int q), Par_print p (int q), Par_sleep (int q)} \<and> b \<in> {Son_pid, Son_ppid q, Son_print q p, Son_sleep}"

definition both_inv :: "nat \<Rightarrow> nat \<Rightarrow> both_pc duo \<Rightarrow> bool" where
  "both_inv sh p d \<longleftrightarrow>
     (case d of (m, k, o1) \<Rightarrow>
        (case k of
           None \<Rightarrow> o1 = [] \<and> (\<forall>pc. m = Some (Run pc) \<longrightarrow> pc \<in> {B_fork, B_failed})
         | Some (q, st) \<Rightarrow> (\<exists>a b. m = Some (Run a) \<and> st = Run b \<and> both_pcs p q a b)
              \<and> set o1 \<subseteq> {(p, par_line p q), (q, son_line q p)}))"

lemma both_step:
  assumes "both_inv sh p d" "two_step both_main sh p g ss d d'" "numbers sh p (fst (snd d))"
  shows "both_inv sh p d'"
  using assms(2,1,3)
proof cases
  case (main_call pc pc' ls k o1)
  then show ?thesis using assms(1) by (cases pc) (auto simp: both_inv_def both_pcs_def par_line_def split: option.splits)
next
  case (main_fork_fails pc f k o1)
  then show ?thesis using assms(1) by (cases pc) (auto simp: both_inv_def both_pcs_def split: option.splits)
next
  case (main_forks pc f q o1)
  then show ?thesis using assms(1) by (cases pc) (auto simp: both_inv_def both_pcs_def)
next
  case (main_exits pc e k o1)
  then show ?thesis using assms(1) by (cases pc) (auto simp: both_inv_def both_pcs_def split: option.splits)
next
  case (child_call q m pc pc' ls o1)
  then show ?thesis using assms(1,3) by (cases pc) (auto simp: both_inv_def both_pcs_def son_line_def split: option.splits)
next
  case (child_exits pc e m q o1)
  then show ?thesis using assms(1,3) by (cases pc) (auto simp: both_inv_def both_pcs_def)
next
  case (main_kills_child pc q sig pc' c o1)
  then show ?thesis using assms(1) by (cases pc) (auto simp: both_inv_def)
next
  case (main_kills_self pc sig pc' k o1)
  then show ?thesis using assms(1) by (cases pc) (auto simp: both_inv_def)
next
  case (main_kills_nobody pc q sig pc' k o1)
  then show ?thesis using assms(1) by (cases pc) (auto simp: both_inv_def)
qed (use assms in \<open>auto simp: both_inv_def split: option.splits\<close>)

interpretation both: forking_program both_main B_fork both_inv
proof
  show "forks_once both_main m k" if inv: "both_inv sh p (m, k, o1)" for sh p m k o1
    using that by (auto simp: both_inv_def both_pcs_def forks_once_def split: option.splits)
  show "both_inv sh p (Some (Run B_fork), None, [])" for sh p by (auto simp: both_inv_def)
qed (rule both_step)

text \<open>Whatever runs can go on.\<close>

lemma running_enabled: "find_proc r s = Some x \<Longrightarrow> running x \<Longrightarrow> \<exists>t. os_exec prog (Step r None) s = Some t"
  by (auto simp: os_exec_def running.simps syscall_step_def do_fork_def split: pstat.splits syscall.splits)

definition both_run :: "os_act list" where
  "both_run = [Step 5 (Some 6), Step 5 None, Step 5 None, Step 6 None, Step 6 None, Step 6 None]"

text \<open>Parent and child of \<^verbatim>\<open>3_fork.c\<close> run for ever once the fork has succeeded, each can take the next step in every state, and they name each other: all
  lines of the child give its number and the parent's, all lines of the parent its own and the child's.\<close>

theorem fork_both_forever:
  assumes "p \<notin> {0, 1, sh}" "run_actions (os_exec both_main) as (os_start sh p g ss B_fork) = Some s" "x \<in> set (procs s)" "pid x \<noteq> p"
  shows "running x \<and> set (out s) \<subseteq> {(p, par_line p (pid x)), (pid x, son_line (pid x) p)}
     \<and> (\<exists>t. os_exec both_main (Step p None) s = Some t) \<and> (\<exists>t. os_exec both_main (Step (pid x) None) s = Some t)"
proof -
  obtain m k o1 where s: "s = two_os sh p g ss m k o1" "both_inv sh p (m, k, o1)" "numbers sh p k"
    using both.run [OF assms(1,2)] .
  have k: "k = Some (pid x, stat x)" using other_process [OF s(3)] assms(3,4) s(1) by blast
  with s(2) obtain a b where m: "m = Some (Run a)" "stat x = Run b" by (auto simp: both_inv_def)
  with k s(1) assms(4) have "find_proc p s = Some \<lparr>pid = p, ppid = sh, pgrp = g, psid = ss, stat = Run a\<rparr>"
    "find_proc (pid x) s = Some \<lparr>pid = pid x, ppid = p, pgrp = g, psid = ss, stat = Run b\<rparr>"
    by (auto simp: find_proc_def two_os_def two_procs_def)
  then have "\<exists>t. os_exec both_main (Step p None) s = Some t" "\<exists>t. os_exec both_main (Step (pid x) None) s = Some t"
    by (auto intro!: running_enabled simp: running.simps)
  with s k m show ?thesis by (auto simp: both_inv_def running.simps two_os_def)
qed

theorem fork_both_forever_witness:
  "\<exists>s :: both_pc os. run_actions (os_exec both_main) both_run (os_start 2 5 5 2 B_fork) = Some s
     \<and> list_all running (procs s) \<and> out s = [(5, par_line 5 6), (6, son_line 6 5)]"
proof -
  have "map_option (\<lambda>s. (map pid (procs s), out s)) (run_actions (os_exec both_main) both_run (os_start 2 5 5 2 B_fork))
      = Some ([6, 5], [(5, par_line 5 6), (6, son_line 6 5)])"
    by code_simp
  then obtain s :: "both_pc os" where s: "run_actions (os_exec both_main) both_run (os_start 2 5 5 2 B_fork) = Some s"
      "map pid (procs s) = [6, 5]" "out s = [(5, par_line 5 6), (6, son_line 6 5)]"
    by auto
  then obtain x y where x: "procs s = [x, y]" "pid x = 6" "pid y = 5" by auto
  with fork_both_forever [of 5 2 both_run 5 2 s x] s(1) have "running x" "\<exists>t. os_exec both_main (Step 5 None) s = Some t" by auto
  then have "running y" using x by (auto simp: os_exec_def find_proc_def running.simps split: pstat.splits)
  with s x \<open>running x\<close> show ?thesis by simp
qed

subsection \<open>2\_raise.c and 3\_abort.c\<close>

definition work_lines :: "byte list \<Rightarrow> nat \<Rightarrow> pline list" where
  "work_lines f n = map (\<lambda>i. Line f [int i]) [0..<n]"

lemma work_lines_simps: "work_lines f 0 = []" "work_lines f n @ [Line f [int n]] = work_lines f (Suc n)"
  by (simp_all add: work_lines_def)

fun work_at :: "byte list \<Rightarrow> nat \<Rightarrow> nat \<Rightarrow> work_pc pstat option \<Rightarrow> pline list \<Rightarrow> bool" where
  "work_at f sig p (Some (Run (W_print i))) ls \<longleftrightarrow> i \<le> 4 \<and> ls = work_lines f i"
| "work_at f sig p (Some (Run (W_test i))) ls \<longleftrightarrow> i \<le> 4 \<and> ls = work_lines f (Suc i)"
| "work_at f sig p (Some (Run (W_kill i n))) ls \<longleftrightarrow> n = p \<and> ls = work_lines f 5"
| "work_at f sig p (Some (Run (W_next i))) ls \<longleftrightarrow> False"
| "work_at f sig p (Some (Zombie e)) ls \<longleftrightarrow> e = ChildKilled sig \<and> ls = work_lines f 5"
| "work_at f sig p None ls \<longleftrightarrow> ls = work_lines f 5"

lemma work_at_lines: "work_at f sig p m ls \<Longrightarrow> \<exists>n \<le> 5. ls = work_lines f n"
proof (induction f sig p m ls rule: work_at.induct)
  case (1 f sig p i ls)
  then show ?case by (intro exI [of _ i]) simp
next
  case (2 f sig p i ls)
  then show ?case by (intro exI [of _ "Suc i"]) simp
qed auto

definition work_inv :: "byte list \<Rightarrow> nat \<Rightarrow> nat \<Rightarrow> nat \<Rightarrow> work_pc duo \<Rightarrow> bool" where
  "work_inv f sig sh p d \<longleftrightarrow> (case d of (m, k, o1) \<Rightarrow> k = None \<and> map (Pair p \<circ> snd) o1 = o1 \<and> work_at f sig p m (map snd o1))"

lemma work_step:
  assumes "work_inv f sig sh p d" "two_step (work_main f sig) sh p g ss d d'" "numbers sh p (fst (snd d))"
  shows "work_inv f sig sh p d'"
  using assms(2,1)
proof cases
  case (main_call pc pc' ls k o1)
  then show ?thesis using assms(1) by (cases pc) (auto simp: work_inv_def work_lines_simps split: if_splits)
next
  case (main_fork_fails pc h k o1)
  then show ?thesis by (cases pc) (auto split: if_splits)
next
  case (main_forks pc h q o1)
  then show ?thesis by (cases pc) (auto split: if_splits)
next
  case (main_exits pc e k o1)
  then show ?thesis by (cases pc) (auto split: if_splits)
next
  case (main_kills_self pc sig' pc' k o1)
  then show ?thesis using assms(1) by (cases pc) (auto simp: work_inv_def split: if_splits)
next
  case (main_kills_nobody pc q sig' pc' k o1)
  then show ?thesis using assms(1) by (cases pc) (auto simp: work_inv_def split: if_splits)
qed (use assms in \<open>auto simp: work_inv_def\<close>)

interpretation worker: forking_program "work_main f sig" "W_print 0" "work_inv f sig" for f sig
proof
  show "forks_once (work_main f sig) m k" if inv: "work_inv f sig sh p (m, k, o1)" for sh p m k o1
  proof -
    have "work_main f sig pc \<noteq> Setsid h \<and> k = None" for pc h
      using inv by (cases pc) (auto simp: work_inv_def)
    then show ?thesis by (simp add: forks_once_def)
  qed
  show "work_inv f sig sh p (Some (Run (W_print 0)), None, [])" for sh p by (simp add: work_inv_def work_lines_simps)
qed (rule work_step)

definition work_run :: "os_act list" where
  "work_run = replicate 11 (Step 5 None)"

text \<open>The two programs print five lines and are then killed by the signal they send themselves (15 in \<^verbatim>\<open>2_raise.c\<close>, 6 in \<^verbatim>\<open>3_abort.c\<close>): no state
  shows a sixth line, and there is no other way to end.\<close>

lemma works_until_killed:
  assumes "p \<notin> {0, 1, sh}" "run_actions (os_exec (work_main f sig)) as (os_start sh p g ss (W_print 0)) = Some s"
  shows "(\<exists>n \<le> 5. out s = map (Pair p) (work_lines f n))
     \<and> (\<forall>x \<in> set (procs s). \<not> running x \<longrightarrow> stat x = Zombie (ChildKilled sig) \<and> out s = map (Pair p) (work_lines f 5))"
proof -
  obtain m k o1 where s: "s = two_os sh p g ss m k o1" "work_inv f sig sh p (m, k, o1)" "numbers sh p k"
    using worker.run [OF assms] .
  then have at: "k = None" "work_at f sig p m (map snd o1)" and o1: "o1 = map (Pair p) (map snd o1)" by (simp_all add: work_inv_def)
  have "\<exists>n \<le> 5. map snd o1 = work_lines f n"
    using at(2) by (rule work_at_lines)
  moreover have "stat x = Zombie (ChildKilled sig) \<and> map snd o1 = work_lines f 5" if "x \<in> set (procs s)" "\<not> running x" for x
    using that at s(1) by (cases m rule: runs.cases) (auto simp: two_os_def two_procs_def running.simps)
  moreover have "out s = map (Pair p) ls" if "map snd o1 = ls" for ls using o1 that s(1) by simp
  ultimately show ?thesis by blast
qed

subsection \<open>2\_session.c\<close>

text \<open>A program started as the leader of its group, as a shell starts it, cannot start a session: \<^verbatim>\<open>2_session.c\<close> then ends with status 1 and stays where
  it is. Any other process becomes the leader of a new group and a new session, which both have its number.\<close>

theorem session_needs_no_leader:
  "run_actions (os_exec session_main) (replicate 4 (Step p None)) (os_start sh p g ss S_get) =
     Some \<lparr>shell = sh,
       procs = [\<lparr>pid = p, ppid = sh, pgrp = p, psid = (if g = p then ss else p), stat = Zombie (ChildExits (if g = p then 1 else 0))\<rparr>],
       out = [(p, Line ''getsid(0)=%d'' [int ss])]\<rparr>"
  by (simp add: numeral_eq_Suc os_start_def os_exec_def find_proc_def syscall_step_def set_pc_def on_proc_def do_setsid_def end_proc_def ended_def)

end
