(* ===== verification/Stdio.thy ===== *)
theory Stdio
  imports ProcDemos
begin

section \<open>What is left in the buffer (2\_process\_c/5\_exit.c, 10\_exec.c)\<close>

text \<open>
  \<^verbatim>\<open>printf\<close> writes into a buffer of the process. On a terminal each end of line empties it, otherwise only a full buffer does; \<^verbatim>\<open>exit\<close> and a return
  from \<^verbatim>\<open>main\<close> empty it, while \<^verbatim>\<open>_Exit\<close>, a successful \<^verbatim>\<open>exec\<close> and a deadly signal throw it away. \<open>cap\<close> is its size.
\<close>

datatype bufmode = LineBuffered | FullBuffered

record ostream =
  bufmode :: bufmode
  cap :: nat
  obuf :: "byte list"
  shown :: "byte list"

definition ostream_open :: "bufmode \<Rightarrow> nat \<Rightarrow> ostream" where
  "ostream_open b n = \<lparr>bufmode = b, cap = n, obuf = [], shown = []\<rparr>"

definition fflush :: "ostream \<Rightarrow> ostream" where
  "fflush f = f\<lparr>obuf := [], shown := shown f @ obuf f\<rparr>"

definition put_char :: "ostream \<Rightarrow> byte \<Rightarrow> ostream" where
  "put_char f c =
     (let f' = f\<lparr>obuf := obuf f @ [c]\<rparr>
      in if bufmode f = LineBuffered \<and> c = CHR 0x0A \<or> length (obuf f') \<ge> cap f then fflush f' else f')"

definition put_string :: "byte list \<Rightarrow> ostream \<Rightarrow> ostream" where
  "put_string cs f = foldl put_char f cs"

text \<open>How a process ends, and what it then has shown.\<close>

datatype proc_end = Exits int | ExitsNow int | Becomes "byte list list" | Dies nat

fun end_stream :: "proc_end \<Rightarrow> ostream \<Rightarrow> byte list" where
  "end_stream (Exits e) f = shown (fflush f)"
| "end_stream _ f = shown f"

definition hello_exit_main :: "ostream \<Rightarrow> byte list \<times> proc_end" where
  "hello_exit_main f =
     (let f = put_string ''hello world'' f;
          e = ExitsNow 0
      in (end_stream e f, e))"

text \<open>\<open>ok\<close>: whether there is an \<^verbatim>\<open>ls\<close> to execute.\<close>

definition exec_main :: "bool \<Rightarrow> ostream \<Rightarrow> byte list \<times> proc_end" where
  "exec_main ok f =
     (let arg = [''ls'', ''-al'', ''/usr/local/learning/proccess_c''];
          f = put_string (''main start...'' @ [CHR 0x0A]) f
      in if ok then (end_stream (Becomes arg) f, Becomes arg)
         else (let f = put_string (''main end...'' @ [CHR 0x0A]) f;
                   e = Exits 0
               in (end_stream e f, e)))"

subsection \<open>The buffer\<close>

lemma fflush_simps [simp]: "obuf (fflush f) = []" "shown (fflush f) = shown f @ obuf f" "cap (fflush f) = cap f" "bufmode (fflush f) = bufmode f"
  by (simp_all add: fflush_def)

lemma put_char_keeps [simp]: "cap (put_char f c) = cap f" "bufmode (put_char f c) = bufmode f"
  by (simp_all add: put_char_def Let_def)

lemma put_string_simps [simp]:
  "put_string [] f = f" "put_string (c # cs) f = put_string cs (put_char f c)" "put_string (cs @ ds) f = put_string ds (put_string cs f)"
  by (simp_all add: put_string_def)

lemma put_string_keeps [simp]: "cap (put_string cs f) = cap f" "bufmode (put_string cs f) = bufmode f"
  by (induction cs arbitrary: f) simp_all

text \<open>Nothing is lost while the process runs: what it wrote is shown or in the buffer.\<close>

lemma put_string_conserves: "shown (put_string cs f) @ obuf (put_string cs f) = shown f @ obuf f @ cs"
proof (induction cs arbitrary: f)
  case (Cons c cs)
  have "shown (put_char f c) @ obuf (put_char f c) = shown f @ obuf f @ [c]" by (simp add: put_char_def Let_def)
  with Cons show ?case by (metis append.assoc append_Cons append_Nil put_string_simps(2))
qed simp

lemma put_string_buffer_small: "cap f > 0 \<Longrightarrow> length (obuf f) < cap f \<Longrightarrow> length (obuf (put_string cs f)) < cap f"
proof (induction cs arbitrary: f)
  case (Cons c cs)
  have "length (obuf (put_char f c)) < cap f" using Cons.prems by (auto simp: put_char_def Let_def)
  with Cons.IH [of "put_char f c"] Cons.prems(1) show ?case by simp
qed simp

text \<open>What ends with a normal exit is complete.\<close>

lemma exit_shows_all: "end_stream (Exits e) (put_string cs f) = shown f @ obuf f @ cs"
  by (simp add: put_string_conserves)

text \<open>A text with no line end, or written to a file, that fits stays in the buffer.\<close>

lemma put_string_stays:
  assumes "bufmode f = LineBuffered \<longrightarrow> CHR 0x0A \<notin> set cs" "length (obuf f) + length cs < cap f"
  shows "put_string cs f = f\<lparr>obuf := obuf f @ cs\<rparr>"
  using assms by (induction cs arbitrary: f) (auto simp: put_char_def Let_def)

lemma put_line_shown:
  assumes "bufmode f = LineBuffered" "CHR 0x0A \<notin> set cs" "length (obuf f) + length cs < cap f"
  shows "put_string (cs @ [CHR 0x0A]) f = f\<lparr>obuf := [], shown := shown f @ obuf f @ cs @ [CHR 0x0A]\<rparr>"
proof -
  have "put_string cs f = f\<lparr>obuf := obuf f @ cs\<rparr>" using assms by (intro put_string_stays) auto
  with assms(1) show ?thesis by (simp add: put_char_def fflush_def Let_def)
qed

subsection \<open>The programs\<close>

text \<open>\<^verbatim>\<open>5_exit.c\<close> shows nothing, wherever its output goes: its greeting has no line end and \<^verbatim>\<open>_Exit\<close> drops the buffer. With the \<^verbatim>\<open>exit(0)\<close> or the
  \<^verbatim>\<open>return 0\<close> that it has in comments it would be shown.\<close>

theorem hello_is_lost:
  assumes "11 < n"
  shows "hello_exit_main (ostream_open b n) = ([], ExitsNow 0)
    \<and> end_stream (Exits 0) (put_string ''hello world'' (ostream_open b n)) = ''hello world''"
proof
  have "put_string ''hello world'' (ostream_open b n) = (ostream_open b n)\<lparr>obuf := ''hello world''\<rparr>"
    using assms put_string_stays [of "ostream_open b n" "''hello world''"] by (simp add: ostream_open_def del: put_string_simps)
  then show "hello_exit_main (ostream_open b n) = ([], ExitsNow 0)"
    by (simp add: hello_exit_main_def ostream_open_def del: put_string_simps)
qed (use exit_shows_all [of 0 "''hello world''" "ostream_open b n"] in \<open>simp add: ostream_open_def del: put_string_simps\<close>)

theorem hello_is_lost_witness: "hello_exit_main (ostream_open LineBuffered 1024) = ([], ExitsNow 0)"
  using hello_is_lost [of 1024 LineBuffered] by simp

subsection \<open>Processes that are killed\<close>

text \<open>What the lines of \<open>ProcTable\<close> look like: each \<^verbatim>\<open>%d\<close> is one of the numbers.\<close>

fun render :: "byte list \<Rightarrow> int list \<Rightarrow> byte list" where
  "render (c # d # cs) (n # ns) =
     (if c = CHR ''%'' \<and> d = CHR ''d'' then show_int n @ render cs ns
      else c # render (d # cs) (n # ns))"
| "render cs ns = cs"

fun line_text :: "pline \<Rightarrow> byte list" where
  "line_text (Line f ns) = render f ns @ [CHR 0x0A]"

definition lines_text :: "pline list \<Rightarrow> byte list" where
  "lines_text ls = concat (map line_text ls)"

lemma newline_not_rendered: "CHR 0x0A \<notin> set f \<Longrightarrow> CHR 0x0A \<notin> set (render f ns)"
proof (induction f ns rule: render.induct)
  case (1 c d cs n ns)
  then show ?case by auto
qed simp_all

lemma terminal_shows_lines:
  assumes "bufmode f = LineBuffered" "obuf f = []" "length (lines_text ls) < cap f"
    "list_all (\<lambda>l. case l of Line g ns \<Rightarrow> CHR 0x0A \<notin> set g) ls"
  shows "put_string (lines_text ls) f = f\<lparr>shown := shown f @ lines_text ls\<rparr>"
  using assms
proof (induction ls arbitrary: f)
  case (Cons l ls)
  obtain g ns where l: "l = Line g ns" by (cases l)
  have "put_string (render g ns @ [CHR 0x0A]) f = f\<lparr>shown := shown f @ render g ns @ [CHR 0x0A]\<rparr>"
    using Cons.prems l newline_not_rendered [of g ns]
    by (subst put_line_shown) (simp_all add: lines_text_def)
  moreover have "lines_text (l # ls) = (render g ns @ [CHR 0x0A]) @ lines_text ls" by (simp add: l lines_text_def)
  ultimately show ?case
    using Cons.prems l Cons.IH [of "f\<lparr>shown := shown f @ render g ns @ [CHR 0x0A]\<rparr>"]
    by (simp only: put_string_simps(3)) (simp add: lines_text_def)
qed (simp add: lines_text_def)

text \<open>A program of the kind of \<^verbatim>\<open>2_raise.c\<close> and \<^verbatim>\<open>3_abort.c\<close> ends only by the signal it sends itself, after five lines. They are all shown on a terminal, and
  none of them when the output goes to a file or a pipe, because the signal throws the buffer away.\<close>

theorem killed_work_shown:
  assumes "p \<notin> {0, 1, sh}" "run_actions (os_exec (work_main f sig)) as (os_start sh p g ss (W_print 0)) = Some s"
    "x \<in> set (procs s)" "\<not> running x" "length (lines_text (work_lines f 5)) < n" "CHR 0x0A \<notin> set f"
  shows "stat x = Zombie (ChildKilled sig)
    \<and> end_stream (Dies sig) (put_string (lines_text (map snd (out s))) (ostream_open b n)) = (if b = LineBuffered then lines_text (work_lines f 5) else [])"
proof -
  have o1: "map snd (out s) = work_lines f 5" and x: "stat x = Zombie (ChildKilled sig)"
    using works_until_killed [OF assms(1,2)] assms(3,4) by (auto simp: comp_def)
  have "list_all (\<lambda>l. case l of Line g ns \<Rightarrow> CHR 0x0A \<notin> set g) (work_lines f 5)"
    using assms(6) by (simp add: list_all_iff work_lines_def)
  with assms(5) have "shown (put_string (lines_text (work_lines f 5)) (ostream_open b n)) = (if b = LineBuffered then lines_text (work_lines f 5) else [])"
    using terminal_shows_lines [of "ostream_open b n" "work_lines f 5"] put_string_stays [of "ostream_open b n" "lines_text (work_lines f 5)"]
    by (cases b) (simp_all add: ostream_open_def)
  with x show ?thesis by (simp add: o1)
qed

theorem killed_work_shown_witness:
  "\<exists>s :: work_pc os. run_actions (os_exec raise_main) work_run (os_start 2 5 5 2 (W_print 0)) = Some s
     \<and> map stat (procs s) = [Zombie (ChildKilled 15)]
     \<and> end_stream (Dies 15) (put_string (lines_text (map snd (out s))) (ostream_open FullBuffered 4096)) = []"
proof -
  have "map_option (\<lambda>s. map stat (procs s)) (run_actions (os_exec raise_main) work_run (os_start 2 5 5 2 (W_print 0)))
      = Some [Zombie (ChildKilled 15)]"
    by code_simp
  then obtain s :: "work_pc os" where s: "run_actions (os_exec raise_main) work_run (os_start 2 5 5 2 (W_print 0)) = Some s"
      "map stat (procs s) = [Zombie (ChildKilled 15)]"
    by auto
  then obtain x where x: "x \<in> set (procs s)" "\<not> running x" by (cases "procs s") (auto simp: running.simps)
  have "length (lines_text (work_lines ''do working i: %d'' 5)) < 4096" by code_simp
  with killed_work_shown [of 5 2 "''do working i: %d''" 15 _ 5 2 s x 4096 FullBuffered] s(1) x
  have "end_stream (Dies 15) (put_string (lines_text (map snd (out s))) (ostream_open FullBuffered 4096)) = []"
    by (simp add: raise_main_def)
  then show ?thesis by (intro exI [of _ s] conjI s)
qed

subsection \<open>10\_exec.c\<close>

text \<open>\<^verbatim>\<open>10_exec.c\<close> becomes \<^verbatim>\<open>ls\<close>, and its first line is shown only on a terminal; without an \<^verbatim>\<open>ls\<close> both of its lines are shown everywhere and it
  returns 0, as if nothing had failed.\<close>

theorem exec_outcome:
  assumes "14 < n"
  shows "exec_main ok (ostream_open b n) =
    (if ok then (if b = LineBuffered then ''main start...'' @ [CHR 0x0A] else [], Becomes [''ls'', ''-al'', ''/usr/local/learning/proccess_c''])
     else (''main start...'' @ [CHR 0x0A] @ ''main end...'' @ [CHR 0x0A], Exits 0))"
proof (cases ok)
  case True
  have "shown (put_string (''main start...'' @ [CHR 0x0A]) (ostream_open b n)) = (if b = LineBuffered then ''main start...'' @ [CHR 0x0A] else [])"
  proof (cases b)
    case LineBuffered
    with assms put_line_shown [of "ostream_open b n" "''main start...''"] show ?thesis
      by (simp add: ostream_open_def del: put_string_simps)
  next
    case FullBuffered
    with assms put_string_stays [of "ostream_open b n" "''main start...'' @ [CHR 0x0A]"] show ?thesis
      by (simp add: ostream_open_def del: put_string_simps)
  qed
  with True show ?thesis by (simp add: exec_main_def Let_def del: put_string_simps)
next
  case False
  have "exec_main False f = (end_stream (Exits 0) (put_string ((''main start...'' @ [CHR 0x0A]) @ ''main end...'' @ [CHR 0x0A]) f), Exits 0)" for f
    by (simp only: put_string_simps(3) exec_main_def Let_def if_False)
  with False show ?thesis by (simp only: exit_shows_all) (simp add: ostream_open_def)
qed

theorem exec_outcome_witness:
  "exec_main True (ostream_open FullBuffered 4096) = ([], Becomes [''ls'', ''-al'', ''/usr/local/learning/proccess_c''])"
  using exec_outcome [of 4096 True FullBuffered] by simp

end
