(* ===== verification/Handlers.thy ===== *)
theory Handlers
  imports Signals Processes Transition
begin

section \<open>Signal handlers and timers (4\_signal\_c/4\_alarm.c, 5\_setitimer.c, 6\_signal.c, 9\_sigaction.c)\<close>

text \<open>
  A program is again a function from its places to its calls. A signal that has arrived is pending until it is taken, which happens between any
  two steps when it is not blocked: its default action ends the process (or does nothing), a handler runs on top of what was going on, with its
  signal and the mask given to \<^verbatim>\<open>sigaction\<close> blocked until it returns. A signal that is pending already is not counted again.
\<close>

datatype hline = FromFun | FromFun1 | FromFun2 | Press      \<comment> \<open>which \<^verbatim>\<open>printf\<close>\<close>

datatype hprint = Shown hline "nat option"        \<comment> \<open>and the signal it shows\<close>

text \<open>A handler: what it prints, given its signal, and the mask of its \<^verbatim>\<open>sigaction\<close>, empty for \<^verbatim>\<open>signal\<close>.\<close>

record handler =
  hfun :: "nat \<Rightarrow> hprint"
  sa_mask :: sigset

datatype 'pc hcall =
    Install nat handler "int \<Rightarrow> 'pc"
  | Setitimer nat nat "int \<Rightarrow> 'pc"     \<comment> \<open>seconds to the first expiry and between the others\<close>
  | Say hprint 'pc
  | Getchar 'pc
  | Quit int

datatype 'pc hstat = At 'pc | Over child_end

record 'pc hproc =
  hstat :: "'pc hstat"
  table :: "nat \<rightharpoonup> handler"
  hmask :: sigset
  waiting :: sigset
  frames :: "(nat \<times> sigset \<times> bool) list"     \<comment> \<open>the handlers that run, newest first: signal, mask to restore, whether it has printed\<close>
  timer :: "(nat \<times> nat) option"
  hout :: "hprint list"

definition ignored :: sigset where
  "ignored = {17, 18, 19, 20, 21, 22, 23, 28}"    \<comment> \<open>by default a signal ends the process; these do not (some stop it for a while)\<close>

datatype hact = Arrive nat | Take nat | Print | Return | Second | Key | Call bool

definition take_signal :: "nat \<Rightarrow> 'pc hproc \<Rightarrow> 'pc hproc" where
  "take_signal g s =
     (let s' = s\<lparr>waiting := waiting s - {g}\<rparr>
      in case table s g of
           None \<Rightarrow> if g \<in> ignored then s' else s'\<lparr>hstat := Over (ChildKilled g)\<rparr>
         | Some h \<Rightarrow> s'\<lparr>hmask := hmask s \<union> sa_mask h \<union> {g}, frames := (g, hmask s, False) # frames s\<rparr>)"

definition second_passes :: "'pc hproc \<Rightarrow> 'pc hproc" where
  "second_passes s =
     (case timer s of
        None \<Rightarrow> s
      | Some (n, i) \<Rightarrow> if n \<le> 1 then s\<lparr>waiting := insert 14 (waiting s), timer := (if i = 0 then None else Some (i, i))\<rparr> else s\<lparr>timer := Some (n - 1, i)\<rparr>)"

definition call_step :: "'pc hcall \<Rightarrow> bool \<Rightarrow> 'pc hproc \<Rightarrow> 'pc hproc option" where
  "call_step c ok s =
     (case c of
        Install g h k \<Rightarrow> Some (if ok then s\<lparr>table := (table s)(g \<mapsto> h), hstat := At (k 0)\<rparr> else s\<lparr>hstat := At (k (-1))\<rparr>)
      | Setitimer n i k \<Rightarrow> Some (if ok then s\<lparr>timer := (if n = 0 then None else Some (n, i)), hstat := At (k 0)\<rparr> else s\<lparr>hstat := At (k (-1))\<rparr>)
      | Say l pc \<Rightarrow> Some (s\<lparr>hout := hout s @ [l], hstat := At pc\<rparr>)
      | Getchar pc \<Rightarrow> None
      | Quit e \<Rightarrow> Some (s\<lparr>hstat := Over (ChildExits e)\<rparr>))"

text \<open>\<open>Call ok\<close>: the call of \<^verbatim>\<open>main\<close>, which succeeds or fails; \<open>Key\<close>: \<^verbatim>\<open>getchar\<close> returns, with a key or at the end of the input.\<close>

definition hexec :: "('pc \<Rightarrow> 'pc hcall) \<Rightarrow> hact \<Rightarrow> 'pc hproc \<Rightarrow> 'pc hproc option" where
  "hexec prog a s =
     (case hstat s of
        Over e \<Rightarrow> None
      | At pc \<Rightarrow>
          (case a of
             Arrive g \<Rightarrow> Some (s\<lparr>waiting := insert g (waiting s)\<rparr>)
           | Take g \<Rightarrow> if g \<in> waiting s \<and> g \<notin> hmask s then Some (take_signal g s) else None
           | Print \<Rightarrow>
               (case frames s of
                  (g, m, False) # fs \<Rightarrow>
                    (case table s g of None \<Rightarrow> None | Some h \<Rightarrow> Some (s\<lparr>hout := hout s @ [hfun h g], frames := (g, m, True) # fs\<rparr>))
                | _ \<Rightarrow> None)
           | Return \<Rightarrow> (case frames s of (g, m, True) # fs \<Rightarrow> Some (s\<lparr>hmask := m, frames := fs\<rparr>) | _ \<Rightarrow> None)
           | Second \<Rightarrow> Some (second_passes s)
           | Key \<Rightarrow> if frames s = [] then (case prog pc of Getchar pc' \<Rightarrow> Some (s\<lparr>hstat := At pc'\<rparr>) | _ \<Rightarrow> None) else None
           | Call ok \<Rightarrow> if frames s = [] then call_step (prog pc) ok s else None))"

text \<open>A process starts with nothing blocked or pending, and with no handlers.\<close>

definition hstart :: "'pc \<Rightarrow> 'pc hproc" where
  "hstart pc = \<lparr>hstat = At pc, table = Map.empty, hmask = {}, waiting = {}, frames = [], timer = None, hout = []\<rparr>"

subsection \<open>The programs\<close>

text \<open>6\_signal.c\<close>

definition sig_fun1 :: "nat \<Rightarrow> hprint" where
  "sig_fun1 signum = Shown FromFun1 (Some signum)"

definition sig_fun2 :: "nat \<Rightarrow> hprint" where
  "sig_fun2 signum = Shown FromFun2 (Some signum)"

datatype two_pc = T_int | T_quit | T_loop

fun signal_main :: "two_pc \<Rightarrow> two_pc hcall" where
  "signal_main T_int = Install 2 \<lparr>hfun = sig_fun1, sa_mask = {}\<rparr> (\<lambda>_. T_quit)"
| "signal_main T_quit = Install 3 \<lparr>hfun = sig_fun2, sa_mask = {}\<rparr> (\<lambda>_. T_loop)"
| "signal_main T_loop = Getchar T_loop"

text \<open>9\_sigaction.c: \<open>m\<close> is what happens to be in \<^verbatim>\<open>act.sa_mask\<close>, which is never set.\<close>

definition action_fun1 :: "nat \<Rightarrow> hprint" where
  "action_fun1 signum = Shown FromFun1 None"

datatype action_pc = Act_install | Act_failed | Act_loop

fun sigaction_main :: "sigset \<Rightarrow> action_pc \<Rightarrow> action_pc hcall" where
  "sigaction_main m Act_install = Install 2 \<lparr>hfun = action_fun1, sa_mask = m\<rparr> (\<lambda>r. if -1 = r then Act_failed else Act_loop)"
| "sigaction_main m Act_failed = Quit 1"
| "sigaction_main m Act_loop = Getchar Act_loop"

text \<open>5\_setitimer.c\<close>

definition timer_fun :: "nat \<Rightarrow> hprint" where
  "timer_fun signum = Shown FromFun (Some signum)"

datatype timer_pc = I_signal | I_set | I_failed | I_say | I_wait | I_return

fun setitimer_main :: "timer_pc \<Rightarrow> timer_pc hcall" where
  "setitimer_main I_signal = Install 14 \<lparr>hfun = timer_fun, sa_mask = {}\<rparr> (\<lambda>_. I_set)"
| "setitimer_main I_set = Setitimer 2 1 (\<lambda>r. if -1 = r then I_failed else I_say)"
| "setitimer_main I_failed = Quit 1"
| "setitimer_main I_say = Say (Shown Press None) I_wait"
| "setitimer_main I_wait = Getchar I_return"
| "setitimer_main I_return = Quit 0"

text \<open>4\_alarm.c, with the second in which each call is made. \<^verbatim>\<open>alarm\<close> returns what was left of the timer it replaces. \<open>n\<close>: the seconds that go by in the
  process's \<^verbatim>\<open>sleep\<close>, at least those asked for unless the alarm comes before.\<close>

record alarm_state =
  now :: nat
  due :: "nat option"

definition alarm :: "nat \<Rightarrow> alarm_state \<Rightarrow> nat \<times> alarm_state" where
  "alarm n s =
     (case due s of None \<Rightarrow> 0 | Some t \<Rightarrow> t - now s, s\<lparr>due := (if n = 0 then None else Some (now s + n))\<rparr>)"

text \<open>The process goes on for \<open>n\<close> seconds, or is ended by its alarm.\<close>

definition pass :: "nat \<Rightarrow> alarm_state \<Rightarrow> alarm_state option" where
  "pass n s =
     (case due s of
        None \<Rightarrow> Some (s\<lparr>now := now s + n\<rparr>)
      | Some t \<Rightarrow> if t \<le> now s + n then None else Some (s\<lparr>now := now s + n\<rparr>))"

definition alarm_main :: "nat \<Rightarrow> nat \<Rightarrow> alarm_state \<Rightarrow> nat list \<times> child_end" where
  "alarm_main n late s =
     (let (ret, s) = alarm 5 s; out1 = [ret]
      in case pass n s of
           None \<Rightarrow> (out1, ChildKilled 14)
         | Some s \<Rightarrow>
             (let (ret, s) = alarm 2 s; out2 = out1 @ [ret]
              in case pass late s of None \<Rightarrow> (out2, ChildKilled 14) | Some s \<Rightarrow> (out2, ChildExits 0)))"

subsection \<open>Handlers are nested, never in themselves\<close>

fun mask_chain :: "(nat \<rightharpoonup> handler) \<Rightarrow> sigset \<Rightarrow> (nat \<times> sigset \<times> bool) list \<Rightarrow> bool" where
  "mask_chain tab m [] \<longleftrightarrow> m = {}"
| "mask_chain tab m ((g, m0, b) # fs) \<longleftrightarrow>
     g \<notin> m0 \<and> (case tab g of None \<Rightarrow> False | Some h \<Rightarrow> m = m0 \<union> sa_mask h \<union> {g}) \<and> mask_chain tab m0 fs"

definition hproc_ok :: "'pc hproc \<Rightarrow> bool" where
  "hproc_ok s \<longleftrightarrow> mask_chain (table s) (hmask s) (frames s) \<and> (\<forall>g. hstat s = Over (ChildKilled g) \<longrightarrow> table s g = None)"

lemma chain_signals: "mask_chain tab m fs \<Longrightarrow> fst ` set fs \<subseteq> m \<inter> dom tab"
proof (induction tab m fs rule: mask_chain.induct)
  case (2 tab m g m0 b fs)
  then show ?case by (cases "tab g") auto
qed simp

lemma chain_distinct: "mask_chain tab m fs \<Longrightarrow> distinct (map fst fs)"
proof (induction tab m fs rule: mask_chain.induct)
  case (2 tab m g m0 b fs)
  then have "g \<notin> fst ` set fs" "distinct (map fst fs)" using chain_signals [of tab m0 fs] by auto
  then show ?case by simp
qed simp


lemma hexecE:
  assumes "hexec prog a s = Some t"
  obtains (arrive) pc g where "hstat s = At pc" "a = Arrive g" "t = s\<lparr>waiting := insert g (waiting s)\<rparr>"
  | (ignore) pc g where "hstat s = At pc" "a = Take g" "g \<in> waiting s" "g \<notin> hmask s" "table s g = None" "g \<in> ignored"
      "t = s\<lparr>waiting := waiting s - {g}\<rparr>"
  | (die) pc g where "hstat s = At pc" "a = Take g" "g \<in> waiting s" "g \<notin> hmask s" "table s g = None" "g \<notin> ignored"
      "t = s\<lparr>waiting := waiting s - {g}, hstat := Over (ChildKilled g)\<rparr>"
  | (handle) pc g h where "hstat s = At pc" "a = Take g" "g \<in> waiting s" "g \<notin> hmask s" "table s g = Some h"
      "t = s\<lparr>waiting := waiting s - {g}, hmask := hmask s \<union> sa_mask h \<union> {g}, frames := (g, hmask s, False) # frames s\<rparr>"
  | (print) pc g m fs h where "hstat s = At pc" "a = Print" "frames s = (g, m, False) # fs" "table s g = Some h"
      "t = s\<lparr>hout := hout s @ [hfun h g], frames := (g, m, True) # fs\<rparr>"
  | (return) pc g m fs where "hstat s = At pc" "a = Return" "frames s = (g, m, True) # fs" "t = s\<lparr>hmask := m, frames := fs\<rparr>"
  | (second) pc where "hstat s = At pc" "a = Second" "t = second_passes s"
  | (key) pc pc' where "hstat s = At pc" "a = Key" "frames s = []" "prog pc = Getchar pc'" "t = s\<lparr>hstat := At pc'\<rparr>"
  | (call) pc ok where "hstat s = At pc" "a = Call ok" "frames s = []" "call_step (prog pc) ok s = Some t"
  using assms
  by (cases a) (auto simp: hexec_def take_signal_def Let_def split: hstat.splits list.splits bool.splits option.splits if_splits hcall.splits)

lemma second_keeps [simp]:
  "table (second_passes s) = table s" "hmask (second_passes s) = hmask s" "frames (second_passes s) = frames s"
  "hstat (second_passes s) = hstat s" "hout (second_passes s) = hout s"
  by (simp_all add: second_passes_def split: option.split)

lemma hproc_ok_exec: "hproc_ok s \<Longrightarrow> hexec prog a s = Some t \<Longrightarrow> hproc_ok t"
  by (erule hexecE) (auto simp: hproc_ok_def call_step_def split: hcall.splits option.splits if_splits)





subsection \<open>Signals are joined, not lost\<close>

text \<open>How often a signal has been made pending, what became of it, and what may come of one step.\<close>

definition taken_up :: "nat \<Rightarrow> hprint \<Rightarrow> 'pc hproc \<Rightarrow> nat" where
  "taken_up g l s = count_list (hout s) l + of_bool (list_ex (\<lambda>f. fst f = g \<and> \<not> snd (snd f)) (frames s)) + of_bool (g \<in> waiting s)"

definition sends :: "nat \<Rightarrow> hact \<Rightarrow> 'pc hproc \<Rightarrow> nat" where
  "sends g a s = of_bool (a = Arrive g \<or> a = Second \<and> g = 14 \<and> (\<exists>n i. timer s = Some (n, i) \<and> n \<le> 1))"

text \<open>\<open>l\<close> is a line that only the handler of \<open>g\<close> prints.\<close>

definition own_line :: "nat \<Rightarrow> hprint \<Rightarrow> (nat \<rightharpoonup> handler) \<Rightarrow> bool" where
  "own_line g l tab \<longleftrightarrow> (\<exists>h. tab g = Some h \<and> hfun h g = l) \<and> (\<forall>g' h'. tab g' = Some h' \<longrightarrow> hfun h' g' = l \<longrightarrow> g' = g)"

definition tally :: "nat \<Rightarrow> hprint \<Rightarrow> nat \<Rightarrow> 'pc hproc \<Rightarrow> bool" where
  "tally g l n s \<longleftrightarrow> taken_up g l s \<le> n \<and> (0 < n \<longrightarrow> 0 < taken_up g l s)"

lemma tally_exec:
  assumes "hexec prog a s = Some t" "hproc_ok s" "own_line g l (table s)" "table t = table s" "tally g l n s"
    "\<And>k pc. hstat s = At pc \<Longrightarrow> prog pc \<noteq> Say l k"
  shows "tally g l (n + sends g a s) t"
  using assms(1)
proof (cases rule: hexecE)
  case (handle pc g' h)
  have "\<not> list_ex (\<lambda>f. fst f = g \<and> \<not> snd (snd f)) (frames s)" if "g' = g"
    using assms(2) chain_signals [of "table s" "hmask s" "frames s"] handle(4) that by (auto simp: hproc_ok_def list_ex_iff)
  with handle assms(5) show ?thesis by (auto simp: tally_def taken_up_def sends_def)
next
  case (print pc g' m fs h)
  have "g' \<notin> fst ` set fs" using assms(2) chain_distinct [of "table s" "hmask s" "frames s"] print(3) by (simp add: hproc_ok_def)
  then have "\<not> list_ex (\<lambda>f. fst f = g' \<and> \<not> snd (snd f)) fs" by (auto simp: list_ex_iff)
  moreover have "hfun h g' = l \<longleftrightarrow> g' = g" using assms(3) print(4) by (auto simp: own_line_def)
  ultimately show ?thesis using print assms(5) by (cases "g' = g") (auto simp: tally_def taken_up_def sends_def)
next
  case (die pc g')
  then have "g' \<noteq> g" using assms(3) by (auto simp: own_line_def)
  with die assms(5) show ?thesis by (auto simp: tally_def taken_up_def sends_def)
next
  case (ignore pc g')
  then have "g' \<noteq> g" using assms(3) by (auto simp: own_line_def)
  with ignore assms(5) show ?thesis by (auto simp: tally_def taken_up_def sends_def)
next
  case (second pc)
  with assms(5) show ?thesis
    by (auto simp: tally_def taken_up_def sends_def second_passes_def split: option.splits if_splits)
next
  case (call pc ok)
  with assms(4-6) show ?thesis
    by (auto simp: tally_def taken_up_def sends_def call_step_def split: hcall.splits if_splits)
qed (use assms(5) in \<open>auto simp: tally_def taken_up_def sends_def\<close>)

text \<open>A program that waits for keys for ever, all its handlers installed.\<close>

definition waits :: "('pc \<Rightarrow> 'pc hcall) \<Rightarrow> 'pc \<Rightarrow> 'pc hproc \<Rightarrow> bool" where
  "waits prog pc s \<longleftrightarrow> hproc_ok s \<and> timer s = None \<and> (\<forall>pc'. hstat s = At pc' \<longrightarrow> pc' = pc)"

locale waiting_program =
  fixes prog :: "'pc \<Rightarrow> 'pc hcall" and pc :: 'pc
  assumes loop: "prog pc = Getchar pc"
begin

lemma waits_exec: "waits prog pc s \<Longrightarrow> hexec prog a s = Some t \<Longrightarrow> waits prog pc t \<and> table t = table s"
proof
  assume w: "waits prog pc s" and e: "hexec prog a s = Some t"
  have "hproc_ok t" using w e hproc_ok_exec by (auto simp: waits_def)
  with e show "waits prog pc t" using w loop
    by (cases rule: hexecE) (auto simp: waits_def second_passes_def call_step_def)
  from e show "table t = table s" using w loop by (cases rule: hexecE) (auto simp: waits_def call_step_def)
qed

text \<open>It ends only by a signal that it has no handler for.\<close>

lemma waits_run: "run_actions (hexec prog) as s = Some t \<Longrightarrow> waits prog pc s \<Longrightarrow> waits prog pc t \<and> table t = table s"
proof (induction as arbitrary: s)
  case (Cons a as)
  then obtain u where u: "hexec prog a s = Some u" "run_actions (hexec prog) as u = Some t" by (auto split: option.splits)
  from waits_exec [OF Cons.prems(2) u(1)] Cons.IH [OF u(2)] show ?case by simp
qed simp

lemma stays_up:
  "run_actions (hexec prog) as s = Some t \<Longrightarrow> waits prog pc s \<Longrightarrow> hstat s = At pc \<Longrightarrow> waiting s \<union> {g. Arrive g \<in> set as} \<subseteq> dom (table s) \<union> ignored \<Longrightarrow>
     hstat t = At pc"
proof (induction as arbitrary: s)
  case (Cons a as)
  then obtain u where u: "hexec prog a s = Some u" "run_actions (hexec prog) as u = Some t" by (auto split: option.splits)
  have w: "waits prog pc u" "table u = table s" using waits_exec [OF Cons.prems(2) u(1)] by auto
  have "hstat u = At pc \<and> waiting u \<subseteq> waiting s \<union> {g. Arrive g \<in> set (a # as)}"
    using u(1) Cons.prems(2-4) loop
    by (cases rule: hexecE) (auto simp: waits_def second_passes_def call_step_def dom_def)
  then have "hstat u = At pc" "waiting u \<union> {g. Arrive g \<in> set as} \<subseteq> dom (table u) \<union> ignored" using Cons.prems(4) w(2) by auto
  with Cons.IH [OF u(2) w(1)] show ?case by simp
qed simp

text \<open>Of the arrivals of a signal at least one, and each at most once, is shown, waits for its turn or is being handled.\<close>

lemma tally_run:
  "run_actions (hexec prog) as s = Some t \<Longrightarrow> waits prog pc s \<Longrightarrow> own_line g l (table s) \<Longrightarrow> tally g l n s \<Longrightarrow>
     tally g l (n + count_list as (Arrive g)) t"
proof (induction as arbitrary: s n)
  case (Cons a as)
  then obtain u where u: "hexec prog a s = Some u" "run_actions (hexec prog) as u = Some t" by (auto split: option.splits)
  have w: "waits prog pc u" "table u = table s" using waits_exec [OF Cons.prems(2) u(1)] by auto
  have "prog pc' \<noteq> Say l k" if "hstat s = At pc'" for k pc' using that Cons.prems(2) loop by (simp add: waits_def)
  with tally_exec [OF u(1) _ Cons.prems(3) w(2) Cons.prems(4)] Cons.prems(2) have "tally g l (n + sends g a s) u"
    by (simp add: waits_def)
  moreover have "sends g a s = of_bool (a = Arrive g)" using Cons.prems(2) by (simp add: sends_def waits_def)
  ultimately show ?case using Cons.IH [OF u(2) w(1), of "n + of_bool (a = Arrive g)"] Cons.prems(3) w(2) by (auto split: if_splits)
qed simp

end


interpretation one_handler: waiting_program "sigaction_main m" Act_loop for m
  by unfold_locales simp

text \<open>The programs when their handlers are installed.\<close>

definition signal_ready :: "two_pc hproc" where
  "signal_ready = (hstart T_loop)\<lparr>table := [2 \<mapsto> \<lparr>hfun = sig_fun1, sa_mask = {}\<rparr>, 3 \<mapsto> \<lparr>hfun = sig_fun2, sa_mask = {}\<rparr>]\<rparr>"

definition sigaction_ready :: "sigset \<Rightarrow> action_pc hproc" where
  "sigaction_ready m = (hstart Act_loop)\<lparr>table := [2 \<mapsto> \<lparr>hfun = action_fun1, sa_mask = m\<rparr>]\<rparr>"


lemma ready_waits: "waits signal_main T_loop signal_ready" "waits (sigaction_main m) Act_loop (sigaction_ready m)"
  by (simp_all add: waits_def hproc_ok_def hstart_def signal_ready_def sigaction_ready_def)

definition answered :: "nat \<Rightarrow> hprint \<Rightarrow> hact list \<Rightarrow> 'pc hproc \<Rightarrow> bool" where
  "answered g l as s \<longleftrightarrow> count_list (hout s) l \<le> count_list as (Arrive g)
     \<and> (Arrive g \<in> set as \<and> frames s = [] \<and> g \<notin> waiting s \<longrightarrow> l \<in> set (hout s))"

lemma tally_start: "hout s = [] \<Longrightarrow> frames s = [] \<Longrightarrow> waiting s = {} \<Longrightarrow> tally g l 0 s"
  by (simp add: tally_def taken_up_def)

lemma tally_answered: "tally g l (count_list as (Arrive g)) s \<Longrightarrow> answered g l as s"
  by (auto simp: tally_def taken_up_def answered_def count_list_0_iff dest: count_notin intro: ccontr)




text \<open>The same of \<^verbatim>\<open>9_sigaction.c\<close>, whatever is in the mask that it does not set.\<close>

lemma sigaction_program_answers:
  assumes "run_actions (hexec (sigaction_main m)) as (sigaction_ready m) = Some s" "{g. Arrive g \<in> set as} \<subseteq> {2} \<union> ignored"
  shows "hstat s = At Act_loop \<and> answered 2 (action_fun1 2) as s"
proof -
  have t: "dom (table (sigaction_ready m)) = {2}" "hstat (sigaction_ready m) = At Act_loop" "waiting (sigaction_ready m) = {}"
    "hout (sigaction_ready m) = []" "frames (sigaction_ready m) = []" by (auto simp: sigaction_ready_def hstart_def)
  have "own_line 2 (action_fun1 2) (table (sigaction_ready m))" by (auto simp: own_line_def sigaction_ready_def)
  from one_handler.tally_run [OF assms(1) ready_waits(2) this, of 0] have "tally 2 (action_fun1 2) (count_list as (Arrive 2)) s"
    using t by (simp add: tally_start)
  moreover have "hstat s = At Act_loop" using one_handler.stays_up [OF assms(1) ready_waits(2)] assms(2) t by simp
  ultimately show ?thesis by (simp add: tally_answered)
qed

subsection \<open>5\_setitimer.c\<close>

definition timer_tab :: "nat \<rightharpoonup> handler" where
  "timer_tab = [14 \<mapsto> \<lparr>hfun = timer_fun, sa_mask = {}\<rparr>]"

text \<open>\<open>n\<close> seconds have passed and the timer has expired \<open>f\<close> times.\<close>

definition timer_inv :: "nat \<Rightarrow> nat \<Rightarrow> timer_pc hproc \<Rightarrow> bool" where
  "timer_inv n f s \<longleftrightarrow> hproc_ok s \<and> table s = timer_tab \<and> hstat s \<noteq> At I_signal \<and> (hstat s = At I_set \<longrightarrow> timer s = None)
     \<and> (timer s = None \<and> f = 0 \<or> timer s = Some (2, 1) \<and> f = 0 \<or> timer s = Some (1, 1) \<and> f < n)
     \<and> tally 14 (timer_fun 14) f s"

lemma timer_own: "own_line 14 (timer_fun 14) timer_tab"
  by (auto simp: own_line_def timer_tab_def)

lemma timer_exec:
  assumes "timer_inv n f s" "hexec setitimer_main a s = Some t" "a \<noteq> Arrive 14"
  shows "timer_inv (n + of_bool (a = Second)) (f + sends 14 a s) t"
proof -
  have tab: "table t = table s \<and> hstat t \<noteq> At I_signal"
    using assms(2,1) by (cases rule: hexecE) (auto simp: timer_inv_def call_step_def split: hcall.splits if_splits elim!: setitimer_main.elims)
  have "setitimer_main pc \<noteq> Say (timer_fun 14) k" for pc k by (cases pc) (auto simp: timer_fun_def)
  then have "tally 14 (timer_fun 14) (f + sends 14 a s) t"
    using tally_exec [OF assms(2)] assms(1) timer_own tab by (simp add: timer_inv_def)
  moreover have "hproc_ok t" using hproc_ok_exec [OF _ assms(2)] assms(1) by (simp add: timer_inv_def)
  moreover have "(hstat t = At I_set \<longrightarrow> timer t = None)
     \<and> (timer t = None \<and> f + sends 14 a s = 0 \<or> timer t = Some (2, 1) \<and> f + sends 14 a s = 0
         \<or> timer t = Some (1, 1) \<and> f + sends 14 a s < n + of_bool (a = Second))"
    using assms(2,1,3)
    by (cases rule: hexecE)
      (auto simp: timer_inv_def sends_def second_passes_def call_step_def split: hcall.splits if_splits elim!: setitimer_main.elims)
  ultimately show ?thesis using tab assms(1) by (simp add: timer_inv_def)
qed

lemma timer_run_inv:
  "timer_inv n f s \<Longrightarrow> run_actions (hexec setitimer_main) as s = Some t \<Longrightarrow> Arrive 14 \<notin> set as \<Longrightarrow> \<exists>f. timer_inv (n + count_list as Second) f t"
proof (induction as arbitrary: n f s)
  case (Cons a as)
  then obtain u where u: "hexec setitimer_main a s = Some u" "run_actions (hexec setitimer_main) as u = Some t" by (auto split: option.splits)
  have "a \<noteq> Arrive 14" using Cons.prems(3) by auto
  from timer_exec [OF Cons.prems(1) u(1) this] have "timer_inv (n + of_bool (a = Second)) (f + sends 14 a s) u" .
  from Cons.IH [OF this u(2)] Cons.prems(3) show ?case by (auto split: if_splits)
qed auto

definition timer_ready :: "timer_pc hproc" where
  "timer_ready = (hstart I_set)\<lparr>table := timer_tab\<rparr>"

lemma timer_ready_reached: "run_actions (hexec setitimer_main) [Call True] (hstart I_signal) = Some timer_ready"
  by (simp add: hexec_def hstart_def call_step_def timer_ready_def timer_tab_def)

lemma timer_ready_inv: "timer_inv 0 0 timer_ready"
  by (simp add: timer_inv_def timer_ready_def hstart_def hproc_ok_def tally_start)

text \<open>C39: \<^verbatim>\<open>5_setitimer.c\<close> is never killed by its timer, and shows at most one line for every second but the first; the bound is reached when each
  expiry is handled before the next.\<close>

theorem timer_lines_bounded:
  assumes "run_actions (hexec setitimer_main) ([Call True] @ as) (hstart I_signal) = Some s" "Arrive 14 \<notin> set as"
  shows "count_list (hout s) (timer_fun 14) \<le> count_list as Second - 1 \<and> hstat s \<noteq> Over (ChildKilled 14)"
proof -
  have "run_actions (hexec setitimer_main) as timer_ready = Some s"
    using assms(1) by (simp only: run_actions_append timer_ready_reached bind.simps)
  then obtain f where f: "timer_inv (count_list as Second) f s"
    using timer_run_inv [OF timer_ready_inv _ assms(2)] by auto
  then have "f \<le> count_list as Second - 1" "count_list (hout s) (timer_fun 14) \<le> f" by (auto simp: timer_inv_def tally_def taken_up_def)
  moreover have "hstat s \<noteq> Over (ChildKilled 14)" using f by (auto simp: timer_inv_def hproc_ok_def timer_tab_def)
  ultimately show ?thesis by simp
qed

definition prompt_run :: "nat \<Rightarrow> hact list" where
  "prompt_run n = [Call True, Call True, Second] @ concat (replicate n [Second, Take 14, Print, Return]) @ [Key, Call True]"

definition ticking :: "nat \<Rightarrow> timer_pc hproc" where
  "ticking n = timer_ready\<lparr>hstat := At I_wait, timer := Some (1, 1), hout := Shown Press None # replicate n (timer_fun 14)\<rparr>"

lemma prompt_turns:
  "run_actions (hexec setitimer_main) (concat (replicate n [Second, Take 14, Print, Return])) (ticking k) = Some (ticking (k + n))"
proof (induction n arbitrary: k)
  case (Suc n)
  have "run_actions (hexec setitimer_main) [Second, Take 14, Print, Return] (ticking k) = Some (ticking (Suc k))"
    by (simp add: ticking_def timer_ready_def hstart_def hexec_def second_passes_def take_signal_def timer_tab_def Let_def replicate_append_same)
  with Suc [of "Suc k"] show ?case by (simp add: run_actions_append del: run_actions.simps append_Cons)
qed simp

lemma prompt_run_shows_all:
  "map_option (\<lambda>s. (hstat s, hout s)) (run_actions (hexec setitimer_main) (prompt_run n) timer_ready) =
     Some (Over (ChildExits 0), Shown Press None # replicate n (timer_fun 14))"
proof -
  have "run_actions (hexec setitimer_main) [Call True, Call True, Second] timer_ready = Some (ticking 0)"
    by (simp add: ticking_def timer_ready_def hstart_def hexec_def second_passes_def call_step_def)
  moreover have "map_option (\<lambda>s. (hstat s, hout s)) (run_actions (hexec setitimer_main) [Key, Call True] (ticking n)) =
      Some (Over (ChildExits 0), Shown Press None # replicate n (timer_fun 14))"
    by (simp add: ticking_def timer_ready_def hstart_def hexec_def call_step_def)
  ultimately show ?thesis
    by (simp add: prompt_run_def run_actions_append prompt_turns del: run_actions.simps append_Cons)
qed

theorem timer_lines_bounded_witness:
  "\<exists>s :: timer_pc hproc. run_actions (hexec setitimer_main) ([Call True] @ prompt_run 3) (hstart I_signal) = Some s
     \<and> count_list (hout s) (timer_fun 14) \<le> 3"
proof -
  obtain s :: "timer_pc hproc" where s: "run_actions (hexec setitimer_main) (prompt_run 3) timer_ready = Some s"
    using prompt_run_shows_all [of 3] by auto
  then have r: "run_actions (hexec setitimer_main) ([Call True] @ prompt_run 3) (hstart I_signal) = Some s"
    by (simp only: run_actions_append timer_ready_reached bind.simps)
  have "Arrive 14 \<notin> set (prompt_run 3)" "count_list (prompt_run 3) Second = 4" by (simp_all add: prompt_run_def eval_nat_numeral)
  with timer_lines_bounded [OF r] have "count_list (hout s) (timer_fun 14) \<le> 3" by simp
  with r show ?thesis by blast
qed

subsection \<open>4\_alarm.c\<close>

text \<open>With its two seconds of sleep \<^verbatim>\<open>4_alarm.c\<close> shows 0 and 3 - seconds, not milliseconds - and ends before its second alarm; it is killed by the
  first one when five seconds go by in the sleep, and by the second when two do at the end.\<close>

theorem alarm_program_outcome:
  "alarm_main n late \<lparr>now = t, due = None\<rparr> =
    (if n < 5 then ([0, 5 - n], if late < 2 then ChildExits 0 else ChildKilled 14) else ([0], ChildKilled 14))"
  by (simp add: alarm_main_def alarm_def pass_def)

end
