(* ===== verification/TcpTalk.thy ===== *)
theory TcpTalk
  imports TcpEcho "HOL-Library.Sublist"
begin

section \<open>The TCP client and the TCP server on one connection (8\_socket)\<close>

text \<open>
  \<^verbatim>\<open>4_tcp_client.c\<close> and \<^verbatim>\<open>4_tcp_server.c\<close>, as \<open>TcpEcho\<close> models them, at the two ends of a connection. The network is what both rely on: the bytes that
  one end can read are the first of those that the other end wrote, cut into reads in any way, and it may break at any point.
\<close>












subsection \<open>What each program passes on\<close>





lemma andthen_undef [simp]: "andthen undef k = undef"
  by (rule ext) (simp add: andthen_def)




subsection \<open>Both ends\<close>







end
