(* ===== verification/PoolTest.thy ===== *)
theory PoolTest
  imports ThreadPoolInv
begin

section \<open>The test program of the adaptive thread pool (threadpool.c)\<close>



definition process_task :: "nat \<Rightarrow> task" where
  "process_task i = Task 1 i"







subsection \<open>The invariant\<close>

definition tasks :: "nat \<Rightarrow> task list" where
  "tasks n = map process_task [0..<n]"




lemma tasks_simps [simp]: "tasks i @ [process_task i] = tasks (Suc i)" "length (tasks i) = i"
  by (simp_all add: tasks_def)














subsection \<open>What the program does\<close>




end
