(* ===== verification/ThreadArgs.thy ===== *)
theory ThreadArgs
  imports Transition "HOL-Library.Word"
begin

section \<open>An integer as the argument of a thread (6\_thread\_c/3\_pthread\_create.c)\<close>

text \<open>
  \<^verbatim>\<open>3_pthread_create.c\<close> starts two threads, passes the second one a number in place of a pointer, and returns without waiting for them. Pointers and
  \<^verbatim>\<open>long\<close> have 64 bits, an \<^verbatim>\<open>int\<close> has 32. A thread number printed with \<^verbatim>\<open>%d\<close> loses its upper half.
\<close>

text \<open>\<^verbatim>\<open>(int)(long)arg\<close>, and the way in, \<^verbatim>\<open>(void *)(long)i\<close>.\<close>

definition int_of_arg :: "64 word \<Rightarrow> 32 word" where
  "int_of_arg arg = ucast arg"

definition arg_of_int :: "32 word \<Rightarrow> 64 word" where
  "arg_of_int i = scast i"

text \<open>Every \<^verbatim>\<open>int\<close> comes through the pointer unchanged, negative ones too; a pointer comes through the \<^verbatim>\<open>int\<close> unchanged exactly when its value is
  that of an \<^verbatim>\<open>int\<close>.\<close>

theorem thread_argument_round_trip:
  "int_of_arg (arg_of_int i) = i \<and> (arg_of_int (int_of_arg p) = p \<longleftrightarrow> - (2 ^ 31) \<le> sint p \<and> sint p < 2 ^ 31)"
proof
  show "int_of_arg (arg_of_int i) = i"
    unfolding int_of_arg_def arg_of_int_def by (rule bit_word_eqI) (auto simp: bit_simps)
  show "arg_of_int (int_of_arg p) = p \<longleftrightarrow> - (2 ^ 31) \<le> sint p \<and> sint p < 2 ^ 31"
  proof -
    have s: "sint (arg_of_int (int_of_arg p)) = signed_take_bit 31 (sint p)"
      unfolding int_of_arg_def arg_of_int_def by (rule bit_eqI) (auto simp: bit_simps min_def)
    have "arg_of_int (int_of_arg p) = p \<longleftrightarrow> signed_take_bit 31 (sint p) = sint p"
      using s by (metis signed_word_eqI)
    then show ?thesis by (simp add: signed_take_bit_int_eq_self_iff)
  qed
qed

subsection \<open>The program\<close>

datatype args_pc = C_first | C_second | C_say | C_press | C_key | C_over int

datatype args_line = CreateFails | ChildRuns "64 word" | Res "32 word" "32 word" | MainRuns "64 word" | PressKey

text \<open>A thread is \<open>None\<close> until it is created; then: whether it has run. \<open>tid\<close> gives the number of a thread, of \<^verbatim>\<open>main\<close> for 0.\<close>

record args_state =
  args_main :: args_pc
  first_done :: "bool option"
  second_done :: "bool option"
  args_out :: "args_line list"

definition args_say :: "args_line \<Rightarrow> args_state \<Rightarrow> args_state" where
  "args_say l s = s\<lparr>args_out := args_out s @ [l]\<rparr>"

definition fun_thread :: "(nat \<Rightarrow> 64 word) \<Rightarrow> args_state \<Rightarrow> args_state option" where
  "fun_thread tid s =
     (if first_done s = Some False then Some ((args_say (ChildRuns (tid 1)) s)\<lparr>first_done := Some True\<rparr>) else None)"

definition fun1_thread :: "(nat \<Rightarrow> 64 word) \<Rightarrow> 64 word \<Rightarrow> args_state \<Rightarrow> args_state option" where
  "fun1_thread tid arg s =
     (if second_done s = Some False
      then (let res = int_of_arg arg in Some ((args_say (Res res (ucast (tid 2))) s)\<lparr>second_done := Some True\<rparr>)) else None)"

definition create_main :: "(nat \<Rightarrow> 64 word) \<Rightarrow> bool \<Rightarrow> args_state \<Rightarrow> args_state option" where
  "create_main tid ok s =
     (case args_main s of
        C_first \<Rightarrow> Some (if ok then s\<lparr>first_done := Some False, args_main := C_second\<rparr> else (args_say CreateFails s)\<lparr>args_main := C_over 1\<rparr>)
      | C_second \<Rightarrow> Some (if ok then s\<lparr>second_done := Some False, args_main := C_say\<rparr> else (args_say CreateFails s)\<lparr>args_main := C_over 1\<rparr>)
      | C_say \<Rightarrow> Some ((args_say (MainRuns (tid 0)) s)\<lparr>args_main := C_press\<rparr>)
      | C_press \<Rightarrow> Some ((args_say PressKey s)\<lparr>args_main := C_key\<rparr>)
      | C_key \<Rightarrow> Some (s\<lparr>args_main := C_over 0\<rparr>)
      | C_over e \<Rightarrow> None)"

datatype args_agent = Main bool | Fun | Fun1

text \<open>The process ends when \<^verbatim>\<open>main\<close> returns.\<close>

definition args_exec :: "(nat \<Rightarrow> 64 word) \<Rightarrow> args_agent \<Rightarrow> args_state \<Rightarrow> args_state option" where
  "args_exec tid a s =
     (case args_main s of C_over e \<Rightarrow> None
      | _ \<Rightarrow> (case a of Main ok \<Rightarrow> create_main tid ok s | Fun \<Rightarrow> fun_thread tid s | Fun1 \<Rightarrow> fun1_thread tid 0x3 s))"

definition args_start :: args_state where
  "args_start = \<lparr>args_main = C_first, first_done = None, second_done = None, args_out = []\<rparr>"

fun from_thread :: "args_line \<Rightarrow> bool" where
  "from_thread (ChildRuns t) = True"
| "from_thread (Res r t) = True"
| "from_thread _ = False"

fun said_by_main :: "(nat \<Rightarrow> 64 word) \<Rightarrow> args_pc \<Rightarrow> args_line list" where
  "said_by_main tid C_press = [MainRuns (tid 0)]"
| "said_by_main tid C_key = [MainRuns (tid 0), PressKey]"
| "said_by_main tid (C_over e) = (if e = 0 then [MainRuns (tid 0), PressKey] else [CreateFails])"
| "said_by_main tid _ = []"

definition args_inv :: "(nat \<Rightarrow> 64 word) \<Rightarrow> args_state \<Rightarrow> bool" where
  "args_inv tid s \<longleftrightarrow> filter (\<lambda>l. \<not> from_thread l) (args_out s) = said_by_main tid (args_main s)
     \<and> count_list (args_out s) (ChildRuns (tid 1)) = of_bool (first_done s = Some True)
     \<and> count_list (args_out s) (Res 3 (ucast (tid 2))) = of_bool (second_done s = Some True)
     \<and> (args_main s = C_first \<longrightarrow> first_done s = None) \<and> (args_main s \<in> {C_first, C_second} \<longrightarrow> second_done s = None)
     \<and> list_all (\<lambda>l. from_thread l \<longrightarrow> l \<in> {ChildRuns (tid 1), Res 3 (ucast (tid 2))}) (args_out s)
     \<and> (\<forall>e. args_main s = C_over e \<longrightarrow> e = 0 \<or> e = 1)"

lemma res_three: "int_of_arg 0x3 = 3"
  by (simp add: int_of_arg_def)

interpretation args: invariant_system "\<lambda>s. s = args_start" "args_exec tid" "args_inv tid" for tid
proof
  show "args_inv tid s" if "s = args_start" for s using that by (auto simp: args_inv_def args_start_def)
  show "args_inv tid t" if "args_inv tid s" "args_exec tid a s = Some t" for a s t
  proof (cases a)
    case (Main ok)
    with that(2) have "create_main tid ok s = Some t" "\<And>e. args_main s \<noteq> C_over e"
      by (auto simp: args_exec_def split: args_pc.splits)
    then consider
        "args_main s = C_first" "t = s\<lparr>first_done := Some False, args_main := C_second\<rparr>"
      | "args_main s = C_second" "t = s\<lparr>second_done := Some False, args_main := C_say\<rparr>"
      | "args_main s \<in> {C_first, C_second}" "t = (args_say CreateFails s)\<lparr>args_main := C_over 1\<rparr>"
      | "args_main s = C_say" "t = (args_say (MainRuns (tid 0)) s)\<lparr>args_main := C_press\<rparr>"
      | "args_main s = C_press" "t = (args_say PressKey s)\<lparr>args_main := C_key\<rparr>"
      | "args_main s = C_key" "t = s\<lparr>args_main := C_over 0\<rparr>"
      by (cases "args_main s"; cases ok) (simp_all add: create_main_def)
    then show ?thesis using that(1) by cases (auto simp: args_inv_def args_say_def)
  next
    case Fun
    with that have "t = (args_say (ChildRuns (tid 1)) s)\<lparr>first_done := Some True\<rparr>" "first_done s = Some False"
      by (auto simp: args_exec_def fun_thread_def split: args_pc.splits if_splits)
    with that(1) show ?thesis by (simp add: args_inv_def args_say_def)
  next
    case Fun1
    with that have "t = (args_say (Res 3 (ucast (tid 2))) s)\<lparr>second_done := Some True\<rparr>" "second_done s = Some False"
      by (auto simp: args_exec_def fun1_thread_def res_three split: args_pc.splits if_splits)
    with that(1) show ?thesis by (simp add: args_inv_def args_say_def)
  qed
qed

text \<open>Each thread prints its line at most once, the second one the number 3, and \<^verbatim>\<open>main\<close> its two lines in order; no line of a thread is sure to come,
  for \<^verbatim>\<open>main\<close> does not wait.\<close>

lemma create_program_output:
  assumes "reach (\<lambda>s. s = args_start) (lstep (args_exec tid)) s"
  shows "filter (\<lambda>l. \<not> from_thread l) (args_out s) = said_by_main tid (args_main s)
    \<and> count_list (args_out s) (ChildRuns (tid 1)) \<le> 1 \<and> count_list (args_out s) (Res 3 (ucast (tid 2))) \<le> 1
    \<and> {l \<in> set (args_out s). from_thread l} \<subseteq> {ChildRuns (tid 1), Res 3 (ucast (tid 2))}"
proof -
  have "args_inv tid s" using args.inv_reach [OF assms] .
  then show ?thesis by (auto simp: args_inv_def list_all_iff)
qed

lemma create_program_may_lose_threads:
  "map_option (\<lambda>s. (args_main s, args_out s)) (run_actions (args_exec tid) (replicate 5 (Main True)) args_start) =
     Some (C_over 0, [MainRuns (tid 0), PressKey])"
  by (simp add: eval_nat_numeral args_exec_def create_main_def args_say_def args_start_def)

end
