(* ===== verification/Spec2Isabelle.thy ===== *)
theory Spec2Isabelle
  imports ThreadPoolProps SimpleServer MuxServers Reactor EpollWeb BevMain LibeventTcp TcpEcho UdpEcho
    Philosophers Printers RwLock CondFlag ProdCond ProdSem
    Pipes Processes Threads ThreadLife Signals FileDemos TcpServer SharedMemory OpenSsl AddressBook
    Stdio Handlers TcpTalk PoolTest ThreadArgs
begin

text \<open>
  A verification library for the C programs of the repository, most of them in \<^verbatim>\<open>src/concurrence_linux\<close>: wrappers around the
  socket calls, servers that multiplex connections with \<^verbatim>\<open>select\<close>, \<^verbatim>\<open>poll\<close>, \<^verbatim>\<open>epoll\<close> and libevent, two web servers, two thread
  pools, and programs about threads and locks. Paths below are relative to \<^verbatim>\<open>src/concurrence_linux\<close>.

  \<^bold>\<open>How a C function is modelled.\<close> A function that runs in one thread is a state transformer \<open>('s, 'a) io\<close> (theory \<open>Io\<close>): it
  returns, exits the process, does not return from a blocking call, or runs into undefined behaviour
  (\<open>Ret\<close>, \<open>Exit\<close>, \<open>Blocked\<close>, \<open>Undef\<close>). Its state is the record \<open>world\<close>, the kernel as the process sees it; a program with
  static data extends that record. What the environment will do is part of the state, as a script per descriptor:
  how the next reads are cut or fail, how much the next writes take, who connects, what is ready. A
  theorem about every \<open>world\<close> is about every behaviour of the peers. Threads are functions from an action to a partial
  function on states (theory \<open>Transition\<close>); \<open>reach\<close> is every state of every interleaving. Buffers are the list of
  their bytes, C strings are cut at the first NUL by \<open>cstr\<close>, 16 and 32 bit quantities are words, and an \<^verbatim>\<open>int\<close> that can overflow is tested
  for it. An access outside of an object is \<open>Undef\<close>, or a flag of the state of a threaded program.

  \<^bold>\<open>The theories.\<close>
  \<^item> \<open>Prelude\<close>: bytes, C strings, decimal numerals, counting, searching an array. \<open>Inet\<close>: byte order and address
    conversion (\<^verbatim>\<open>8_socket/1_hton.c\<close>, \<^verbatim>\<open>2_ntoh.c\<close>, \<^verbatim>\<open>3_ip_transfer.c\<close>). \<open>Io\<close>: outcomes, the kernel, the system calls.
  \<^item> \<open>Wrap\<close>: \<^verbatim>\<open>wrap.c\<close>, every function; \<^verbatim>\<open>Readn\<close> and \<^verbatim>\<open>Writen\<close> deliver all bytes under any segmentation, \<^verbatim>\<open>Readline\<close> over its buffer equals
    reading byte by byte. \<open>Pub\<close>: \<^verbatim>\<open>pub.c\<close>; decoding inverts encoding, both stay inside their buffers.
  \<^item> \<open>RingQueue\<close>, \<open>ThreadPool\<close>, \<open>ThreadPoolInv\<close>, \<open>ThreadPoolProps\<close>: \<^verbatim>\<open>14_thrpoll/threadpool.c\<close>. A bounded FIFO queue (locale
    \<open>bounded_queue\<close>) implemented by a ring; workers, clients, manager and destroyer as program counters whose steps are what happens
    between two operations on the pool's mutex; the invariant; what follows for every interleaving. \<open>SimplePool\<close>:
    \<^verbatim>\<open>threadpoolsimple.c\<close>, its pool and its epoll server. \<open>SimpleServer\<close> composes them: event loop and workers interleaved also inside of
    \<^verbatim>\<open>taskRun\<close>, which shows what the shared descriptors and task slots do to the connections. \<open>PoolTest\<close>: the test program at the end of
    \<^verbatim>\<open>threadpool.c\<close>, a client of the pool.
  \<^item> \<open>SlotTable\<close>: the locale \<open>slots\<close> of tables with one entry per connection, interpreted in \<open>MuxServers\<close>, \<open>Reactor\<close> and \<open>LibeventTcp\<close>.
    \<open>MuxServers\<close>: \<^verbatim>\<open>9_epoll_select/1_select.c\<close>, \<^verbatim>\<open>2_poll.c\<close>, \<^verbatim>\<open>3_epoll.c\<close>, \<^verbatim>\<open>4_epoll_et.c\<close>. \<open>Reactor\<close>: \<^verbatim>\<open>5_reactor.c\<close>.
    \<open>LibeventTcp\<close>: \<^verbatim>\<open>10_libevent\<close>, over the locale \<open>event_lib\<close> that states what is relied on of libevent.
  \<^item> \<open>EpollWeb\<close>: \<^verbatim>\<open>13_libevent_web/01_epoll_web.c\<close>; a GET request is answered with \<open>response\<close>, a function of the
    file system. \<open>Bufferevent\<close>: \<^verbatim>\<open>02_libevent_web.c\<close> and \<^verbatim>\<open>11_bufferevent\<close>, over the locale \<open>bufferevent\<close>;
    \<open>BevMain\<close>: their \<^verbatim>\<open>main\<close> functions, over the locale \<open>libevent\<close> of what is created and freed.
  \<^item> \<open>TcpEcho\<close>, \<open>UdpEcho\<close>: the other programs of \<^verbatim>\<open>8_socket\<close>; \<open>UdpEcho\<close> also puts client and server together, and \<open>TcpTalk\<close>
    does so for \<^verbatim>\<open>4_tcp_client.c\<close> and \<^verbatim>\<open>4_tcp_server.c\<close>: what each end shows is what the other end's user typed, however the stream is cut.
  \<^item> \<open>Locks\<close>: mutex and semaphore as instances of the locale \<open>exclusion_lock\<close>. Of \<^verbatim>\<open>7_thread_sync\<close>: \<open>Printers\<close> (1 and 5, one program over two locks),
    \<open>RwLock\<close> (2), \<open>CondFlag\<close> (3), \<open>ProdCond\<close> (4), \<open>ProdSem\<close> (6), \<open>Philosophers\<close> (7).
  \<^item> \<open>Pipes\<close>: \<^verbatim>\<open>3_pipe_c\<close>, the system calls of two processes in every order. \<open>Processes\<close>: \<^verbatim>\<open>2_process_c\<close> and \<^verbatim>\<open>1_file_c/4_lseek.c\<close>, wait
    statuses, files and memory shared or not. \<open>FileDemos\<close>: 2, 3, 5 and 6 of \<^verbatim>\<open>1_file_c\<close> and
    \<^verbatim>\<open>3_pipe_c/7_mmap.c\<close>. \<open>Threads\<close>: \<^verbatim>\<open>6_thread_c\<close>, what unsynchronised threads can print. \<open>ThreadLife\<close>: threads that are
    joined, detached and cancelled (5, 7 to 10 of \<^verbatim>\<open>6_thread_c\<close>). \<open>ThreadArgs\<close>: 3 of \<^verbatim>\<open>6_thread_c\<close>. \<open>Signals\<close>: 7 and 8 of \<^verbatim>\<open>4_signal_c\<close> and the
    daemon of \<^verbatim>\<open>5_process_group\<close>.
  \<^item> \<open>ProcTable\<close>: a table of processes that fork, end, kill and start sessions, and the invariant of the table. \<open>TwoProcs\<close>: the
    steps of a program that forks once, as an inductive relation, with the locale \<open>forking_program\<close> that turns an invariant of it into a fact about every
    schedule. \<open>ProcDemos\<close>: its instances, 1, 2, 3, 8 and 9 of \<^verbatim>\<open>2_process_c\<close>, 1 to 3 of \<^verbatim>\<open>4_signal_c\<close>, 1 and 2 of \<^verbatim>\<open>5_process_group\<close>: orphans, zombies,
    processes that kill each other or themselves. \<open>Stdio\<close>: what the end of a process does to its output (5 and 10 of \<^verbatim>\<open>2_process_c\<close>). \<open>Handlers\<close>:
    4, 5, 6 and 9 of \<^verbatim>\<open>4_signal_c\<close>, signal handlers that are nested, joined and driven by timers.
  \<^item> Outside of \<^verbatim>\<open>concurrence_linux\<close>: \<open>TcpSocket\<close>, the messages of \<^verbatim>\<open>src/tcp_linux/TcpSocket.cpp\<close>; \<open>TcpServer\<close>, its connecting and the class
    of \<^verbatim>\<open>TcpServer.cpp\<close>; \<open>KeyShm\<close>, the table of \<^verbatim>\<open>src/shm_test/SecKeyShm.cpp\<close>; \<open>SharedMemory\<close>, \<^verbatim>\<open>BaseShm.cpp\<close>, the table in a segment that
    several objects attach, and the programs \<^verbatim>\<open>write_shm.c\<close> and \<^verbatim>\<open>read_shm.c\<close>; \<open>OpenSsl\<close>, \<^verbatim>\<open>src/openssl_test\<close>; \<open>AddressBook\<close>,
    \<^verbatim>\<open>add_person.cc\<close> and \<^verbatim>\<open>list_people.cc\<close> of \<^verbatim>\<open>src/protobuf_test\<close>.

  \<^bold>\<open>Kinds of results.\<close> Invariants are proved through the locales \<open>invariant_system\<close> and \<open>live_system\<close>, interpreted on each threaded program, so
  they hold for every interleaving, spurious wakeups included. Functional theorems say what
  leaves the process for every script of the environment that satisfies the hypotheses. Where a program misbehaves the theorem exhibits it: a
  schedule or a class of inputs that leads to undefined behaviour, to a lost node or a lost wakeup, to a hanging client.
  Each property has an instance next to it, named \<open>_witness\<close>, at a concrete state.

  \<^bold>\<open>Bounds and fuel.\<close> Loops on a connection end because each turn uses up what the connection can still
  deliver (\<open>pending_size\<close>, \<open>script_size\<close>); that is the measure of their termination proofs, or the fuel they are started with, and one
  more turn then finds nothing. Loops on \<^verbatim>\<open>accept\<close> or \<^verbatim>\<open>recvfrom\<close> are started with the length of its script. A server's
  endless loop is run for a number of turns that is an argument; running out of it is \<open>Blocked\<close> or the state so far, and the
  theorems about it are for every number of turns.

  \<^bold>\<open>Not modelled.\<close> Diagnostic output, the contents of \<^verbatim>\<open>errno\<close> messages, time (\<^verbatim>\<open>sleep\<close> and timeouts are points
  where a thread may be delayed; the timers of \<open>Handlers\<close> count seconds). libevent, OpenSSL and protobuf are parameters. The memory of the kernel and of the C library is not modelled: overlapping arguments of \<^verbatim>\<open>sprintf\<close> in
  \<^verbatim>\<open>copy_header\<close> are taken to work as they do in practice. The programs of \<^verbatim>\<open>1_file_c\<close> to
  \<^verbatim>\<open>6_thread_c\<close> that the list above does not name (\<^verbatim>\<open>1open.c\<close>, \<^verbatim>\<open>1_pipe.c\<close>, \<^verbatim>\<open>3_pipe_fpathconf.c\<close>, \<^verbatim>\<open>5_mkfifo.c\<close>, \<^verbatim>\<open>1_pthread_self.c\<close>, \<^verbatim>\<open>2_thread_equal.c\<close>)
  only show what one system call returns. The copies of \<^verbatim>\<open>wrap.c\<close>, \<^verbatim>\<open>pub.c\<close>,
  \<^verbatim>\<open>threadpool.c\<close> and \<^verbatim>\<open>threadpoolsimple.c\<close> in other directories are modelled once. The other C++ programs are generated by
  \<^verbatim>\<open>protoc\<close> or only call protobuf or jsoncpp.
\<close>

section \<open>Properties across components\<close>

text \<open>C25: A link made by \<^verbatim>\<open>strencode\<close> leads both web servers to the file it was made for: for every file name (except the
  one that stands for the directory itself) that fits the buffer, the path of the request decodes to that name in the epoll server and in the
  libevent server.\<close>

theorem web_servers_find_encoded_name:
  assumes "NUL \<notin> set name" "name \<noteq> []" "name \<noteq> ''.''" "3 * length name + 1 < tosize"
  shows "requested (CHR ''/'' # strencode tosize 0 name) = name \<and> bev_path (CHR ''/'' # strencode tosize 0 name) = name"
proof -
  have s: "strdecode (strencode tosize 0 name) = name"
    using assms by (intro strdecode_strencode_all) simp_all
  have "strdecode (CHR ''/'' # strencode tosize 0 name) = CHR ''/'' # name"
    by (simp add: strdecode_plain s)
  with s assms(1-3) show ?thesis
    by (simp add: requested_def bev_path_def Let_def cstr_id)
qed

theorem web_servers_find_encoded_name_witness:
  "requested (CHR ''/'' # strencode 100 0 ''a b.txt'') = ''a b.txt'' \<and> bev_path (CHR ''/'' # strencode 100 0 ''a b.txt'') = ''a b.txt''"
  by (rule web_servers_find_encoded_name) simp_all

end
